(* ===== verification/Go_Prelude.thy ===== *)
theory Go_Prelude
  imports Main "HOL-Library.Char_ord" "HOL-Library.List_Lexorder" "HOL-Library.Product_Lexorder"
begin

text \<open>
  Shared vocabulary of the development: the fact collections, Go's 64-bit integers, Go's
  error values with \<^verbatim>\<open>errors.Is\<close>, decimal rendering of integers, and the generic
  lemmas on association lists and sorted lists that the component theories use.
\<close>

named_theorems key_simps \<open>which backend keys differ\<close>
named_theorems view_simps \<open>effect of one backend command on the channel view\<close>


section \<open>Machine integers\<close>

text \<open>Go's \<^verbatim>\<open>int\<close> and \<^verbatim>\<open>int64\<close>: two's complement on 64 bits.  Arithmetic of the source
  that can leave the range is wrapped explicitly with \<open>int64\<close>.\<close>

definition int64 :: "int \<Rightarrow> int" where
  "int64 x = (x + 2 ^ 63) mod 2 ^ 64 - 2 ^ 63"

definition in_int64 :: "int \<Rightarrow> bool" where
  "in_int64 x \<longleftrightarrow> - (2 ^ 63) \<le> x \<and> x < 2 ^ 63"

lemma int64_id [simp]: "in_int64 x \<Longrightarrow> int64 x = x"
  by (simp add: int64_def in_int64_def)

lemma int64_in_range: "in_int64 (int64 x)"
proof -
  have "0 \<le> (x + 2 ^ 63) mod 2 ^ 64" and "(x + 2 ^ 63) mod 2 ^ 64 < 2 ^ 64"
    by simp_all
  then show ?thesis by (simp add: int64_def in_int64_def)
qed

lemma int64_cong: "int64 a = int64 b \<longleftrightarrow> a mod 2 ^ 64 = b mod 2 ^ 64"
proof -
  have "int64 a = int64 b \<longleftrightarrow> (a + 2 ^ 63) mod 2 ^ 64 = (b + 2 ^ 63) mod 2 ^ 64" by (simp add: int64_def)
  also have "\<dots> \<longleftrightarrow> a mod 2 ^ 64 = b mod 2 ^ 64" by (simp only: mod_eq_dvd_iff) simp
  finally show ?thesis .
qed

lemma int64_mod: "int64 a mod 2 ^ 64 = a mod 2 ^ 64"
proof -
  have "int64 a mod 2 ^ 64 = ((a + 2 ^ 63) mod 2 ^ 64 - 2 ^ 63) mod 2 ^ 64" by (simp only: int64_def)
  also have "\<dots> = (a + 2 ^ 63 - 2 ^ 63) mod 2 ^ 64" by (rule mod_diff_left_eq)
  also have "\<dots> = a mod 2 ^ 64" by simp
  finally show ?thesis .
qed

lemma int64_add: "int64 (int64 a + b) = int64 (a + b)" "int64 (a + int64 b) = int64 (a + b)"
  unfolding int64_cong using int64_mod by (metis mod_add_left_eq, metis mod_add_right_eq)

lemma int64_idem [simp]: "int64 (int64 x) = int64 x"
  by (simp add: int64_in_range)


section \<open>Errors\<close>

text \<open>
  Go error values, up to what the source can observe of them: identity against the sentinel
  errors it compares with, the chain built by \<^verbatim>\<open>fmt.Errorf("...%w")\<close>, the presence of a
  \<^verbatim>\<open>Timeout() bool\<close> method, and the text.
\<close>

datatype error =
    ErrText string              \<comment> \<open>\<^verbatim>\<open>errors.New\<close>, \<^verbatim>\<open>fmt.Errorf\<close> without a wrapped error\<close>
  | ErrWrap string error        \<comment> \<open>\<^verbatim>\<open>fmt.Errorf("prefix%w", err)\<close>\<close>
  | ErrJoin string "error list" \<comment> \<open>\<^verbatim>\<open>fmt.Errorf("prefix%w", errors.Join(errs...))\<close>\<close>
  | ErrRedisNil                 \<comment> \<open>\<^verbatim>\<open>redis.Nil\<close>\<close>
  | ErrCanceled                 \<comment> \<open>\<^verbatim>\<open>context.Canceled\<close>\<close>
  | ErrDeadlineExceeded         \<comment> \<open>\<^verbatim>\<open>context.DeadlineExceeded\<close>\<close>
  | ErrEOF                      \<comment> \<open>\<^verbatim>\<open>io.EOF\<close>\<close>
  | ErrUnexpectedEOF            \<comment> \<open>\<^verbatim>\<open>io.ErrUnexpectedEOF\<close>\<close>
  | ErrTimeoutMethod string bool \<comment> \<open>an error with a \<^verbatim>\<open>Timeout() bool\<close> method (network errors)\<close>

text \<open>\<^verbatim>\<open>errors.Is(err, target)\<close> for a sentinel target: some error of the chain is the target.\<close>

fun errors_Is :: "error \<Rightarrow> error \<Rightarrow> bool" where
  "errors_Is (ErrWrap p e) t = (ErrWrap p e = t \<or> errors_Is e t)"
| "errors_Is (ErrJoin p es) t = (ErrJoin p es = t \<or> (\<exists>e \<in> set es. errors_Is e t))"
| "errors_Is e t = (e = t)"

text \<open>\<^verbatim>\<open>errors.As(err, &t)\<close> for \<^verbatim>\<open>var t interface{ Timeout() bool }\<close>; the context deadline error
  has that method too.\<close>

fun errors_As_timeout :: "error \<Rightarrow> bool" where
  "errors_As_timeout (ErrWrap p e) = errors_As_timeout e"
| "errors_As_timeout (ErrJoin p es) = (\<exists>e \<in> set es. errors_As_timeout e)"
| "errors_As_timeout (ErrTimeoutMethod _ _) = True"
| "errors_As_timeout ErrDeadlineExceeded = True"
| "errors_As_timeout _ = False"


text \<open>\<^verbatim>\<open>err.Error()\<close>.\<close>

fun error_text :: "error \<Rightarrow> string" where
  "error_text (ErrText t) = t"
| "error_text (ErrWrap p e) = p @ error_text e"
| "error_text (ErrJoin p []) = p"
| "error_text (ErrJoin p [e]) = p @ error_text e"
| "error_text (ErrJoin p (e # es)) = p @ error_text e @ [char_of (10 :: nat)] @ error_text (ErrJoin [] es)"
| "error_text ErrRedisNil = ''redis: nil''"
| "error_text ErrCanceled = ''context canceled''"
| "error_text ErrDeadlineExceeded = ''context deadline exceeded''"
| "error_text ErrEOF = ''EOF''"
| "error_text ErrUnexpectedEOF = ''unexpected EOF''"
| "error_text (ErrTimeoutMethod t _) = t"


section \<open>Strings\<close>

text \<open>The functions of package \<^verbatim>\<open>strings\<close> the source uses, on ASCII texts.\<close>

definition HasPrefix :: "string \<Rightarrow> string \<Rightarrow> bool" where
  "HasPrefix t p \<longleftrightarrow> take (length p) t = p"

fun Contains :: "string \<Rightarrow> string \<Rightarrow> bool" where
  "Contains [] p \<longleftrightarrow> p = []"
| "Contains (c # t) p \<longleftrightarrow> HasPrefix (c # t) p \<or> Contains t p"

definition is_space :: "char \<Rightarrow> bool" where
  "is_space c \<longleftrightarrow> of_char c \<in> {9, 10, 11, 12, 13, 32 :: nat}"

definition TrimSpace :: "string \<Rightarrow> string" where
  "TrimSpace t = rev (dropWhile is_space (rev (dropWhile is_space t)))"

definition TrimPrefix :: "string \<Rightarrow> string \<Rightarrow> string" where
  "TrimPrefix t p = (if HasPrefix t p then drop (length p) t else t)"

definition upper_char :: "char \<Rightarrow> char" where
  "upper_char c = (let n = of_char c :: nat in if 97 \<le> n \<and> n \<le> 122 then char_of (n - 32) else c)"

definition ToUpper :: "string \<Rightarrow> string" where
  "ToUpper t = map upper_char t"

lemma HasPrefix_append: "HasPrefix t p \<longleftrightarrow> (\<exists>u. t = p @ u)"
  unfolding HasPrefix_def by (metis append_eq_conv_conj append_take_drop_id)

lemma Contains_append: "Contains t p \<longleftrightarrow> (\<exists>u v. t = u @ p @ v)"
proof (induction t)
  case (Cons c t)
  note IH = this
  show ?case
  proof
    assume "Contains (c # t) p"
    then consider "HasPrefix (c # t) p" | "Contains t p" by auto
    then show "\<exists>u v. c # t = u @ p @ v"
    proof cases
      case 1
      then show ?thesis unfolding HasPrefix_append by (metis append_Nil)
    next
      case 2
      then show ?thesis using Cons by (metis append_Cons)
    qed
  next
    assume "\<exists>u v. c # t = u @ p @ v"
    then obtain u v where eq: "c # t = u @ p @ v" by blast
    show "Contains (c # t) p"
    proof (cases u)
      case Nil
      then have "HasPrefix (c # t) p" using eq unfolding HasPrefix_append by simp
      then show ?thesis by simp
    next
      case (Cons d u')
      then have "t = u' @ p @ v" using eq by simp
      then show ?thesis using IH by auto
    qed
  qed
qed simp


section \<open>Decimal rendering\<close>

definition digit_char :: "nat \<Rightarrow> char" where
  "digit_char d = char_of (48 + d)"

fun show_nat :: "nat \<Rightarrow> string" where
  "show_nat n = (if n < 10 then [digit_char n] else show_nat (n div 10) @ [digit_char (n mod 10)])"

declare show_nat.simps [simp del]

definition show_int :: "int \<Rightarrow> string" where
  "show_int i = (if i < 0 then CHR ''-'' # show_nat (nat (- i)) else show_nat (nat i))"

definition digit_val :: "char \<Rightarrow> nat" where
  "digit_val c = of_char c - 48"

definition is_digit :: "char \<Rightarrow> bool" where
  "is_digit c \<longleftrightarrow> 48 \<le> (of_char c :: nat) \<and> (of_char c :: nat) \<le> 57"

definition read_nat :: "string \<Rightarrow> nat" where
  "read_nat cs = foldl (\<lambda>n c. 10 * n + digit_val c) 0 cs"

definition read_int :: "string \<Rightarrow> int" where
  "read_int s = (if s \<noteq> [] \<and> hd s = CHR ''-'' then - int (read_nat (tl s)) else int (read_nat s))"

lemma digit_val_char [simp]: "d < 10 \<Longrightarrow> digit_val (digit_char d) = d"
  by (simp add: digit_val_def digit_char_def of_char_of)

lemma is_digit_char [simp]: "d < 10 \<Longrightarrow> is_digit (digit_char d)"
  by (simp add: is_digit_def digit_char_def of_char_of)

lemma show_nat_digits: "\<forall>c \<in> set (show_nat n). is_digit c"
proof (induction n rule: show_nat.induct)
  case (1 n)
  then show ?case by (cases "n < 10") (auto simp: show_nat.simps[of n])
qed

lemma show_nat_not_Nil [simp]: "show_nat n \<noteq> []"
  by (simp add: show_nat.simps[of n])

lemma read_show_nat [simp]: "read_nat (show_nat n) = n"
proof (induction n rule: show_nat.induct)
  case (1 n)
  then show ?case
    by (cases "n < 10") (simp_all add: show_nat.simps[of n] read_nat_def)
qed

lemma read_show_int [simp]: "read_int (show_int i) = i"
proof (cases "i < 0")
  case True
  then show ?thesis by (simp add: show_int_def read_int_def)
next
  case False
  have "\<forall>c \<in> set (show_nat (nat i)). c \<noteq> CHR ''-''"
    using show_nat_digits[of "nat i"] by (auto simp: is_digit_def)
  then have "hd (show_nat (nat i)) \<noteq> CHR ''-''" by simp
  then show ?thesis using False by (simp add: show_int_def read_int_def)
qed

lemma show_int_inject [simp]: "show_int i = show_int j \<longleftrightarrow> i = j"
  by (metis read_show_int)

lemma show_int_zero: "show_int 0 = ''0''"
  by code_simp

lemma show_int_no_colon: "CHR '':'' \<notin> set (show_int i)"
  using show_nat_digits[of "nat i"] show_nat_digits[of "nat (- i)"]
  by (auto simp: show_int_def is_digit_def)


section \<open>Lists and association lists\<close>

lemma map_of_set_eq:
  assumes "distinct (map fst xs)" and "distinct (map fst ys)" and "set xs = set ys"
  shows "map_of xs = map_of ys"
  using assms by (simp add: map_of_inject_set)

lemma removeAll_Cons_notin: "x \<notin> set xs \<Longrightarrow> removeAll x xs = xs"
  by simp

lemma butlast_last_snoc: "xs \<noteq> [] \<Longrightarrow> butlast xs @ [last xs] = xs"
  by simp


section \<open>Lists of goroutines\<close>

definition remove_nth :: "nat \<Rightarrow> 'a list \<Rightarrow> 'a list" where
  "remove_nth k xs = take k xs @ drop (Suc k) xs"

lemma remove_nth_simps [simp]: "remove_nth 0 (x # xs) = xs" "remove_nth (Suc k) (x # xs) = x # remove_nth k xs"
  by (simp_all add: remove_nth_def)

end
