(* ===== verification/Core.thy ===== *)
theory Core
  imports Go_Prelude
begin

text \<open>
  The package \<^verbatim>\<open>pkg/core\<close>: the message envelope with its JSON encoding and decoding
  (\<^verbatim>\<open>message.go\<close>), the handler results (\<^verbatim>\<open>types.go\<close>) and the retry delay table
  (\<^verbatim>\<open>retry_policy.go\<close>).

  JSON texts are modelled by their syntax tree: a byte string is either the text of a JSON
  document or some other text.  \<^verbatim>\<open>encoding/json\<close> is modelled for the one struct the package
  marshals: field tags, \<^verbatim>\<open>omitempty\<close>, case-insensitive member names, \<^verbatim>\<open>null\<close> leaving a field
  alone, and the type and range errors of a field.  Payload bytes are a syntax tree too, so compaction and HTML escaping
  of a \<^verbatim>\<open>RawMessage\<close> are the identity and strings are valid UTF-8, and member names are folded by ASCII letters only.  Wall-clock readings
  (\<^verbatim>\<open>time.Now().Unix()\<close>) are the argument \<open>now\<close>.
\<close>

section \<open>JSON documents and byte strings\<close>

datatype json =
    JNull
  | JBool bool
  | JInt int          \<comment> \<open>a number without fraction and exponent\<close>
  | JNum string       \<comment> \<open>any other number, by its text\<close>
  | JStr string
  | JArr "json list"
  | JObj "(string \<times> json) list"

datatype bytes =
    Json json         \<comment> \<open>the text of a JSON document\<close>
  | Text string       \<comment> \<open>any other byte string\<close>

text \<open>The compact text of a document, for the one place where a stored value is read as a string.\<close>

definition json_quote :: "string \<Rightarrow> string" where
  "json_quote s = [CHR 0x22] @ concat (map (\<lambda>c. if c = CHR 0x22 \<or> c = CHR 0x5C then [CHR 0x5C, c] else [c]) s)
     @ [CHR 0x22]"

fun join_comma :: "string list \<Rightarrow> string" where
  "join_comma [] = ''''" | "join_comma [x] = x" | "join_comma (x # y # ys) = x @ '','' @ join_comma (y # ys)"

fun json_text :: "json \<Rightarrow> string" where
  "json_text JNull = ''null''"
| "json_text (JBool b) = (if b then ''true'' else ''false'')"
| "json_text (JInt n) = show_int n"
| "json_text (JNum x) = x"
| "json_text (JStr s) = json_quote s"
| "json_text (JArr js) = ''['' @ join_comma (map json_text js) @ '']''"
| "json_text (JObj fs) = ''{'' @ join_comma (map (\<lambda>(k, j). json_quote k @ '':'' @ json_text j) fs) @ ''}''"

fun bytes_string :: "bytes \<Rightarrow> string" where
  "bytes_string (Text s) = s" | "bytes_string (Json j) = json_text j"

definition lower_char :: "char \<Rightarrow> char" where
  "lower_char c = (let n = of_char c :: nat in if 65 \<le> n \<and> n \<le> 90 then char_of (n + 32) else c)"

definition lower :: "string \<Rightarrow> string" where
  "lower = map lower_char"


section \<open>Messages\<close>

type_synonym MessageStatus = string

definition StatusWaiting :: MessageStatus where "StatusWaiting = ''waiting''"
definition StatusReserved :: MessageStatus where "StatusReserved = ''reserved''"
definition StatusDelayed :: MessageStatus where "StatusDelayed = ''delayed''"
definition StatusTimeout :: MessageStatus where "StatusTimeout = ''timeout''"
definition StatusFailed :: MessageStatus where "StatusFailed = ''failed''"
definition StatusCanceled :: MessageStatus where "StatusCanceled = ''canceled''"
definition StatusDropped :: MessageStatus where "StatusDropped = ''dropped''"
definition StatusDone :: MessageStatus where "StatusDone = ''done''"

lemmas status_defs = StatusWaiting_def StatusReserved_def StatusDelayed_def StatusTimeout_def
  StatusFailed_def StatusCanceled_def StatusDropped_def StatusDone_def

text \<open>\<^verbatim>\<open>Payload\<close> is a \<^verbatim>\<open>json.RawMessage\<close>; \<open>None\<close> is the nil slice.\<close>

record Message =
  ID :: string
  Payload :: "bytes option"
  Attempts :: int
  MaxAttempts :: int
  Status :: MessageStatus
  CreatedAt :: int
  UpdatedAt :: int

definition NewMessage :: "int \<Rightarrow> bytes option \<Rightarrow> int \<Rightarrow> Message" where
  "NewMessage now payload maxAttempts =
     (let maxAttempts = (if maxAttempts \<le> 0 then 1 else maxAttempts) in
      \<lparr>ID = '''', Payload = payload, Attempts = 0, MaxAttempts = maxAttempts,
       Status = StatusWaiting, CreatedAt = now, UpdatedAt = now\<rparr>)"

text \<open>\<^verbatim>\<open>json.Marshal\<close> on a \<^verbatim>\<open>Message\<close>: members in field order, the three \<^verbatim>\<open>omitempty\<close> fields only
  when not zero; a raw payload that is not JSON is an error, a nil payload is \<^verbatim>\<open>null\<close>.\<close>

definition message_members :: "Message \<Rightarrow> json \<Rightarrow> (string \<times> json) list" where
  "message_members m payload =
     [(''id'', JStr (ID m)), (''payload'', payload),
      (''attempts'', JInt (Attempts m)), (''max_attempts'', JInt (MaxAttempts m))]
     @ (if Status m = '''' then [] else [(''status'', JStr (Status m))])
     @ (if CreatedAt m = 0 then [] else [(''created_at'', JInt (CreatedAt m))])
     @ (if UpdatedAt m = 0 then [] else [(''updated_at'', JInt (UpdatedAt m))])"

definition json_Marshal :: "Message \<Rightarrow> error + bytes" where
  "json_Marshal m = (case Payload m of
      None \<Rightarrow> Inr (Json (JObj (message_members m JNull)))
    | Some (Json j) \<Rightarrow> Inr (Json (JObj (message_members m j)))
    | Some (Text _) \<Rightarrow> Inl (ErrText ''json: error calling MarshalJSON for type json.RawMessage''))"

definition zero_message :: Message where
  "zero_message = \<lparr>ID = '''', Payload = None, Attempts = 0, MaxAttempts = 0,
                   Status = '''', CreatedAt = 0, UpdatedAt = 0\<rparr>"

abbreviation unmarshal_type_error :: error where
  "unmarshal_type_error \<equiv> ErrText ''json: cannot unmarshal value into Go struct field''"

text \<open>Storing one JSON value into a string or an integer field: \<open>Inr None\<close> leaves it alone.\<close>

fun decode_string :: "json \<Rightarrow> error + string option" where
  "decode_string JNull = Inr None"
| "decode_string (JStr s) = Inr (Some s)"
| "decode_string _ = Inl unmarshal_type_error"

fun decode_int :: "json \<Rightarrow> error + int option" where
  "decode_int JNull = Inr None"
| "decode_int (JInt n) = (if in_int64 n then Inr (Some n) else Inl unmarshal_type_error)"
| "decode_int _ = Inl unmarshal_type_error"

definition with_field :: "('a \<Rightarrow> Message) \<Rightarrow> Message \<Rightarrow> error + 'a option \<Rightarrow> error + Message" where
  "with_field upd m r = (case r of
      Inl e \<Rightarrow> Inl e | Inr None \<Rightarrow> Inr m | Inr (Some v) \<Rightarrow> Inr (upd v))"

definition json_member :: "string \<Rightarrow> json \<Rightarrow> Message \<Rightarrow> error + Message" where
  "json_member key j m =
     (let k = lower key in
      if k = ''id'' then with_field (\<lambda>s. m\<lparr>ID := s\<rparr>) m (decode_string j)
      else if k = ''payload'' then Inr (m\<lparr>Payload := Some (Json j)\<rparr>)
      else if k = ''attempts'' then with_field (\<lambda>n. m\<lparr>Attempts := n\<rparr>) m (decode_int j)
      else if k = ''max_attempts'' then with_field (\<lambda>n. m\<lparr>MaxAttempts := n\<rparr>) m (decode_int j)
      else if k = ''status'' then with_field (\<lambda>s. m\<lparr>Status := s\<rparr>) m (decode_string j)
      else if k = ''created_at'' then with_field (\<lambda>n. m\<lparr>CreatedAt := n\<rparr>) m (decode_int j)
      else if k = ''updated_at'' then with_field (\<lambda>n. m\<lparr>UpdatedAt := n\<rparr>) m (decode_int j)
      else Inr m)"

fun json_members :: "(string \<times> json) list \<Rightarrow> Message \<Rightarrow> error + Message" where
  "json_members [] m = Inr m"
| "json_members ((k, j) # fs) m =
     (case json_member k j m of Inl e \<Rightarrow> Inl e | Inr m' \<Rightarrow> json_members fs m')"

fun json_Unmarshal :: "bytes \<Rightarrow> error + Message" where
  "json_Unmarshal (Json (JObj fs)) = json_members fs zero_message"
| "json_Unmarshal (Json JNull) = Inr zero_message"
| "json_Unmarshal (Json _) = Inl unmarshal_type_error"
| "json_Unmarshal (Text _) = Inl (ErrText ''invalid character in JSON input'')"

definition Encode :: "Message \<Rightarrow> error + bytes" where
  "Encode m = (case json_Marshal m of Inl err \<Rightarrow> Inl err | Inr b \<Rightarrow> Inr b)"

text \<open>The defaults \<^verbatim>\<open>DecodeMessage\<close> fills in after unmarshalling.\<close>

definition fill_defaults :: "int \<Rightarrow> Message \<Rightarrow> Message" where
  "fill_defaults now m =
     (let m1 = (if MaxAttempts m \<le> 0 then m\<lparr>MaxAttempts := 1\<rparr> else m);
          m2 = (if Status m1 = '''' then m1\<lparr>Status := StatusWaiting\<rparr> else m1)
      in if CreatedAt m2 \<le> 0 then m2\<lparr>CreatedAt := now\<rparr> else m2)"

definition DecodeMessage :: "int \<Rightarrow> bytes \<Rightarrow> error + Message" where
  "DecodeMessage now data = (case json_Unmarshal data of
      Inl err \<Rightarrow> Inl err
    | Inr m \<Rightarrow> Inr (fill_defaults now m))"

text \<open>\<^verbatim>\<open>AttemptsAllowed\<close> counts the attempt whether or not it is allowed.\<close>

definition AttemptsAllowed :: "Message \<Rightarrow> bool \<times> Message" where
  "AttemptsAllowed m =
     (if MaxAttempts m > Attempts m then (True, m\<lparr>Attempts := int64 (Attempts m + 1)\<rparr>)
      else (False, m\<lparr>Attempts := int64 (Attempts m + 1)\<rparr>))"

definition SetStatus :: "int \<Rightarrow> MessageStatus \<Rightarrow> Message \<Rightarrow> Message" where
  "SetStatus now status m =
     (let m1 = (if CreatedAt m \<le> 0 then m\<lparr>CreatedAt := now\<rparr> else m)
      in m1\<lparr>Status := status, UpdatedAt := now\<rparr>)"


section \<open>Handler results and retry delays\<close>

type_synonym Result = string

definition ACK :: Result where "ACK = ''ack''"
definition RETRY :: Result where "RETRY = ''retry''"
definition REQUEUE :: Result where "REQUEUE = ''requeue''"
definition DROP :: Result where "DROP = ''drop''"

lemmas result_defs = ACK_def RETRY_def REQUEUE_def DROP_def

definition Result_String :: "Result \<Rightarrow> string" where
  "Result_String r =
     (if r = ACK then ''ACK'' else if r = RETRY then ''RETRY''
      else if r = REQUEUE then ''REQUEUE'' else if r = DROP then ''DROP''
      else ''UNKNOWN('' @ r @ '')'')"

definition RetrySeconds :: "int list \<Rightarrow> int \<Rightarrow> int" where
  "RetrySeconds retrySeconds attempts =
     (if length retrySeconds = 0 then 10
      else let attempts = (if attempts \<le> 0 then 1 else attempts);
               idx = attempts - 1
           in if idx \<ge> int (length retrySeconds)
              then retrySeconds ! (length retrySeconds - 1)
              else retrySeconds ! nat idx)"


section \<open>Encoding and decoding\<close>

text \<open>The value ranges of Go's fields, which every \<^verbatim>\<open>*Message\<close> satisfies.\<close>

definition go_message :: "Message \<Rightarrow> bool" where
  "go_message m \<longleftrightarrow> in_int64 (Attempts m) \<and> in_int64 (MaxAttempts m) \<and>
     in_int64 (CreatedAt m) \<and> in_int64 (UpdatedAt m)"

abbreviation message_tags :: "string set" where
  "message_tags \<equiv> {''id'', ''payload'', ''attempts'', ''max_attempts'', ''status'',
                    ''created_at'', ''updated_at''}"

lemma lower_tags [simp]:
  "lower ''id'' = ''id''" "lower ''payload'' = ''payload''" "lower ''attempts'' = ''attempts''"
  "lower ''max_attempts'' = ''max_attempts''" "lower ''status'' = ''status''"
  "lower ''created_at'' = ''created_at''" "lower ''updated_at'' = ''updated_at''"
  by (simp_all add: lower_def lower_char_def)

text \<open>A member list that spells a message: the seven tags at most, each once, the four
  mandatory ones present, every value the field's.  Both \<^verbatim>\<open>json.Marshal\<close> and the Lua scripts
  produce such lists, in different orders.\<close>

definition string_member :: "(string \<rightharpoonup> json) \<Rightarrow> string \<Rightarrow> string \<Rightarrow> bool" where
  "string_member f tag v \<longleftrightarrow> f tag = Some (JStr v) \<or> (f tag = None \<and> v = '''')"

definition int_member :: "(string \<rightharpoonup> json) \<Rightarrow> string \<Rightarrow> int \<Rightarrow> bool" where
  "int_member f tag v \<longleftrightarrow> f tag = Some (JInt v) \<or> (f tag = None \<and> v = 0)"

definition spells :: "(string \<times> json) list \<Rightarrow> Message \<Rightarrow> bool" where
  "spells fs m \<longleftrightarrow> distinct (map fst fs) \<and> fst ` set fs \<subseteq> message_tags \<and> go_message m \<and>
     (\<exists>j. map_of fs ''payload'' = Some j \<and> Payload m = Some (Json j)) \<and>
     string_member (map_of fs) ''id'' (ID m) \<and> string_member (map_of fs) ''status'' (Status m) \<and>
     int_member (map_of fs) ''attempts'' (Attempts m) \<and>
     int_member (map_of fs) ''max_attempts'' (MaxAttempts m) \<and>
     int_member (map_of fs) ''created_at'' (CreatedAt m) \<and>
     int_member (map_of fs) ''updated_at'' (UpdatedAt m)"


text \<open>The same, for the part \<open>fs\<close> of the members still to be read into the message \<open>m0\<close>.\<close>

definition reads_to :: "(string \<rightharpoonup> json) \<Rightarrow> Message \<Rightarrow> Message \<Rightarrow> bool" where
  "reads_to f m0 m \<longleftrightarrow>
     (case f ''payload'' of None \<Rightarrow> Payload m0 = Payload m | Some j \<Rightarrow> Payload m = Some (Json j)) \<and>
     (case f ''id'' of None \<Rightarrow> ID m0 = ID m | Some j \<Rightarrow> j = JStr (ID m)) \<and>
     (case f ''status'' of None \<Rightarrow> Status m0 = Status m | Some j \<Rightarrow> j = JStr (Status m)) \<and>
     (case f ''attempts'' of None \<Rightarrow> Attempts m0 = Attempts m | Some j \<Rightarrow> j = JInt (Attempts m)) \<and>
     (case f ''max_attempts'' of None \<Rightarrow> MaxAttempts m0 = MaxAttempts m
        | Some j \<Rightarrow> j = JInt (MaxAttempts m)) \<and>
     (case f ''created_at'' of None \<Rightarrow> CreatedAt m0 = CreatedAt m | Some j \<Rightarrow> j = JInt (CreatedAt m)) \<and>
     (case f ''updated_at'' of None \<Rightarrow> UpdatedAt m0 = UpdatedAt m | Some j \<Rightarrow> j = JInt (UpdatedAt m))"

lemma reads_to_member:
  assumes "go_message m" and "k \<in> message_tags" and "f k = None" and "reads_to (f(k \<mapsto> j)) m0 m"
  shows "\<exists>m1. json_member k j m0 = Inr m1 \<and> reads_to f m1 m"
  using assms unfolding json_member_def reads_to_def go_message_def with_field_def
  by (elim insertE) (simp_all cong: option.case_cong)

lemma json_members_reads:
  assumes "go_message m" and "distinct (map fst fs)" and "fst ` set fs \<subseteq> message_tags"
    and "reads_to (map_of fs) m0 m"
  shows "json_members fs m0 = Inr m"
  using assms(2-)
proof (induction fs arbitrary: m0)
  case Nil
  then show ?case by (simp add: reads_to_def)
next
  case (Cons kj fs)
  obtain k j where kj: "kj = (k, j)" by force
  have "map_of fs k = None" using Cons.prems(1) kj by (simp add: map_of_eq_None_iff)
  moreover have "k \<in> message_tags" using Cons.prems(2) kj by simp
  moreover have "reads_to ((map_of fs)(k \<mapsto> j)) m0 m" using Cons.prems(3) kj by (simp add: fun_upd_def)
  ultimately obtain m1 where "json_member k j m0 = Inr m1" and "reads_to (map_of fs) m1 m"
    using reads_to_member[OF assms(1)] by blast
  with Cons.IH[of m1] Cons.prems(1,2) kj show ?case by simp
qed

lemma unmarshal_spells: "spells fs m \<Longrightarrow> json_members fs zero_message = Inr m"
  by (auto simp: spells_def reads_to_def string_member_def int_member_def zero_message_def
      intro!: json_members_reads split: option.splits)

lemma members_spells:
  "go_message m \<Longrightarrow> Payload m = Some (Json j) \<Longrightarrow> spells (message_members m j) m"
  by (simp add: spells_def message_members_def string_member_def int_member_def)

lemma marshal_members_null:
  "message_members m j = message_members (m\<lparr>Payload := p\<rparr>) j"
  by (simp add: message_members_def)

text \<open>What \<^verbatim>\<open>DecodeMessage\<close> makes of an encoded message: a nil payload comes back as JSON null.\<close>

definition payload_json :: "Message \<Rightarrow> json" where
  "payload_json m = (case Payload m of Some (Json j) \<Rightarrow> j | _ \<Rightarrow> JNull)"

lemma Encode_cases:
  assumes "Encode m = Inr b"
  shows "b = Json (JObj (message_members m (payload_json m)))"
  using assms by (auto simp: Encode_def json_Marshal_def payload_json_def
      split: option.splits bytes.splits sum.splits)

lemma Encode_spells:
  assumes "go_message m" and "Encode m = Inr b"
  shows "\<exists>fs. b = Json (JObj fs) \<and> spells fs (m\<lparr>Payload := Some (Json (payload_json m))\<rparr>)"
proof -
  let ?m = "m\<lparr>Payload := Some (Json (payload_json m))\<rparr>"
  have "go_message ?m" using assms(1) by (simp add: go_message_def)
  then have "spells (message_members ?m (payload_json m)) ?m"
    by (rule members_spells) simp
  then show ?thesis using Encode_cases[OF assms(2)] marshal_members_null by metis
qed

lemma Encode_total:
  "(\<exists>b. Encode m = Inr b) \<longleftrightarrow> (\<forall>t. Payload m \<noteq> Some (Text t))"
  by (auto simp: Encode_def json_Marshal_def split: option.splits bytes.splits)

text \<open>C25. Encoding a message and decoding it again gives the same message, with a nil payload
  read back as JSON \<^verbatim>\<open>null\<close> and the defaults of \<^verbatim>\<open>DecodeMessage\<close> filled in (at least one
  attempt, a status, a creation time).\<close>

theorem message_roundtrip:
  assumes "go_message m" and "Encode m = Inr b"
  shows "DecodeMessage now b =
    Inr (fill_defaults now (m\<lparr>Payload := Some (Json (payload_json m))\<rparr>))"
proof -
  obtain fs where "b = Json (JObj fs)" "spells fs (m\<lparr>Payload := Some (Json (payload_json m))\<rparr>)"
    using Encode_spells[OF assms] by blast
  then show ?thesis using unmarshal_spells by (simp add: DecodeMessage_def)
qed

theorem message_roundtrip_witness:
  "DecodeMessage 9 (Json (JObj [(''id'', JStr ''a''), (''payload'', JNull), (''attempts'', JInt 0),
       (''max_attempts'', JInt 0)]))
   = Inr (fill_defaults 9 (zero_message\<lparr>ID := ''a'', Payload := Some (Json JNull)\<rparr>))"
proof -
  have g: "go_message (zero_message\<lparr>ID := ''a''\<rparr>)"
    by (simp add: go_message_def zero_message_def in_int64_def)
  have e: "Encode (zero_message\<lparr>ID := ''a''\<rparr>) = Inr (Json (JObj [(''id'', JStr ''a''), (''payload'', JNull),
       (''attempts'', JInt 0), (''max_attempts'', JInt 0)]))"
    by (simp add: Encode_def json_Marshal_def message_members_def zero_message_def)
  show ?thesis using message_roundtrip[OF g e, of 9]
    by (simp add: payload_json_def zero_message_def)
qed

section \<open>Retry delays and attempts\<close>

text \<open>The retry delay of attempt \<open>n\<close> is the \<open>n\<close>-th entry of a non-empty table, attempts
  below one count as the first and attempts past the end use the last entry; without a table
  it is ten seconds.\<close>

theorem RetrySeconds_clamped:
  "RetrySeconds rs n =
     (if rs = [] then 10 else rs ! min (nat (n - 1)) (length rs - 1))"
proof (cases rs)
  case Nil
  then show ?thesis by (simp add: RetrySeconds_def)
next
  case (Cons r rs')
  then show ?thesis by (auto simp: RetrySeconds_def Let_def min_def nat_le_iff)
qed

lemma AttemptsAllowed_fst: "fst (AttemptsAllowed m) \<longleftrightarrow> Attempts m < MaxAttempts m"
  by (simp add: AttemptsAllowed_def)

lemma AttemptsAllowed_snd: "snd (AttemptsAllowed m) = m\<lparr>Attempts := int64 (Attempts m + 1)\<rparr>"
  by (simp add: AttemptsAllowed_def)

lemma SetStatus_simps [simp]:
  "Status (SetStatus now st m) = st" "UpdatedAt (SetStatus now st m) = now"
  "ID (SetStatus now st m) = ID m" "Payload (SetStatus now st m) = Payload m"
  "Attempts (SetStatus now st m) = Attempts m" "MaxAttempts (SetStatus now st m) = MaxAttempts m"
  "CreatedAt (SetStatus now st m) = (if CreatedAt m \<le> 0 then now else CreatedAt m)"
  by (simp_all add: SetStatus_def Let_def)

end
