(* ===== verification/Redis_Server.thy ===== *)
theory Redis_Server
  imports Core
begin

text \<open>
  The Redis server the driver talks to.  It is not part of the repository, so it is a
  parameter of the model: a record of the commands the scripts and the Go client call, over an
  arbitrary server state, and a locale \<open>redis_server\<close> with what Redis documents about them.
  The embedded Lua interpreter's \<^verbatim>\<open>cjson\<close> library is part of that parameter (locale
  \<open>cjson_library\<close>).  At the end an in-memory server is defined and both locales are
  interpreted on it, so that closed instances of the theorems can be evaluated.
\<close>

section \<open>Lua values\<close>

datatype lua_key = KNum int | KStr string

datatype lua_val =
    LNil
  | LBool bool
  | LNum int
  | LReal string
  | LStr string
  | LNull                      \<comment> \<open>\<^verbatim>\<open>cjson.null\<close>\<close>
  | LTable "(lua_key \<times> lua_val) list"

text \<open>Reading and assigning a field of a table, \<^verbatim>\<open>t[k]\<close> and \<^verbatim>\<open>t[k] = v\<close>.\<close>

definition lua_get :: "(lua_key \<times> lua_val) list \<Rightarrow> lua_key \<Rightarrow> lua_val" where
  "lua_get t k = (case map_of t k of None \<Rightarrow> LNil | Some v \<Rightarrow> v)"

definition lua_set :: "lua_key \<Rightarrow> lua_val \<Rightarrow> (lua_key \<times> lua_val) list \<Rightarrow> (lua_key \<times> lua_val) list" where
  "lua_set k v t = (k, v) # filter (\<lambda>(k', _). k' \<noteq> k) t"


section \<open>Redis values\<close>

text \<open>A sorted set is the list of its members with their scores, ordered by score and then by
  member, each member once.\<close>

type_synonym zset = "(int \<times> string) list"

definition zset_wf :: "zset \<Rightarrow> bool" where
  "zset_wf z \<longleftrightarrow> sorted z \<and> distinct (map snd z)"

definition zset_rem :: "string \<Rightarrow> zset \<Rightarrow> zset" where
  "zset_rem m z = filter (\<lambda>(_, x). x \<noteq> m) z"

definition zset_add :: "int \<Rightarrow> string \<Rightarrow> zset \<Rightarrow> zset" where
  "zset_add sc m z = insort (sc, m) (zset_rem m z)"

definition zset_members :: "zset \<Rightarrow> string set" where
  "zset_members z = snd ` set z"

definition zset_score :: "zset \<Rightarrow> string \<Rightarrow> int option" where
  "zset_score z m = map_of (map (\<lambda>(sc, x). (x, sc)) z) m"

definition zset_due :: "int \<Rightarrow> nat \<Rightarrow> zset \<Rightarrow> string list" where
  "zset_due mx limit z = take limit (map snd (filter (\<lambda>(sc, _). sc \<le> mx) z))"

datatype robj = RStr bytes | RList "string list" | RZset zset

fun as_str :: "robj option \<Rightarrow> bytes option" where
  "as_str (Some (RStr b)) = Some b" | "as_str _ = None"

fun as_list :: "robj option \<Rightarrow> string list" where
  "as_list (Some (RList xs)) = xs" | "as_list _ = []"

fun as_zset :: "robj option \<Rightarrow> zset" where
  "as_zset (Some (RZset z)) = z" | "as_zset _ = []"

fun holds_str :: "robj option \<Rightarrow> bool" where
  "holds_str None = True" | "holds_str (Some (RStr b)) = True" | "holds_str _ = False"

fun holds_list :: "robj option \<Rightarrow> bool" where
  "holds_list None = True" | "holds_list (Some (RList xs)) = True" | "holds_list _ = False"

fun holds_zset :: "robj option \<Rightarrow> bool" where
  "holds_zset None = True" | "holds_zset (Some (RZset z)) = zset_wf z" | "holds_zset _ = False"

text \<open>A counter key: absent (zero) or the decimal text of an integer.\<close>

fun counter_value :: "robj option \<Rightarrow> int" where
  "counter_value (Some (RStr (Text t))) = read_int t" | "counter_value _ = 0"

definition counter_obj :: "int \<Rightarrow> robj option" where
  "counter_obj n = Some (RStr (Text (show_int n)))"

definition holds_counter :: "robj option \<Rightarrow> bool" where
  "holds_counter o' \<longleftrightarrow> o' = None \<or> o' = counter_obj (counter_value o')"

text \<open>Redis removes a list or sorted set that becomes empty.\<close>

definition list_obj :: "string list \<Rightarrow> robj option" where
  "list_obj xs = (if xs = [] then None else Some (RList xs))"

definition zset_obj :: "zset \<Rightarrow> robj option" where
  "zset_obj z = (if z = [] then None else Some (RZset z))"

lemma list_obj_simps [simp]: "as_list (list_obj xs) = xs" "holds_list (list_obj xs)"
  by (simp_all add: list_obj_def)

lemma zset_obj_simps [simp]: "as_zset (zset_obj z) = z" "holds_zset (zset_obj z) \<longleftrightarrow> z = [] \<or> zset_wf z"
  by (simp_all add: zset_obj_def)

lemma counter_obj_simps [simp]:
  "counter_value (counter_obj n) = n" "holds_counter (counter_obj n)" "holds_counter None"
  by (simp_all add: counter_obj_def holds_counter_def)


section \<open>Sorted sets\<close>

lemma zset_rem_wf [simp]: "zset_wf z \<Longrightarrow> zset_wf (zset_rem m z)"
  by (simp add: zset_wf_def zset_rem_def sorted_filter[where f = id, simplified] distinct_map_filter)

lemma zset_rem_members [simp]: "zset_members (zset_rem m z) = zset_members z - {m}"
  by (auto simp: zset_members_def zset_rem_def)

lemma zset_add_members [simp]: "zset_members (zset_add sc m z) = insert m (zset_members z)"
  by (auto simp: zset_members_def zset_add_def zset_rem_def set_insort_key)

lemma distinct_insort_snd:
  "distinct (map snd (insort x xs)) \<longleftrightarrow> snd x \<notin> snd ` set xs \<and> distinct (map snd xs)"
  by (induction xs) (auto simp: set_insort_key)

lemma zset_add_wf [simp]:
  assumes "zset_wf z"
  shows "zset_wf (zset_add sc m z)"
proof -
  have "m \<notin> snd ` set (zset_rem m z)" by (auto simp: zset_rem_def)
  then show ?thesis using zset_rem_wf[OF assms, of m]
    by (simp add: zset_wf_def zset_add_def distinct_insort_snd sorted_insort)
qed

lemma zset_rem_absent [simp]: "m \<notin> zset_members z \<Longrightarrow> zset_rem m z = z"
  by (auto simp: zset_members_def zset_rem_def filter_id_conv image_iff)

lemma zset_score_None [simp]: "zset_score z m = None \<longleftrightarrow> m \<notin> zset_members z"
  by (auto simp: zset_score_def zset_members_def map_of_eq_None_iff image_image case_prod_beta)

lemma as_zset_holds: "holds_zset v \<Longrightarrow> zset_wf (as_zset v)"
  by (cases v rule: as_zset.cases) (auto simp: zset_wf_def)


section \<open>The commands\<close>

text \<open>One field per command used.  \<^verbatim>\<open>redis.call\<close> replies appear as the scripts read them: a nil
  bulk reply tested with \<^verbatim>\<open>not\<close> is \<open>None\<close>; the reply of \<^verbatim>\<open>LPOS\<close>, which a script compares with
  \<^verbatim>\<open>nil\<close>, is a Lua value.\<close>

record 's redis =
  GET :: "string \<Rightarrow> 's \<Rightarrow> bytes option"
  SET :: "string \<Rightarrow> bytes \<Rightarrow> 's \<Rightarrow> 's"
  DEL :: "string \<Rightarrow> 's \<Rightarrow> 's"
  EXISTS :: "string \<Rightarrow> 's \<Rightarrow> int"
  EXPIRE :: "string \<Rightarrow> int \<Rightarrow> 's \<Rightarrow> 's"
  PEXPIRE :: "string \<Rightarrow> int \<Rightarrow> 's \<Rightarrow> 's"
  TTL :: "string \<Rightarrow> 's \<Rightarrow> int"
  PTTL :: "string \<Rightarrow> 's \<Rightarrow> int"
  INCR :: "string \<Rightarrow> 's \<Rightarrow> int \<times> 's"
  LPUSH :: "string \<Rightarrow> string \<Rightarrow> 's \<Rightarrow> 's"
  RPOP :: "string \<Rightarrow> 's \<Rightarrow> string option \<times> 's"
  RPOPLPUSH :: "string \<Rightarrow> string \<Rightarrow> 's \<Rightarrow> string option \<times> 's"
  LREM :: "string \<Rightarrow> string \<Rightarrow> 's \<Rightarrow> int \<times> 's"
  LPOS :: "string \<Rightarrow> string \<Rightarrow> 's \<Rightarrow> lua_val"
  LLEN :: "string \<Rightarrow> 's \<Rightarrow> int"
  ZADD :: "string \<Rightarrow> int \<Rightarrow> string \<Rightarrow> 's \<Rightarrow> 's"
  ZREM :: "string \<Rightarrow> string \<Rightarrow> 's \<Rightarrow> int \<times> 's"
  ZSCORE :: "string \<Rightarrow> string \<Rightarrow> 's \<Rightarrow> int option"
  ZCARD :: "string \<Rightarrow> 's \<Rightarrow> int"
  ZRANGEBYSCORE :: "string \<Rightarrow> int \<Rightarrow> nat \<Rightarrow> 's \<Rightarrow> string list"
  cjson_decode :: "bytes \<Rightarrow> lua_val option"
  cjson_encode :: "lua_val \<Rightarrow> bytes option"

text \<open>The documented behaviour, in terms of an observation \<open>look s k\<close> of the value stored at a
  key and of \<^verbatim>\<open>PTTL\<close>.  Each law holds for a key that is absent or holds the command's type.  Time
  does not advance within a script.\<close>

locale redis_server =
  fixes R :: "'s redis"
    and look :: "'s \<Rightarrow> string \<Rightarrow> robj option"
  assumes GET_law: "holds_str (look s k) \<Longrightarrow> GET R k s = as_str (look s k)"
    and SET_law: "look (SET R k v s) = (look s)(k := Some (RStr v))"
    and DEL_law: "look (DEL R k s) = (look s)(k := None)"
    and EXISTS_law: "EXISTS R k s = (if look s k = None then 0 else 1)"
    and EXPIRE_law: "0 < n \<Longrightarrow> look (EXPIRE R k n s) = look s"
    and PEXPIRE_law: "0 < n \<Longrightarrow> look (PEXPIRE R k n s) = look s"
    and INCR_law: "holds_counter (look s k) \<Longrightarrow> in_int64 (counter_value (look s k) + 1) \<Longrightarrow>
          fst (INCR R k s) = counter_value (look s k) + 1 \<and>
          look (snd (INCR R k s)) = (look s)(k := counter_obj (counter_value (look s k) + 1))"
    and LPUSH_law: "holds_list (look s k) \<Longrightarrow>
          look (LPUSH R k x s) = (look s)(k := Some (RList (x # as_list (look s k))))"
    and RPOP_law: "holds_list (look s k) \<Longrightarrow>
          fst (RPOP R k s) = (if as_list (look s k) = [] then None else Some (last (as_list (look s k)))) \<and>
          look (snd (RPOP R k s)) = (look s)(k := list_obj (butlast (as_list (look s k))))"
    and RPOPLPUSH_law: "holds_list (look s k) \<Longrightarrow> holds_list (look s d) \<Longrightarrow> k \<noteq> d \<Longrightarrow>
          fst (RPOPLPUSH R k d s) =
            (if as_list (look s k) = [] then None else Some (last (as_list (look s k)))) \<and>
          look (snd (RPOPLPUSH R k d s)) =
            (if as_list (look s k) = [] then look s
             else (look s)(k := list_obj (butlast (as_list (look s k))),
                           d := Some (RList (last (as_list (look s k)) # as_list (look s d)))))"
    and LREM_law: "holds_list (look s k) \<Longrightarrow>
          fst (LREM R k x s) = int (count_list (as_list (look s k)) x) \<and>
          look (snd (LREM R k x s)) = (look s)(k := list_obj (removeAll x (as_list (look s k))))"
    and LPOS_found: "holds_list (look s k) \<Longrightarrow> x \<in> set (as_list (look s k)) \<Longrightarrow> \<exists>i. LPOS R k x s = LNum i"
    and LPOS_nil: "holds_list (look s k) \<Longrightarrow> x \<notin> set (as_list (look s k)) \<Longrightarrow> LPOS R k x s = LBool False"
    and LLEN_law: "holds_list (look s k) \<Longrightarrow> LLEN R k s = int (length (as_list (look s k)))"
    and ZADD_law: "holds_zset (look s k) \<Longrightarrow>
          look (ZADD R k sc x s) = (look s)(k := Some (RZset (zset_add sc x (as_zset (look s k)))))"
    and ZREM_law: "holds_zset (look s k) \<Longrightarrow>
          fst (ZREM R k x s) = (if x \<in> zset_members (as_zset (look s k)) then 1 else 0) \<and>
          look (snd (ZREM R k x s)) = (look s)(k := zset_obj (zset_rem x (as_zset (look s k))))"
    and ZSCORE_law: "holds_zset (look s k) \<Longrightarrow> ZSCORE R k x s = zset_score (as_zset (look s k)) x"
    and ZCARD_law: "holds_zset (look s k) \<Longrightarrow> ZCARD R k s = int (length (as_zset (look s k)))"
    and ZRANGEBYSCORE_law: "holds_zset (look s k) \<Longrightarrow>
          ZRANGEBYSCORE R k mx limit s = zset_due mx limit (as_zset (look s k))"
    and TTL_negative: "PTTL R k s < 0 \<Longrightarrow> TTL R k s = PTTL R k s"
    and TTL_seconds: "0 \<le> PTTL R k s \<Longrightarrow> 0 \<le> TTL R k s \<and> \<bar>1000 * TTL R k s - PTTL R k s\<bar> < 1000"
    and TTL_cong: "PTTL R k s' = PTTL R k s \<Longrightarrow> TTL R k s' = TTL R k s"
    and PTTL_SET: "PTTL R k' (SET R k v s) = (if k' = k then -1 else PTTL R k' s)"
    and PTTL_DEL: "PTTL R k' (DEL R k s) = (if k' = k then -2 else PTTL R k' s)"
    and PTTL_EXPIRE: "look s k \<noteq> None \<Longrightarrow> 0 < n \<Longrightarrow>
          PTTL R k' (EXPIRE R k n s) = (if k' = k then 1000 * n else PTTL R k' s)"
    and PTTL_PEXPIRE: "look s k \<noteq> None \<Longrightarrow> 0 < n \<Longrightarrow>
          PTTL R k' (PEXPIRE R k n s) = (if k' = k then n else PTTL R k' s)"
    and PTTL_LPUSH: "k' \<noteq> k \<Longrightarrow> PTTL R k' (LPUSH R k x s) = PTTL R k' s"
    and PTTL_RPOP: "k' \<noteq> k \<Longrightarrow> PTTL R k' (snd (RPOP R k s)) = PTTL R k' s"
    and PTTL_RPOPLPUSH: "k' \<noteq> k \<Longrightarrow> k' \<noteq> d \<Longrightarrow> PTTL R k' (snd (RPOPLPUSH R k d s)) = PTTL R k' s"
    and PTTL_LREM: "k' \<noteq> k \<Longrightarrow> PTTL R k' (snd (LREM R k x s)) = PTTL R k' s"
    and PTTL_ZADD: "k' \<noteq> k \<Longrightarrow> PTTL R k' (ZADD R k sc x s) = PTTL R k' s"
    and PTTL_ZREM: "k' \<noteq> k \<Longrightarrow> PTTL R k' (snd (ZREM R k x s)) = PTTL R k' s"
    and PTTL_INCR: "k' \<noteq> k \<Longrightarrow> PTTL R k' (snd (INCR R k s)) = PTTL R k' s"

text \<open>The \<^verbatim>\<open>cjson\<close> library on JSON objects whose member values it represents exactly (\<open>safe\<close>):
  strings, integers of at most fourteen digits, and whatever else the library round-trips.
  Decoding gives a table with one string-keyed field per member; encoding a table of such fields
  gives an object with those members, in some order.\<close>

locale cjson_library =
  fixes dec :: "bytes \<Rightarrow> lua_val option"
    and enc :: "lua_val \<Rightarrow> bytes option"
    and conv :: "json \<Rightarrow> lua_val"
    and safe :: "json \<Rightarrow> bool"
  assumes dec_object: "distinct (map fst fs) \<Longrightarrow> \<forall>(k, j) \<in> set fs. safe j \<Longrightarrow>
          \<exists>t. dec (Json (JObj fs)) = Some (LTable t) \<and> distinct (map fst t) \<and>
              set t = (\<lambda>(k, j). (KStr k, conv j)) ` set fs"
    and enc_object: "distinct (map fst fs) \<Longrightarrow> \<forall>(k, j) \<in> set fs. safe j \<Longrightarrow> distinct (map fst t) \<Longrightarrow>
          set t = (\<lambda>(k, j). (KStr k, conv j)) ` set fs \<Longrightarrow>
          \<exists>fs'. enc (LTable t) = Some (Json (JObj fs')) \<and> distinct (map fst fs') \<and> set fs' = set fs"
    and conv_string: "conv (JStr x) = LStr x"
    and conv_int: "\<bar>n\<bar> < 10 ^ 14 \<Longrightarrow> conv (JInt n) = LNum n"
    and safe_string: "safe (JStr x)"
    and safe_int: "\<bar>n\<bar> < 10 ^ 14 \<Longrightarrow> safe (JInt n)"

end
