(* ===== verification/Lua_Scripts.thy ===== *)
theory Lua_Scripts
  imports Redis_Server
begin

text \<open>
  The Lua scripts of \<^verbatim>\<open>pkg/queue/lua.go\<close>, one definition per script, over the Redis server
  parameter \<open>R\<close>.  A script maps the server state to its reply and the new state; \<open>Inl\<close> is an
  error raised inside the script, in which case the writes made so far stay (Redis does not roll
  a script back).  \<^verbatim>\<open>ARGV\<close> numbers are integers.
\<close>

section \<open>Blocks the scripts share\<close>

text \<open>\<^verbatim>\<open>pcall(cjson.decode, raw)\<close> followed by the test \<^verbatim>\<open>ok and type(msg) == 'table'\<close>.\<close>

definition decode_table :: "'s redis \<Rightarrow> bytes \<Rightarrow> (lua_key \<times> lua_val) list option" where
  "decode_table R raw = (case cjson_decode R raw of Some (LTable t) \<Rightarrow> Some t | _ \<Rightarrow> None)"

abbreviation encode_error :: error where
  "encode_error \<equiv> ErrText ''ERR user_script: Cannot serialise''"

text \<open>Keep the remaining time to live across a \<^verbatim>\<open>SET\<close>.\<close>

definition set_keep_ttl :: "'s redis \<Rightarrow> string \<Rightarrow> bytes \<Rightarrow> 's \<Rightarrow> 's" where
  "set_keep_ttl R msgKey raw s =
     (let ttl = TTL R msgKey s;
          s1 = SET R msgKey raw s
      in if ttl > 0 then EXPIRE R msgKey ttl s1 else s1)"

text \<open>The status assignment every transition makes: \<^verbatim>\<open>status\<close>, \<^verbatim>\<open>updated_at\<close>, re-encode, store.\<close>

definition stamp_table :: "string \<Rightarrow> int \<Rightarrow> (lua_key \<times> lua_val) list \<Rightarrow> lua_val" where
  "stamp_table status now t =
     LTable (lua_set (KStr ''updated_at'') (LNum now) (lua_set (KStr ''status'') (LStr status) t))"

definition restamp :: "'s redis \<Rightarrow> string \<Rightarrow> (lua_key \<times> lua_val) list \<Rightarrow> string \<Rightarrow> int \<Rightarrow> 's
    \<Rightarrow> (error + unit) \<times> 's" where
  "restamp R msgKey t status now s =
     (case cjson_encode R (stamp_table status now t) of
        None \<Rightarrow> (Inl encode_error, s)
      | Some raw \<Rightarrow> (Inr (), set_keep_ttl R msgKey raw s))"


section \<open>Publishing and moving\<close>

definition pushScript :: "'s redis \<Rightarrow> string \<Rightarrow> string \<Rightarrow> string \<Rightarrow> string \<Rightarrow> bytes \<Rightarrow> string \<Rightarrow> int \<Rightarrow> int
    \<Rightarrow> 's \<Rightarrow> (error + int) \<times> 's" where
  "pushScript R waiting delayed msgKey messageID msgRaw mode score ttlSeconds s =
     (let s1 = SET R msgKey msgRaw s;
          s2 = (if ttlSeconds > 0 then EXPIRE R msgKey ttlSeconds s1 else s1);
          s3 = (if mode = ''waiting'' then LPUSH R waiting messageID s2
                else ZADD R delayed score messageID s2)
      in (Inr 1, s3))"

text \<open>\<^verbatim>\<open>moveScript\<close>: the loop body for each due id, then the script.\<close>

fun move_ids :: "'s redis \<Rightarrow> string \<Rightarrow> string \<Rightarrow> string \<Rightarrow> int \<Rightarrow> string \<Rightarrow> string list \<Rightarrow> 's
    \<Rightarrow> (error + unit) \<times> 's" where
  "move_ids R from to msgPrefix now status [] s = (Inr (), s)"
| "move_ids R from to msgPrefix now status (i # ids) s =
     (let s1 = snd (ZREM R from i s);
          msgKey = msgPrefix @ i
      in case GET R msgKey s1 of
           Some raw \<Rightarrow>
             (case decode_table R raw of
                Some t \<Rightarrow>
                  (case restamp R msgKey t status now s1 of
                     (Inl e, s2) \<Rightarrow> (Inl e, s2)
                   | (Inr _, s2) \<Rightarrow> move_ids R from to msgPrefix now status ids (LPUSH R to i s2))
              | None \<Rightarrow> move_ids R from to msgPrefix now status ids (DEL R msgKey s1))
         | None \<Rightarrow> move_ids R from to msgPrefix now status ids (snd (LREM R to i s1)))"

definition moveScript :: "'s redis \<Rightarrow> string \<Rightarrow> string \<Rightarrow> string \<Rightarrow> int \<Rightarrow> string \<Rightarrow> 's
    \<Rightarrow> (error + int) \<times> 's" where
  "moveScript R from to msgPrefix now status s =
     (let ids = ZRANGEBYSCORE R from now 100 s
      in if length ids = 0 then (Inr 0, s)
         else case move_ids R from to msgPrefix now status ids s of
                (Inl e, s') \<Rightarrow> (Inl e, s')
              | (Inr _, s') \<Rightarrow> (Inr (int (length ids)), s'))"

fun move_timeout_ids :: "'s redis \<Rightarrow> string \<Rightarrow> string \<Rightarrow> string \<Rightarrow> string list \<Rightarrow> int \<Rightarrow> 's \<Rightarrow> int \<times> 's" where
  "move_timeout_ids R from to msgPrefix [] moved s = (moved, s)"
| "move_timeout_ids R from to msgPrefix (i # ids) moved s =
     (let s1 = snd (ZREM R from i s);
          msgKey = msgPrefix @ i
      in if EXISTS R msgKey s1 = 1
         then move_timeout_ids R from to msgPrefix ids (moved + 1) (LPUSH R to i s1)
         else move_timeout_ids R from to msgPrefix ids moved s1)"

definition moveTimeoutScript :: "'s redis \<Rightarrow> string \<Rightarrow> string \<Rightarrow> string \<Rightarrow> int \<Rightarrow> 's \<Rightarrow> (error + int) \<times> 's" where
  "moveTimeoutScript R from to msgPrefix now s =
     (let ids = ZRANGEBYSCORE R from now 100 s
      in if length ids = 0 then (Inr 0, s)
         else let (moved, s') = move_timeout_ids R from to msgPrefix ids 0 s in (Inr moved, s'))"


section \<open>Claiming\<close>

text \<open>\<^verbatim>\<open>popScript\<close> is a \<^verbatim>\<open>while true\<close> loop: \<open>None\<close> is not returning.\<close>

partial_function (option) popScript :: "'s redis \<Rightarrow> string \<Rightarrow> string \<Rightarrow> string \<Rightarrow> int \<Rightarrow> int \<Rightarrow> 's
    \<Rightarrow> ((error + string option) \<times> 's) option" where
  "popScript R waiting reserved msgPrefix now deadline s =
     (case RPOP R waiting s of (reply, s1) \<Rightarrow>
        (case reply of
           None \<Rightarrow> Some (Inr None, s1)
         | Some i \<Rightarrow>
             (case GET R (msgPrefix @ i) s1 of
                None \<Rightarrow> popScript R waiting reserved msgPrefix now deadline s1
              | Some raw \<Rightarrow>
                  (case decode_table R raw of
                     None \<Rightarrow> popScript R waiting reserved msgPrefix now deadline (DEL R (msgPrefix @ i) s1)
                   | Some t \<Rightarrow>
                       (case restamp R (msgPrefix @ i) t ''reserved'' now s1 of
                          (Inl e, s2) \<Rightarrow> Some (Inl e, s2)
                        | (Inr _, s2) \<Rightarrow> Some (Inr (Some i), ZADD R reserved deadline i s2))))))"


section \<open>Commits\<close>

definition ackScript :: "'s redis \<Rightarrow> string \<Rightarrow> string \<Rightarrow> string \<Rightarrow> int \<Rightarrow> 's \<Rightarrow> (error + int) \<times> 's" where
  "ackScript R reserved msgKey messageID now s =
     (let s1 = snd (ZREM R reserved messageID s)
      in case GET R msgKey s1 of
           None \<Rightarrow> (Inr 1, s1)
         | Some raw \<Rightarrow>
             (case decode_table R raw of
                None \<Rightarrow> (Inr 1, s1)
              | Some t \<Rightarrow>
                  (case restamp R msgKey t ''done'' now s1 of
                     (Inl e, s2) \<Rightarrow> (Inl e, s2)
                   | (Inr _, s2) \<Rightarrow> (Inr 1, s2))))"

definition failScript :: "'s redis \<Rightarrow> string \<Rightarrow> string \<Rightarrow> string \<Rightarrow> string \<Rightarrow> int \<Rightarrow> 's \<Rightarrow> (error + int) \<times> 's" where
  "failScript R reserved failed msgKey messageID now s =
     (let s1 = snd (ZREM R reserved messageID s)
      in case GET R msgKey s1 of
           None \<Rightarrow> (Inr 1, s1)
         | Some raw \<Rightarrow>
             (case decode_table R raw of
                None \<Rightarrow> (Inr 1, s1)
              | Some t \<Rightarrow>
                  (case restamp R msgKey t ''failed'' now s1 of
                     (Inl e, s2) \<Rightarrow> (Inl e, s2)
                   | (Inr _, s2) \<Rightarrow> (Inr 1, LPUSH R failed messageID s2))))"

definition dropScript :: "'s redis \<Rightarrow> string \<Rightarrow> string \<Rightarrow> string \<Rightarrow> int \<Rightarrow> 's \<Rightarrow> (error + int) \<times> 's" where
  "dropScript R reserved msgKey messageID now s =
     (let s1 = snd (ZREM R reserved messageID s)
      in case GET R msgKey s1 of
           None \<Rightarrow> (Inr 1, s1)
         | Some raw \<Rightarrow>
             (case decode_table R raw of
                None \<Rightarrow> (Inr 1, s1)
              | Some t \<Rightarrow>
                  (case restamp R msgKey t ''dropped'' now s1 of
                     (Inl e, s2) \<Rightarrow> (Inl e, s2)
                   | (Inr _, s2) \<Rightarrow> (Inr 1, s2))))"

definition requeueScript :: "'s redis \<Rightarrow> string \<Rightarrow> string \<Rightarrow> string \<Rightarrow> string \<Rightarrow> int \<Rightarrow> 's \<Rightarrow> (error + int) \<times> 's" where
  "requeueScript R reserved waiting msgKey messageID now s =
     (let s1 = snd (ZREM R reserved messageID s)
      in case GET R msgKey s1 of
           None \<Rightarrow> (Inr 1, s1)
         | Some raw \<Rightarrow>
             (case decode_table R raw of
                None \<Rightarrow> (Inr 1, s1)
              | Some t \<Rightarrow>
                  (case restamp R msgKey t ''waiting'' now s1 of
                     (Inl e, s2) \<Rightarrow> (Inl e, s2)
                   | (Inr _, s2) \<Rightarrow> (Inr 1, LPUSH R waiting messageID s2))))"

text \<open>Both paths of \<^verbatim>\<open>retryByIDScript\<close> end with the same rewrite and enqueue.\<close>

definition retry_enqueue :: "'s redis \<Rightarrow> string \<Rightarrow> string \<Rightarrow> string \<Rightarrow> string \<Rightarrow> int \<Rightarrow> bytes \<Rightarrow> string \<Rightarrow> 's \<Rightarrow> 's" where
  "retry_enqueue R waiting delayed msgKey messageID score msgRaw mode s =
     (let s1 = set_keep_ttl R msgKey msgRaw s
      in if mode = ''waiting'' then LPUSH R waiting messageID s1 else ZADD R delayed score messageID s1)"

definition retryByIDScript :: "'s redis \<Rightarrow> string \<Rightarrow> string \<Rightarrow> string \<Rightarrow> string \<Rightarrow> string \<Rightarrow> string
    \<Rightarrow> string \<Rightarrow> int \<Rightarrow> bytes \<Rightarrow> string \<Rightarrow> 's \<Rightarrow> (error + int) \<times> 's" where
  "retryByIDScript R waiting reserved delayed timeout failed msgKey messageID score msgRaw mode s =
     (let (removedReserved, s1) = ZREM R reserved messageID s
      in if removedReserved > 0
         then (Inr 1, retry_enqueue R waiting delayed msgKey messageID score msgRaw mode s1)
         else let (n1, s2) = LREM R waiting messageID s1;
                  (n2, s3) = ZREM R delayed messageID s2;
                  (n3, s4) = LREM R timeout messageID s3;
                  (n4, s5) = LREM R failed messageID s4
              in if 0 + n1 + n2 + n3 + n4 = 0 then (Inr 0, s5)
                 else (Inr 1, retry_enqueue R waiting delayed msgKey messageID score msgRaw mode s5))"

definition cancelByIDScript :: "'s redis \<Rightarrow> string \<Rightarrow> string \<Rightarrow> string \<Rightarrow> string \<Rightarrow> string \<Rightarrow> int \<Rightarrow> 's
    \<Rightarrow> (error + int) \<times> 's" where
  "cancelByIDScript R waiting reserved delayed msgKey messageID now s =
     (let (removed, s1) = ZREM R delayed messageID s
      in if removed > 0
         then (case GET R msgKey s1 of
                 None \<Rightarrow> (Inr 1, s1)
               | Some raw \<Rightarrow>
                   (case decode_table R raw of
                      None \<Rightarrow> (Inr 1, DEL R msgKey s1)
                    | Some t \<Rightarrow>
                        (let pttl = PTTL R msgKey s1
                         in case cjson_encode R (stamp_table ''canceled'' now t) of
                              None \<Rightarrow> (Inl encode_error, s1)
                            | Some raw' \<Rightarrow>
                                (let s2 = SET R msgKey raw' s1
                                 in (Inr 1, if pttl > 0 then PEXPIRE R msgKey pttl s2 else s2)))))
         else if ZSCORE R reserved messageID s1 \<noteq> None then (Inr (-2), s1)
         else if LPOS R waiting messageID s1 \<noteq> LNil then (Inr (-1), s1)
         else (Inr 0, s1))"


section \<open>Reloading and sequence numbers\<close>

fun reload_loop :: "'s redis \<Rightarrow> string \<Rightarrow> string \<Rightarrow> string \<Rightarrow> int \<Rightarrow> bool \<Rightarrow> nat \<Rightarrow> int \<Rightarrow> 's
    \<Rightarrow> (error + int) \<times> 's" where
  "reload_loop R source waiting msgPrefix now skipStale 0 count s = (Inr count, s)"
| "reload_loop R source waiting msgPrefix now skipStale (Suc n) count s =
     (case RPOPLPUSH R source waiting s of
        (None, s1) \<Rightarrow> (Inr count, s1)
      | (Some i, s1) \<Rightarrow>
          (let msgKey = msgPrefix @ i
           in case GET R msgKey s1 of
                None \<Rightarrow> reload_loop R source waiting msgPrefix now skipStale n count (snd (LREM R waiting i s1))
              | Some raw \<Rightarrow>
                  (case decode_table R raw of
                     None \<Rightarrow> reload_loop R source waiting msgPrefix now skipStale n count
                               (snd (LREM R waiting i s1))
                   | Some t \<Rightarrow>
                       (let st = lua_get t (KStr ''status'')
                        in if skipStale \<and> (st = LStr ''done'' \<or> st = LStr ''dropped'' \<or> st = LStr ''canceled'')
                           then reload_loop R source waiting msgPrefix now skipStale n count
                                  (snd (LREM R waiting i s1))
                           else case restamp R msgKey t ''waiting'' now s1 of
                                  (Inl e, s2) \<Rightarrow> (Inl e, s2)
                                | (Inr _, s2) \<Rightarrow>
                                    reload_loop R source waiting msgPrefix now skipStale n (count + 1) s2))))"

definition reloadScript :: "'s redis \<Rightarrow> string \<Rightarrow> string \<Rightarrow> string \<Rightarrow> int \<Rightarrow> string \<Rightarrow> 's \<Rightarrow> (error + int) \<times> 's" where
  "reloadScript R source waiting msgPrefix now skip s =
     reload_loop R source waiting msgPrefix now (skip = ''1'') 100 0 s"

text \<open>Returns the texts of the sequence number and of the epoch.  Lua's \<^verbatim>\<open>tostring\<close> prints a whole number
  in full below fourteen digits, the range in which the lemmas use it.\<close>

definition nextSeqScript :: "'s redis \<Rightarrow> string \<Rightarrow> string \<Rightarrow> int \<Rightarrow> 's \<Rightarrow> (error + string \<times> string) \<times> 's" where
  "nextSeqScript R seqKey epochKey mx s =
     (let (seq, s1) = INCR R seqKey s;
          (epoch, s2) = (case GET R epochKey s1 of
             None \<Rightarrow> (''0'', SET R epochKey (Text ''0'') s1)
           | Some b \<Rightarrow> (bytes_string b, s1))
      in if seq > mx
         then let s3 = SET R seqKey (Text (show_int 0)) s2;
                  (epoch', s4) = INCR R epochKey s3
              in (Inr (show_int 0, show_int epoch'), s4)
         else (Inr (show_int seq, epoch), s2))"

end
