(* ===== verification/Keys.thy ===== *)
theory Keys
  imports Go_Prelude
begin

text \<open>
  The backend key names of one channel (\<^verbatim>\<open>pkg/queue/keys.go\<close>): the record of key names, the
  lookup by bucket name, the message keys; and that no two of them collide, within a channel
  and across channels.
\<close>

record Keys =
  k_Channel :: string
  k_Waiting :: string
  k_Reserved :: string
  k_Timeout :: string
  k_Delayed :: string
  k_Failed :: string
  k_MessagePrefix :: string
  k_SequenceKey :: string
  k_SequenceEpoch :: string

definition NewKeys :: "string \<Rightarrow> Keys" where
  "NewKeys channel =
     \<lparr>k_Channel = channel,
      k_Waiting = ''{'' @ channel @ ''}:waiting'',
      k_Reserved = ''{'' @ channel @ ''}:reserved'',
      k_Timeout = ''{'' @ channel @ ''}:timeout'',
      k_Delayed = ''{'' @ channel @ ''}:delayed'',
      k_Failed = ''{'' @ channel @ ''}:failed'',
      k_MessagePrefix = ''{'' @ channel @ ''}:message:'',
      k_SequenceKey = ''{'' @ channel @ ''}:msg_seq'',
      k_SequenceEpoch = ''{'' @ channel @ ''}:msg_seq_epoch''\<rparr>"

definition Keys_Get :: "Keys \<Rightarrow> string \<Rightarrow> error + string" where
  "Keys_Get k name =
     (if name = ''waiting'' then Inr (k_Waiting k)
      else if name = ''reserved'' then Inr (k_Reserved k)
      else if name = ''timeout'' then Inr (k_Timeout k)
      else if name = ''delayed'' then Inr (k_Delayed k)
      else if name = ''failed'' then Inr (k_Failed k)
      else Inl (ErrText (''queue '' @ name @ '' is not supported'')))"

definition Keys_Message :: "Keys \<Rightarrow> string \<Rightarrow> string" where
  "Keys_Message k messageID = k_MessagePrefix k @ messageID"

text \<open>All fixed keys of a channel, and the keys it can ever touch.\<close>

definition bucket_keys :: "string \<Rightarrow> string list" where
  "bucket_keys ch = (let k = NewKeys ch in
     [k_Waiting k, k_Reserved k, k_Timeout k, k_Delayed k, k_Failed k,
      k_SequenceKey k, k_SequenceEpoch k])"

definition channel_keys :: "string \<Rightarrow> string set" where
  "channel_keys ch = set (bucket_keys ch) \<union>
     {Keys_Message (NewKeys ch) messageID | messageID. CHR ''}'' \<notin> set messageID}"


section \<open>No collisions within a channel\<close>

lemma NewKeys_distinct [key_simps]:
  fixes ch :: string
  defines "k \<equiv> NewKeys ch"
  shows "k_Waiting k \<noteq> k_Reserved k" "k_Waiting k \<noteq> k_Timeout k" "k_Waiting k \<noteq> k_Delayed k"
    "k_Waiting k \<noteq> k_Failed k" "k_Waiting k \<noteq> k_SequenceKey k" "k_Waiting k \<noteq> k_SequenceEpoch k"
    "k_Reserved k \<noteq> k_Timeout k" "k_Reserved k \<noteq> k_Delayed k" "k_Reserved k \<noteq> k_Failed k"
    "k_Reserved k \<noteq> k_SequenceKey k" "k_Reserved k \<noteq> k_SequenceEpoch k"
    "k_Timeout k \<noteq> k_Delayed k" "k_Timeout k \<noteq> k_Failed k" "k_Timeout k \<noteq> k_SequenceKey k"
    "k_Timeout k \<noteq> k_SequenceEpoch k" "k_Delayed k \<noteq> k_Failed k" "k_Delayed k \<noteq> k_SequenceKey k"
    "k_Delayed k \<noteq> k_SequenceEpoch k" "k_Failed k \<noteq> k_SequenceKey k"
    "k_Failed k \<noteq> k_SequenceEpoch k" "k_SequenceKey k \<noteq> k_SequenceEpoch k"
  by (simp_all add: k_def NewKeys_def)

lemmas NewKeys_distinct_sym [key_simps] = NewKeys_distinct [symmetric]

lemma Keys_Message_distinct [key_simps]:
  fixes ch :: string
  defines "k \<equiv> NewKeys ch"
  shows "Keys_Message k i \<noteq> k_Waiting k" "Keys_Message k i \<noteq> k_Reserved k"
    "Keys_Message k i \<noteq> k_Timeout k" "Keys_Message k i \<noteq> k_Delayed k"
    "Keys_Message k i \<noteq> k_Failed k" "Keys_Message k i \<noteq> k_SequenceKey k"
    "Keys_Message k i \<noteq> k_SequenceEpoch k"
  by (simp_all add: k_def NewKeys_def Keys_Message_def)

lemmas Keys_Message_distinct_sym [key_simps] = Keys_Message_distinct [symmetric]

lemma Keys_Message_inject [key_simps]: "Keys_Message k i = Keys_Message k j \<longleftrightarrow> i = j"
  by (simp add: Keys_Message_def)


section \<open>No collisions across channels\<close>

text \<open>Every key of a channel is \<open>{channel}\<close> followed by a suffix that holds no closing brace
  (message ids are hexadecimal), so the last brace of a key delimits the channel.\<close>

lemma last_brace_unique:
  assumes "xs @ CHR ''}'' # us = ys @ CHR ''}'' # vs"
    and "CHR ''}'' \<notin> set us" and "CHR ''}'' \<notin> set vs"
  shows "xs = ys"
proof -
  have tail: "takeWhile (\<lambda>c. c \<noteq> CHR ''}'') (rev (zs @ CHR ''}'' # ws)) = rev ws"
    if "CHR ''}'' \<notin> set ws" for zs ws :: string
    using that by (auto simp: takeWhile_append)
  have "rev us = rev vs" using tail[of us xs] tail[of vs ys] assms by simp
  then show ?thesis using assms(1) by simp
qed

lemma channel_key_shape:
  assumes "x \<in> channel_keys ch"
  shows "\<exists>u. x = (CHR ''{'' # ch) @ CHR ''}'' # u \<and> CHR ''}'' \<notin> set u"
proof -
  consider "x \<in> set (bucket_keys ch)"
    | i where "x = Keys_Message (NewKeys ch) i" "CHR ''}'' \<notin> set i"
    using assms by (auto simp: channel_keys_def)
  then show ?thesis
    by cases (auto simp: bucket_keys_def Let_def NewKeys_def Keys_Message_def)
qed

text \<open>Two different channels share no backend key of a bucket, of a counter or of a message whose id
  contains no closing brace (generated ids are hexadecimal digests), whatever the names of the channels.\<close>

theorem channels_isolated:
  assumes "ch \<noteq> ch'"
  shows "channel_keys ch \<inter> channel_keys ch' = {}"
proof -
  have False if x: "x \<in> channel_keys ch" "x \<in> channel_keys ch'" for x
  proof -
    obtain u where "x = (CHR ''{'' # ch) @ CHR ''}'' # u" "CHR ''}'' \<notin> set u"
      using channel_key_shape[OF x(1)] by blast
    moreover obtain v where "x = (CHR ''{'' # ch') @ CHR ''}'' # v" "CHR ''}'' \<notin> set v"
      using channel_key_shape[OF x(2)] by blast
    ultimately have "CHR ''{'' # ch = CHR ''{'' # ch'" using last_brace_unique by metis
    then show False using assms by simp
  qed
  then show ?thesis by blast
qed

theorem channels_isolated_witness: "channel_keys ''a'' \<inter> channel_keys ''a}:waiting'' = {}"
  by (rule channels_isolated) simp

text \<open>Within a channel, the five buckets, the two sequence keys and the message keys are
  pairwise different, and different message ids have different keys.\<close>

theorem channel_keys_distinct:
  "distinct (bucket_keys ch) \<and>
   (\<forall>i. Keys_Message (NewKeys ch) i \<notin> set (bucket_keys ch)) \<and>
   inj (Keys_Message (NewKeys ch))"
  by (simp add: bucket_keys_def Let_def key_simps inj_def)

lemma Keys_Get_names:
  "Keys_Get (NewKeys ch) name =
     (if name \<in> {''waiting'', ''reserved'', ''timeout'', ''delayed'', ''failed''}
      then Inr (''{'' @ ch @ ''}:'' @ name)
      else Inl (ErrText (''queue '' @ name @ '' is not supported'')))"
  by (auto simp: Keys_Get_def NewKeys_def)

end
