(* ===== verification/Md5.thy ===== *)
theory Md5
  imports Main "HOL-Library.Word"
begin

unbundle bit_operations_syntax

text \<open>
  Go's \<^verbatim>\<open>crypto/md5\<close> and \<^verbatim>\<open>encoding/hex\<close>, as the driver uses them to turn a sequence number into a
  message id: \<^verbatim>\<open>hex.EncodeToString(md5.Sum([]byte(payload)))\<close>.  The digest is computed; the
  development relies on its shape only (thirty-two lower-case hexadecimal digits).
\<close>

type_synonym u32 = "32 word"

section \<open>The digest\<close>

definition md5_K :: "u32 list" where
  "md5_K =
     [0xD76AA478, 0xE8C7B756, 0x242070DB, 0xC1BDCEEE, 0xF57C0FAF, 0x4787C62A, 0xA8304613, 0xFD469501,
      0x698098D8, 0x8B44F7AF, 0xFFFF5BB1, 0x895CD7BE, 0x6B901122, 0xFD987193, 0xA679438E, 0x49B40821,
      0xF61E2562, 0xC040B340, 0x265E5A51, 0xE9B6C7AA, 0xD62F105D, 0x02441453, 0xD8A1E681, 0xE7D3FBC8,
      0x21E1CDE6, 0xC33707D6, 0xF4D50D87, 0x455A14ED, 0xA9E3E905, 0xFCEFA3F8, 0x676F02D9, 0x8D2A4C8A,
      0xFFFA3942, 0x8771F681, 0x6D9D6122, 0xFDE5380C, 0xA4BEEA44, 0x4BDECFA9, 0xF6BB4B60, 0xBEBFBC70,
      0x289B7EC6, 0xEAA127FA, 0xD4EF3085, 0x04881D05, 0xD9D4D039, 0xE6DB99E5, 0x1FA27CF8, 0xC4AC5665,
      0xF4292244, 0x432AFF97, 0xAB9423A7, 0xFC93A039, 0x655B59C3, 0x8F0CCC92, 0xFFEFF47D, 0x85845DD1,
      0x6FA87E4F, 0xFE2CE6E0, 0xA3014314, 0x4E0811A1, 0xF7537E82, 0xBD3AF235, 0x2AD7D2BB, 0xEB86D391]"

definition md5_shift :: "nat list" where
  "md5_shift = concat (replicate 4 [7, 12, 17, 22]) @ concat (replicate 4 [5, 9, 14, 20])
     @ concat (replicate 4 [4, 11, 16, 23]) @ concat (replicate 4 [6, 10, 15, 21])"

text \<open>Padding: a one bit, zeros to 56 modulo 64, the length in bits as eight little-endian bytes.\<close>

definition le_bytes :: "nat \<Rightarrow> nat \<Rightarrow> nat list" where
  "le_bytes n x = map (\<lambda>i. x div 256 ^ i mod 256) [0..<n]"

definition md5_pad :: "nat list \<Rightarrow> nat list" where
  "md5_pad msg = msg @ [128] @ replicate ((119 - length msg mod 64) mod 64) 0 @ le_bytes 8 (8 * length msg)"

fun le_word :: "nat list \<Rightarrow> nat" where
  "le_word [] = 0" | "le_word (b # bs) = b + 256 * le_word bs"

definition block_word :: "nat list \<Rightarrow> nat \<Rightarrow> u32" where
  "block_word blk g = of_nat (le_word (take 4 (drop (4 * g) blk)))"

definition md5_mix :: "nat \<Rightarrow> u32 \<Rightarrow> u32 \<Rightarrow> u32 \<Rightarrow> u32" where
  "md5_mix i b c d =
     (if i < 16 then (b AND c) OR (NOT b AND d)
      else if i < 32 then (d AND b) OR (NOT d AND c)
      else if i < 48 then (b XOR c) XOR d
      else c XOR (b OR NOT d))"

definition md5_index :: "nat \<Rightarrow> nat" where
  "md5_index i =
     (if i < 16 then i else if i < 32 then (5 * i + 1) mod 16
      else if i < 48 then (3 * i + 5) mod 16 else (7 * i) mod 16)"

definition md5_step :: "nat list \<Rightarrow> nat \<Rightarrow> u32 \<times> u32 \<times> u32 \<times> u32 \<Rightarrow> u32 \<times> u32 \<times> u32 \<times> u32" where
  "md5_step blk i = (\<lambda>(a, b, c, d).
     (d, b + word_rotl (md5_shift ! i) (a + md5_mix i b c d + md5_K ! i + block_word blk (md5_index i)), b, c))"

definition md5_block :: "nat list \<Rightarrow> u32 \<times> u32 \<times> u32 \<times> u32 \<Rightarrow> u32 \<times> u32 \<times> u32 \<times> u32" where
  "md5_block blk = (\<lambda>(a0, b0, c0, d0).
     case fold (md5_step blk) [0..<64] (a0, b0, c0, d0) of (a, b, c, d) \<Rightarrow> (a0 + a, b0 + b, c0 + c, d0 + d))"

fun md5_blocks :: "nat \<Rightarrow> nat list \<Rightarrow> u32 \<times> u32 \<times> u32 \<times> u32 \<Rightarrow> u32 \<times> u32 \<times> u32 \<times> u32" where
  "md5_blocks 0 bs st = st"
| "md5_blocks (Suc n) bs st = md5_blocks n (drop 64 bs) (md5_block (take 64 bs) st)"

definition md5_Sum :: "string \<Rightarrow> nat list" where
  "md5_Sum payload =
     (let bs = md5_pad (map of_char payload);
          (a, b, c, d) = md5_blocks (length bs div 64) bs (0x67452301, 0xEFCDAB89, 0x98BADCFE, 0x10325476)
      in concat (map (\<lambda>w. le_bytes 4 (unat w)) [a, b, c, d]))"

section \<open>Hexadecimal text\<close>

definition hex_digit :: "nat \<Rightarrow> char" where
  "hex_digit n = ''0123456789abcdef'' ! n"

definition hex_EncodeToString :: "nat list \<Rightarrow> string" where
  "hex_EncodeToString bs = concat (map (\<lambda>b. [hex_digit (b div 16), hex_digit (b mod 16)]) bs)"

definition md5_hex :: "string \<Rightarrow> string" where
  "md5_hex payload = hex_EncodeToString (md5_Sum payload)"

lemma le_bytes_props: "length (le_bytes n x) = n" "\<forall>b \<in> set (le_bytes n x). b < 256"
  by (auto simp: le_bytes_def)

lemma md5_Sum_props: "length (md5_Sum p) = 16" "\<forall>b \<in> set (md5_Sum p). b < 256"
  by (auto simp: md5_Sum_def Let_def le_bytes_props split_beta)

lemma hex_digit_in: "n < 16 \<Longrightarrow> hex_digit n \<in> set ''0123456789abcdef''"
  unfolding hex_digit_def by (rule nth_mem) simp

lemma hex_length: "length (hex_EncodeToString bs) = 2 * length bs"
  by (induction bs) (simp_all add: hex_EncodeToString_def)

lemma hex_chars:
  assumes "\<forall>b \<in> set bs. b < 256"
  shows "set (hex_EncodeToString bs) \<subseteq> set ''0123456789abcdef''"
proof -
  define H where "H = set ''0123456789abcdef''"
  have "hex_digit (b div 16) \<in> H \<and> hex_digit (b mod 16) \<in> H" if "b \<in> set bs" for b
    using that assms unfolding H_def by (intro conjI; intro hex_digit_in) fastforce+
  then have "set (hex_EncodeToString bs) \<subseteq> H" by (auto simp: hex_EncodeToString_def)
  then show ?thesis by (simp only: H_def)
qed

lemma md5_hex_shape:
  "length (md5_hex p) = 32" "set (md5_hex p) \<subseteq> set ''0123456789abcdef''"
  using md5_Sum_props[of p] hex_chars[of "md5_Sum p"] by (simp_all add: md5_hex_def hex_length)

lemma md5_hex_no_brace: "CHR ''}'' \<notin> set (md5_hex p)"
  using md5_hex_shape(2)[of p] by auto

lemma md5_hex_not_Nil: "md5_hex p \<noteq> ''''"
  using md5_hex_shape(1)[of p] by auto

end
