(* ===== verification/Queue_Spec.thy ===== *)
theory Queue_Spec
  imports Redis_Server
begin

text \<open>
  The abstract queue of one channel: five buckets of message ids and the message entities, with
  one operation per atomic transition the backend offers.  It is what the guide's state
  transition matrix describes; \<open>Lua_Refinement\<close> shows that the Lua scripts implement it.
  Lists have their newest element first (\<^verbatim>\<open>LPUSH\<close>/\<^verbatim>\<open>RPOP\<close>); \<open>q_reserved\<close> and \<open>q_delayed\<close> carry the
  deadline or due time as score.
\<close>

section \<open>State and operations\<close>

record qstate =
  q_waiting :: "string list"
  q_reserved :: zset
  q_delayed :: zset
  q_timeout :: "string list"
  q_failed :: "string list"
  q_msgs :: "string \<rightharpoonup> Message"

definition q_empty :: qstate where
  "q_empty = \<lparr>q_waiting = [], q_reserved = [], q_delayed = [], q_timeout = [], q_failed = [],
              q_msgs = Map.empty\<rparr>"

definition stamp :: "MessageStatus \<Rightarrow> int \<Rightarrow> Message \<Rightarrow> Message" where
  "stamp st now m = m\<lparr>Status := st, UpdatedAt := now\<rparr>"

definition q_mark :: "string \<Rightarrow> MessageStatus \<Rightarrow> int \<Rightarrow> qstate \<Rightarrow> qstate" where
  "q_mark i st now q = q\<lparr>q_msgs := (q_msgs q)(i := map_option (stamp st now) (q_msgs q i))\<rparr>"

definition q_unreserve :: "string \<Rightarrow> qstate \<Rightarrow> qstate" where
  "q_unreserve i q = q\<lparr>q_reserved := zset_rem i (q_reserved q)\<rparr>"

text \<open>Where a published or retried message goes.\<close>

definition q_enqueue :: "string \<Rightarrow> string \<Rightarrow> int \<Rightarrow> qstate \<Rightarrow> qstate" where
  "q_enqueue mode i score q =
     (if mode = ''waiting'' then q\<lparr>q_waiting := i # q_waiting q\<rparr>
      else q\<lparr>q_delayed := zset_add score i (q_delayed q)\<rparr>)"

definition q_push :: "string \<Rightarrow> Message \<Rightarrow> string \<Rightarrow> int \<Rightarrow> qstate \<Rightarrow> qstate" where
  "q_push i m mode score q = q_enqueue mode i score (q\<lparr>q_msgs := (q_msgs q)(i \<mapsto> m)\<rparr>)"

text \<open>Claiming: the oldest waiting id that still has an entity; older ids without one are dropped.\<close>

fun oldest_live :: "(string \<rightharpoonup> Message) \<Rightarrow> string list \<Rightarrow> (string \<times> string list) option" where
  "oldest_live msgs [] = None"
| "oldest_live msgs (i # is) = (if msgs i = None then oldest_live msgs is else Some (i, is))"

definition q_pop :: "int \<Rightarrow> int \<Rightarrow> qstate \<Rightarrow> string option \<times> qstate" where
  "q_pop now deadline q =
     (case oldest_live (q_msgs q) (rev (q_waiting q)) of
        None \<Rightarrow> (None, q\<lparr>q_waiting := []\<rparr>)
      | Some (i, rest) \<Rightarrow>
          (Some i, (q_mark i StatusReserved now q)
             \<lparr>q_waiting := rev rest, q_reserved := zset_add deadline i (q_reserved q)\<rparr>))"

definition q_ack :: "string \<Rightarrow> int \<Rightarrow> qstate \<Rightarrow> qstate" where
  "q_ack i now q = q_mark i StatusDone now (q_unreserve i q)"

definition q_drop :: "string \<Rightarrow> int \<Rightarrow> qstate \<Rightarrow> qstate" where
  "q_drop i now q = q_mark i StatusDropped now (q_unreserve i q)"

definition q_fail :: "string \<Rightarrow> int \<Rightarrow> qstate \<Rightarrow> qstate" where
  "q_fail i now q =
     (if q_msgs q i = None then q_unreserve i q
      else q_mark i StatusFailed now ((q_unreserve i q)\<lparr>q_failed := i # q_failed q\<rparr>))"

definition q_requeue :: "string \<Rightarrow> int \<Rightarrow> qstate \<Rightarrow> qstate" where
  "q_requeue i now q =
     (if q_msgs q i = None then q_unreserve i q
      else q_mark i StatusWaiting now ((q_unreserve i q)\<lparr>q_waiting := i # q_waiting q\<rparr>))"

definition q_forget :: "string \<Rightarrow> qstate \<Rightarrow> qstate" where
  "q_forget i q = q\<lparr>q_waiting := removeAll i (q_waiting q), q_delayed := zset_rem i (q_delayed q),
     q_timeout := removeAll i (q_timeout q), q_failed := removeAll i (q_failed q)\<rparr>"

definition q_retry :: "string \<Rightarrow> Message \<Rightarrow> string \<Rightarrow> int \<Rightarrow> qstate \<Rightarrow> bool \<times> qstate" where
  "q_retry i m mode score q =
     (if i \<in> zset_members (q_reserved q) then (True, q_push i m mode score (q_unreserve i q))
      else if i \<in> set (q_waiting q) \<union> zset_members (q_delayed q) \<union> set (q_timeout q) \<union> set (q_failed q)
      then (True, q_push i m mode score (q_forget i q))
      else (False, q))"

datatype cancel_outcome = Canceled | NotFound | AlreadyReady | InExecution

definition q_cancel :: "string \<Rightarrow> int \<Rightarrow> qstate \<Rightarrow> cancel_outcome \<times> qstate" where
  "q_cancel i now q =
     (if i \<in> zset_members (q_delayed q)
      then (Canceled, q_mark i StatusCanceled now (q\<lparr>q_delayed := zset_rem i (q_delayed q)\<rparr>))
      else if i \<in> zset_members (q_reserved q) then (InExecution, q)
      else if i \<in> set (q_waiting q) then (AlreadyReady, q)
      else (NotFound, q))"

text \<open>Forwarding one due delayed id, and one expired reservation.\<close>

definition q_forward1 :: "int \<Rightarrow> string \<Rightarrow> qstate \<Rightarrow> qstate" where
  "q_forward1 now i q =
     (let q' = q\<lparr>q_delayed := zset_rem i (q_delayed q)\<rparr> in
      if q_msgs q i = None then q'\<lparr>q_waiting := removeAll i (q_waiting q)\<rparr>
      else q_mark i StatusWaiting now (q'\<lparr>q_waiting := i # q_waiting q\<rparr>))"

definition q_forward :: "int \<Rightarrow> qstate \<Rightarrow> qstate" where
  "q_forward now q = fold (q_forward1 now) (zset_due now 100 (q_delayed q)) q"

definition q_expire1 :: "string \<Rightarrow> qstate \<Rightarrow> qstate" where
  "q_expire1 i q =
     (if q_msgs q i = None then q_unreserve i q
      else (q_unreserve i q)\<lparr>q_timeout := i # q_timeout q\<rparr>)"

definition q_expire :: "int \<Rightarrow> qstate \<Rightarrow> qstate" where
  "q_expire now q = fold q_expire1 (zset_due now 100 (q_reserved q)) q"


text \<open>Reloading the dead-letter list \<open>src\<close>, oldest first, in batches of at most a hundred entries.
  An id without entity, and a stale one when \<open>skip\<close> is set, is discarded from the source and from
  the waiting list; the others become waiting again.\<close>

datatype dead_letter = FromTimeout | FromFailed

fun q_dead :: "dead_letter \<Rightarrow> qstate \<Rightarrow> string list" where
  "q_dead FromTimeout q = q_timeout q" | "q_dead FromFailed q = q_failed q"

fun q_set_dead :: "dead_letter \<Rightarrow> string list \<Rightarrow> qstate \<Rightarrow> qstate" where
  "q_set_dead FromTimeout xs q = q\<lparr>q_timeout := xs\<rparr>" | "q_set_dead FromFailed xs q = q\<lparr>q_failed := xs\<rparr>"

definition stale :: "Message \<Rightarrow> bool" where
  "stale m \<longleftrightarrow> Status m \<in> {StatusDone, StatusDropped, StatusCanceled}"

definition reloadable :: "bool \<Rightarrow> qstate \<Rightarrow> string \<Rightarrow> bool" where
  "reloadable skip q i \<longleftrightarrow> (case q_msgs q i of None \<Rightarrow> False | Some m \<Rightarrow> \<not> (skip \<and> stale m))"

definition q_reload1 :: "dead_letter \<Rightarrow> bool \<Rightarrow> int \<Rightarrow> qstate \<Rightarrow> qstate" where
  "q_reload1 src skip now q =
     (let i = last (q_dead src q); q' = q_set_dead src (butlast (q_dead src q)) q in
      if reloadable skip q i then q_mark i StatusWaiting now (q'\<lparr>q_waiting := i # q_waiting q\<rparr>)
      else q'\<lparr>q_waiting := removeAll i (q_waiting q)\<rparr>)"

fun q_reload_batch :: "dead_letter \<Rightarrow> bool \<Rightarrow> int \<Rightarrow> nat \<Rightarrow> nat \<Rightarrow> qstate \<Rightarrow> nat \<times> qstate" where
  "q_reload_batch src skip now 0 count q = (count, q)"
| "q_reload_batch src skip now (Suc n) count q =
     (if q_dead src q = [] then (count, q)
      else q_reload_batch src skip now n
             (if reloadable skip q (last (q_dead src q)) then Suc count else count)
             (q_reload1 src skip now q))"

definition q_flush :: "string \<Rightarrow> qstate \<Rightarrow> qstate" where
  "q_flush name q =
     (if name = ''waiting'' then q\<lparr>q_waiting := []\<rparr>
      else if name = ''reserved'' then q\<lparr>q_reserved := []\<rparr>
      else if name = ''timeout'' then q\<lparr>q_timeout := []\<rparr>
      else if name = ''delayed'' then q\<lparr>q_delayed := []\<rparr>
      else if name = ''failed'' then q\<lparr>q_failed := []\<rparr> else q)"


section \<open>Frame lemmas\<close>

lemma q_mark_proj [simp]:
  "q_waiting (q_mark i st now q) = q_waiting q" "q_reserved (q_mark i st now q) = q_reserved q"
  "q_delayed (q_mark i st now q) = q_delayed q" "q_timeout (q_mark i st now q) = q_timeout q"
  "q_failed (q_mark i st now q) = q_failed q"
  "q_msgs (q_mark i st now q) = (q_msgs q)(i := map_option (stamp st now) (q_msgs q i))"
  by (simp_all add: q_mark_def)

lemma q_mark_update [simp]:
  "(q_mark i st now q)\<lparr>q_waiting := xs\<rparr> = q_mark i st now (q\<lparr>q_waiting := xs\<rparr>)"
  "(q_mark i st now q)\<lparr>q_reserved := z\<rparr> = q_mark i st now (q\<lparr>q_reserved := z\<rparr>)"
  "(q_mark i st now q)\<lparr>q_delayed := z\<rparr> = q_mark i st now (q\<lparr>q_delayed := z\<rparr>)"
  "(q_mark i st now q)\<lparr>q_timeout := xs\<rparr> = q_mark i st now (q\<lparr>q_timeout := xs\<rparr>)"
  "(q_mark i st now q)\<lparr>q_failed := xs\<rparr> = q_mark i st now (q\<lparr>q_failed := xs\<rparr>)"
  by (simp_all add: q_mark_def)

lemma q_mark_missing [simp]: "q_msgs q i = None \<Longrightarrow> q_mark i st now q = q"
  by (cases q) (auto simp: q_mark_def)

lemma q_unreserve_proj [simp]:
  "q_waiting (q_unreserve i q) = q_waiting q" "q_delayed (q_unreserve i q) = q_delayed q"
  "q_timeout (q_unreserve i q) = q_timeout q" "q_failed (q_unreserve i q) = q_failed q"
  "q_msgs (q_unreserve i q) = q_msgs q" "q_reserved (q_unreserve i q) = zset_rem i (q_reserved q)"
  by (simp_all add: q_unreserve_def)

lemma q_set_dead_simps [simp]:
  "q_dead src (q_set_dead src xs q) = xs" "q_msgs (q_set_dead src xs q) = q_msgs q"
  "q_waiting (q_set_dead src xs q) = q_waiting q" "q_reserved (q_set_dead src xs q) = q_reserved q"
  "q_delayed (q_set_dead src xs q) = q_delayed q"
  by (cases src; simp)+

lemma q_dead_mark [simp]: "q_dead src (q_mark i st now q) = q_dead src q"
  by (cases src) simp_all

lemma q_dead_waiting [simp]: "q_dead src (q\<lparr>q_waiting := xs\<rparr>) = q_dead src q"
  by (cases src) simp_all

lemma q_reload1_dead [simp]: "q_dead src (q_reload1 src skip now q) = butlast (q_dead src q)"
  by (simp add: q_reload1_def Let_def)

lemma q_forward1_None:
  "q_msgs q i = None \<Longrightarrow> q_forward1 now i q =
     q\<lparr>q_delayed := zset_rem i (q_delayed q), q_waiting := removeAll i (q_waiting q)\<rparr>"
  by (simp add: q_forward1_def)

lemma q_forward1_Some:
  "q_msgs q i = Some m \<Longrightarrow> q_forward1 now i q = q_mark i StatusWaiting now
     (q\<lparr>q_delayed := zset_rem i (q_delayed q), q_waiting := i # q_waiting q\<rparr>)"
  by (simp add: q_forward1_def)

lemma q_pop_skip:
  assumes "q_waiting q = ws @ [i]" and "q_msgs q i = None"
  shows "q_pop now deadline q = q_pop now deadline (q\<lparr>q_waiting := ws\<rparr>)"
  using assms by (simp add: q_pop_def q_mark_def split: option.split prod.split)

lemma oldest_live_Some:
  "oldest_live msgs xs = Some (i, rest) \<Longrightarrow> msgs i \<noteq> None \<and> (\<exists>dead. xs = dead @ i # rest \<and> (\<forall>x \<in> set dead. msgs x = None))"
proof (induction xs)
  case (Cons x xs)
  then show ?case
  proof (cases "msgs x")
    case None
    then obtain dead where "msgs i \<noteq> None" "xs = dead @ i # rest" "\<forall>y \<in> set dead. msgs y = None"
      using Cons by auto
    then show ?thesis using None by (intro conjI exI[of _ "x # dead"]) auto
  qed auto
qed simp

lemma oldest_live_skip:
  "\<forall>x \<in> set dead. msgs x = None \<Longrightarrow> oldest_live msgs (dead @ xs) = oldest_live msgs xs"
  by (induction dead) auto

lemma q_pop_message:
  assumes "fst (q_pop now dl q) = Some i"
  shows "\<exists>m. q_msgs q i = Some m \<and> q_msgs (snd (q_pop now dl q)) i = Some (stamp StatusReserved now m)"
  using assms oldest_live_Some[of "q_msgs q" "rev (q_waiting q)" i]
  by (auto simp: q_pop_def split: option.splits prod.splits)

lemma stamp_simps [simp]:
  "Status (stamp st now m) = st" "UpdatedAt (stamp st now m) = now" "ID (stamp st now m) = ID m"
  "Payload (stamp st now m) = Payload m" "Attempts (stamp st now m) = Attempts m"
  "MaxAttempts (stamp st now m) = MaxAttempts m" "CreatedAt (stamp st now m) = CreatedAt m"
  by (simp_all add: stamp_def)


section \<open>Reload batches\<close>

lemma q_reload_batch_length:
  "length (q_dead src (snd (q_reload_batch src skip now n c q))) = length (q_dead src q) - n"
  by (induction n arbitrary: c q) auto

lemma q_reload_batch_shrinks:
  assumes "q_reload_batch src skip now n 0 q = (k, q')" and "0 < k"
  shows "length (q_dead src q') < length (q_dead src q)"
  using assms q_reload_batch_length[of src skip now n 0 q] by (cases "q_dead src q"; cases n) auto

lemma not_stale_waiting [simp]: "\<not> stale (stamp StatusWaiting now m)"
  by (simp add: stale_def status_defs)

text \<open>A batch of entries none of which can be reloaded discards them and counts nothing.\<close>

lemma q_reload_batch_none:
  assumes "q_dead src q = young @ old" and "\<forall>i \<in> set old. \<not> reloadable skip q i"
  shows "\<exists>q'. q_reload_batch src skip now (length old) c q = (c, q') \<and> q_dead src q' = young \<and> q_msgs q' = q_msgs q"
  using assms
proof (induction old arbitrary: q rule: rev_induct)
  case Nil
  then show ?case by simp
next
  case (snoc i old)
  let ?q1 = "q_reload1 src skip now q"
  have "\<not> reloadable skip q i" "q_dead src q = (young @ old) @ [i]" using snoc.prems by auto
  then have q1: "q_dead src ?q1 = young @ old" "q_msgs ?q1 = q_msgs q" by (simp_all add: q_reload1_def butlast_append)
  moreover have "\<forall>j \<in> set old. \<not> reloadable skip ?q1 j"
    using snoc.prems(2) q1(2) by (simp add: reloadable_def)
  ultimately show ?case using snoc.IH[of ?q1] \<open>\<not> reloadable skip q i\<close> snoc.prems(1) by simp
qed

end
