(* ===== verification/Backoff.thy ===== *)
theory Backoff
  imports Go_Prelude
begin

text \<open>
  Exponential backoff (\<^verbatim>\<open>pkg/queue/backoff.go\<close>).  Durations are \<^verbatim>\<open>int64\<close> nanoseconds; the doubling is
  the only arithmetic that can leave the range and is wrapped.
\<close>

abbreviation second_ns :: int where
  "second_ns \<equiv> 1000000000"

record backoff =
  b_initial :: int
  b_max :: int
  b_current :: int

definition newBackoff :: "int \<Rightarrow> int \<Rightarrow> backoff" where
  "newBackoff initial mx =
     (let initial = (if initial \<le> 0 then second_ns else initial);
          mx = (if mx \<le> 0 \<or> mx < initial then initial else mx)
      in \<lparr>b_initial = initial, b_max = mx, b_current = initial\<rparr>)"

text \<open>The methods accept a nil receiver.\<close>

fun Current :: "backoff option \<Rightarrow> int" where
  "Current None = 0" | "Current (Some b) = b_current b"

definition Advance :: "backoff \<Rightarrow> backoff" where
  "Advance b =
     (if b_current b \<le> 0 then b\<lparr>b_current := b_max b\<rparr>
      else let next = int64 (b_current b * 2);
               next = (if next > b_max b then b_max b else next)
           in b\<lparr>b_current := next\<rparr>)"

definition Reset :: "backoff \<Rightarrow> backoff" where
  "Reset b = b\<lparr>b_current := b_initial b\<rparr>"


section \<open>Invariant and growth\<close>

definition backoff_ok :: "backoff \<Rightarrow> bool" where
  "backoff_ok b \<longleftrightarrow> 0 < b_initial b \<and> b_initial b \<le> b_current b \<and> b_current b \<le> b_max b \<and> b_max b < 2 ^ 62"

lemma newBackoff_ok:
  assumes "initial < 2 ^ 62" and "mx < 2 ^ 62"
  shows "backoff_ok (newBackoff initial mx)"
  using assms by (auto simp: backoff_ok_def newBackoff_def Let_def)

lemma Advance_double:
  assumes "backoff_ok b"
  shows "Advance b = b\<lparr>b_current := min (2 * b_current b) (b_max b)\<rparr>"
proof -
  have "in_int64 (b_current b * 2)" using assms by (auto simp: backoff_ok_def in_int64_def)
  then show ?thesis using assms by (auto simp: Advance_def backoff_ok_def Let_def min_def mult.commute)
qed

lemma Advance_ok: "backoff_ok b \<Longrightarrow> backoff_ok (Advance b)"
  by (auto simp: Advance_double) (auto simp: backoff_ok_def)

lemma Reset_ok: "backoff_ok b \<Longrightarrow> backoff_ok (Reset b)"
  by (auto simp: Reset_def backoff_ok_def)

lemma backoff_frame [simp]:
  "b_max (Advance b) = b_max b" "b_initial (Advance b) = b_initial b"
  "b_max (Reset b) = b_max b" "b_initial (Reset b) = b_initial b"
  by (simp_all add: Advance_def Reset_def Let_def)

lemma Advance_power:
  assumes "backoff_ok b"
  shows "(Advance ^^ n) b = b\<lparr>b_current := min (b_current b * 2 ^ n) (b_max b)\<rparr>"
proof (induction n)
  case 0
  then show ?case using assms by (cases b) (simp add: backoff_ok_def)
next
  case (Suc n)
  have "1 \<le> (2 :: int) ^ n" by simp
  then have "b_current b * 1 \<le> b_current b * 2 ^ n"
    using assms by (intro mult_left_mono) (auto simp: backoff_ok_def)
  then have "b_initial b \<le> b_current b * 2 ^ n" using assms unfolding backoff_ok_def by linarith
  then have "backoff_ok ((Advance ^^ n) b)" using Suc assms by (auto simp: backoff_ok_def)
  then show ?case using Suc assms by (auto simp: Advance_double backoff_ok_def)
qed

text \<open>The \<open>n\<close>-th consecutive failure waits the initial delay doubled \<open>n\<close> times, capped at the
  maximum, for every positive initial delay and every maximum between it and \<open>2\<^sup>6\<^sup>2\<close> nanoseconds
  (146 years), and a success starts again from the initial delay.\<close>

theorem backoff_doubles:
  assumes "0 < initial" and "initial \<le> mx" and "mx < 2 ^ 62"
  shows "Current (Some ((Advance ^^ n) (newBackoff initial mx))) = min (initial * 2 ^ n) mx \<and>
    Current (Some (Reset ((Advance ^^ n) (newBackoff initial mx)))) = initial"
proof -
  have ok: "backoff_ok (newBackoff initial mx)" using assms by (intro newBackoff_ok) auto
  have "newBackoff initial mx = \<lparr>b_initial = initial, b_max = mx, b_current = initial\<rparr>"
    using assms by (simp add: newBackoff_def)
  then show ?thesis using Advance_power[OF ok, of n] by (simp add: Reset_def)
qed

theorem backoff_doubles_witness:
  "Current (Some ((Advance ^^ 5) (newBackoff (2 * second_ns) (30 * second_ns)))) = 30 * second_ns"
  using backoff_doubles[of "2 * second_ns" "30 * second_ns" 5] by simp

text \<open>Beyond that bound the doubling overflows: with an initial delay of \<open>2\<^sup>6\<^sup>2\<close> nanoseconds and the
  largest maximum, the first failure makes the next delay negative, so the caller retries at
  once.\<close>

theorem backoff_overflows:
  "Current (Some (Advance (newBackoff (2 ^ 62) (2 ^ 63 - 1)))) = - (2 ^ 63)"
  by (simp add: newBackoff_def Advance_def int64_def)

end
