(* ===== verification/Driver.thy ===== *)
theory Driver
  imports Queue_Spec Backoff
begin

text \<open>
  The backend interface (\<^verbatim>\<open>pkg/queue/driver.go\<close>): the \<^verbatim>\<open>Driver\<close> methods as a record of operations on
  a world \<open>'w\<close>, and the contract its clients (consumer, forwarder, queue) rely on, the locale
  \<open>queue_driver\<close>.  \<open>Driver_Refinement\<close> proves that the Redis driver meets it.
\<close>

section \<open>The interface\<close>

record Info =
  i_Waiting :: int
  i_Reserved :: int
  i_Delayed :: int
  i_Timeout :: int
  i_Failed :: int

definition ErrMessageAlreadyReadyForDispatch :: error where
  "ErrMessageAlreadyReadyForDispatch = ErrText ''message already ready for dispatch and cannot be canceled''"

definition ErrMessageAlreadyInExecution :: error where
  "ErrMessageAlreadyInExecution = ErrText ''message is already in execution and cannot be canceled''"

text \<open>One field per method.  \<^verbatim>\<open>Push\<close> also returns the caller's message, which it modifies; a method
  that may loop returns an option.  The context argument of \<^verbatim>\<open>Pop\<close> is the error of the context, if it
  ends while \<^verbatim>\<open>Pop\<close> waits.\<close>

record 'w driver =
  D_Ping :: "'w \<Rightarrow> (error + unit) \<times> 'w"
  D_Info :: "string \<Rightarrow> 'w \<Rightarrow> (error + Info) \<times> 'w"
  D_Push :: "string \<Rightarrow> Message option \<Rightarrow> int \<Rightarrow> int \<Rightarrow> 'w \<Rightarrow> (error + unit) \<times> Message option \<times> 'w"
  D_Pop :: "string \<Rightarrow> int \<Rightarrow> int \<Rightarrow> error option \<Rightarrow> 'w \<Rightarrow> ((error + string \<times> Message option) \<times> 'w) option"
  D_Get :: "string \<Rightarrow> string \<Rightarrow> 'w \<Rightarrow> (error + Message) \<times> 'w"
  D_Cancel :: "string \<Rightarrow> string \<Rightarrow> 'w \<Rightarrow> (error + bool) \<times> 'w"
  D_Ack :: "string \<Rightarrow> string \<Rightarrow> 'w \<Rightarrow> (error + unit) \<times> 'w"
  D_Requeue :: "string \<Rightarrow> string \<Rightarrow> 'w \<Rightarrow> (error + unit) \<times> 'w"
  D_Retry :: "string \<Rightarrow> string \<Rightarrow> int \<Rightarrow> 'w \<Rightarrow> (error + bool) \<times> 'w"
  D_Drop :: "string \<Rightarrow> string \<Rightarrow> 'w \<Rightarrow> (error + unit) \<times> 'w"
  D_Fail :: "string \<Rightarrow> string \<Rightarrow> 'w \<Rightarrow> (error + unit) \<times> 'w"
  D_ForwardMessages :: "string \<Rightarrow> 'w \<Rightarrow> (int \<times> int \<times> error option) \<times> 'w"
  D_Reload :: "string \<Rightarrow> string \<Rightarrow> 'w \<Rightarrow> ((int \<times> error option) \<times> 'w) option"
  D_Flush :: "string \<Rightarrow> string \<Rightarrow> 'w \<Rightarrow> (error + unit) \<times> 'w"


section \<open>The contract\<close>

text \<open>A commit method applied its transition \<open>f\<close>; when it reports an error it may or may not have.\<close>

definition committed :: "(qstate \<Rightarrow> qstate) \<Rightarrow> qstate \<Rightarrow> error + unit \<Rightarrow> qstate \<Rightarrow> bool" where
  "committed f q r q' \<longleftrightarrow> (case r of Inr _ \<Rightarrow> q' = f q | Inl _ \<Rightarrow> q' = q \<or> q' = f q)"

text \<open>The entity \<^verbatim>\<open>Retry\<close> writes back for a loaded message.\<close>

definition retried :: "int \<Rightarrow> int \<Rightarrow> Message \<Rightarrow> Message" where
  "retried wall delay m =
     (let m1 = SetStatus wall (if delay \<le> 0 then StatusWaiting else StatusDelayed) m
      in if Attempts m1 < MaxAttempts m1 then m1\<lparr>Attempts := Attempts m1 + 1\<rparr> else m1)"

definition retry_mode :: "int \<Rightarrow> string" where
  "retry_mode delay = (if delay \<le> 0 then ''waiting'' else ''delayed'')"

text \<open>A retry of \<open>i\<close> with a delay moved it from \<open>q\<close> to \<open>q'\<close>; the entity written back derives from
  the one read earlier, in \<open>q0\<close>.\<close>

definition q_moved :: "string \<Rightarrow> int \<Rightarrow> qstate \<Rightarrow> qstate \<Rightarrow> qstate \<Rightarrow> bool" where
  "q_moved i delay q0 q q' \<longleftrightarrow> (\<exists>m wall score. q_msgs q0 i = Some m \<and>
     q_retry i (retried wall delay (fill_defaults wall m)) (retry_mode delay) score q = (True, q'))"

definition retry_commit :: "string \<Rightarrow> int \<Rightarrow> qstate \<Rightarrow> qstate \<Rightarrow> error + bool \<Rightarrow> qstate \<Rightarrow> bool" where
  "retry_commit i delay q0 q r q' \<longleftrightarrow> (case r of
      Inr True \<Rightarrow> q_moved i delay q0 q q'
    | Inr False \<Rightarrow> q' = q
    | Inl _ \<Rightarrow> q' = q \<or> q_moved i delay q0 q q')"

text \<open>A claim of \<open>i\<close>: it was the oldest live waiting id, and \<open>m\<close> is its entity, stamped and with the
  decoder's defaults.\<close>

definition q_claimed :: "string \<Rightarrow> Message \<Rightarrow> int \<Rightarrow> qstate \<Rightarrow> qstate \<Rightarrow> bool" where
  "q_claimed i m now q q' \<longleftrightarrow> (\<exists>dl wall m0. q_pop now dl q = (Some i, q') \<and> q_msgs q i = Some m0 \<and>
     m = fill_defaults wall (stamp StatusReserved now m0))"

text \<open>What a poll may have done to the queue: nothing, the claim of the oldest live message (whether or
  not it is returned), or that claim withdrawn again.\<close>

definition q_polled :: "int \<Rightarrow> qstate \<Rightarrow> qstate \<Rightarrow> bool" where
  "q_polled now q q' \<longleftrightarrow> (\<exists>dl. q' = q \<or> q' = snd (q_pop now dl q) \<or>
     (\<exists>i. fst (q_pop now dl q) = Some i \<and> q' = q_unreserve i (snd (q_pop now dl q))))"

text \<open>A round of forwarding: due delayed messages, then expired reservations; after an error it may have stopped before either.\<close>

definition q_forwarded :: "int \<Rightarrow> error option \<Rightarrow> qstate \<Rightarrow> qstate \<Rightarrow> bool" where
  "q_forwarded now e q q' \<longleftrightarrow> (let q1 = q_forward (now + 1) q; q2 = q_expire now q1
     in if e = None then q' = q2 else q' \<in> {q, q1, q2})"

text \<open>What the clients of a driver rely on.  \<open>before\<close> and \<open>after\<close> observe a channel as the next call
  finds it and as the last one left it, \<open>wf\<close> is the driver's data invariant, \<open>clk\<close> its clock in
  seconds, and a \<open>calm\<close> world has no other client.\<close>

locale queue_driver =
  fixes D :: "'w driver"
    and wf :: "string \<Rightarrow> 'w \<Rightarrow> bool"
    and clk :: "'w \<Rightarrow> int"
    and before :: "string \<Rightarrow> 'w \<Rightarrow> qstate"
    and after :: "string \<Rightarrow> 'w \<Rightarrow> qstate"
    and calm :: "'w \<Rightarrow> bool"
  assumes calm_before: "calm w \<Longrightarrow> before ch w = after ch w"
    and Ack_law: "wf ch w \<Longrightarrow> D_Ack D ch i w = (r, w') \<Longrightarrow>
          wf ch w' \<and> (calm w \<longrightarrow> calm w') \<and> committed (q_ack i (clk w)) (before ch w) r (after ch w')"
    and Drop_law: "wf ch w \<Longrightarrow> D_Drop D ch i w = (r, w') \<Longrightarrow>
          wf ch w' \<and> (calm w \<longrightarrow> calm w') \<and> committed (q_drop i (clk w)) (before ch w) r (after ch w')"
    and Fail_law: "wf ch w \<Longrightarrow> D_Fail D ch i w = (r, w') \<Longrightarrow>
          wf ch w' \<and> (calm w \<longrightarrow> calm w') \<and> committed (q_fail i (clk w)) (before ch w) r (after ch w')"
    and Requeue_law: "wf ch w \<Longrightarrow> D_Requeue D ch i w = (r, w') \<Longrightarrow>
          wf ch w' \<and> (calm w \<longrightarrow> calm w') \<and> committed (q_requeue i (clk w)) (before ch w) r (after ch w')"
    and Retry_law: "wf ch w \<Longrightarrow> D_Retry D ch i d w = (b, w') \<Longrightarrow>
          wf ch w' \<and> (calm w \<longrightarrow> calm w') \<and>
          (\<exists>q. (calm w \<longrightarrow> q = before ch w) \<and> retry_commit i d (before ch w) q b (after ch w'))"
    and Pop_law: "wf ch w \<Longrightarrow> \<exists>p w'. D_Pop D ch pt ht ctx w = Some (p, w') \<and> wf ch w' \<and> (calm w \<longrightarrow> calm w') \<and>
          (calm w \<longrightarrow> q_polled (clk w) (before ch w) (after ch w')) \<and>
          (\<forall>i m. p = Inr (i, Some m) \<longrightarrow> i \<noteq> '''' \<and> (\<exists>dl. fst (q_pop (clk w) dl (before ch w)) = Some i) \<and>
             (calm w \<longrightarrow> q_claimed i m (clk w) (before ch w) (after ch w')))"
    and Forward_law: "wf ch w \<Longrightarrow> D_ForwardMessages D ch w = ((d, t, e), w') \<Longrightarrow>
          wf ch w' \<and> (calm w \<longrightarrow> calm w') \<and> 0 \<le> d \<and> 0 \<le> t \<and>
          (calm w \<longrightarrow> q_forwarded (clk w) e (before ch w) (after ch w'))"

end
