(* ===== verification/Redis_Driver.thy ===== *)
theory Redis_Driver
  imports Lua_Scripts Keys Md5 Driver
begin

text \<open>
  The Redis driver (\<^verbatim>\<open>pkg/queue/redis_driver.go\<close>, \<^verbatim>\<open>driver.go\<close>): every method of \<^verbatim>\<open>RedisDriver\<close>, over the
  server parameter \<open>R\<close> and a \<open>world\<close> that also carries the environment, namely what becomes of
  each client call (delivered, refused, or executed with its reply lost), what other clients do to
  the database before it, and the clock readings.
  A method maps the world to its result (\<open>Inl\<close> the returned error) and the new world.
\<close>

section \<open>The environment\<close>

text \<open>The outcome of one call of the Redis client (\<^verbatim>\<open>go-redis\<close>).  A call that fails carries no value.  That the client may resend a command on
  its own after a lost reply (\<^verbatim>\<open>MaxRetries\<close>) is not modelled.\<close>

datatype fault =
    Delivered
  | Refused error      \<comment> \<open>the call failed and was not executed\<close>
  | ReplyLost error    \<comment> \<open>the server executed it, the client saw an error\<close>

record 's world =
  w_db :: 's
  w_env :: "nat \<Rightarrow> 's \<Rightarrow> 's"    \<comment> \<open>what other clients and the passing of time do before a call\<close>
  w_tick :: nat               \<comment> \<open>client calls made so far\<close>
  w_net :: "nat \<Rightarrow> fault"
  w_wall :: "nat \<Rightarrow> int"       \<comment> \<open>\<^verbatim>\<open>time.Now().Unix()\<close>\<close>
  w_clock :: "nat \<Rightarrow> int"      \<comment> \<open>\<^verbatim>\<open>d.clock.Now()\<close>, nanoseconds\<close>

definition wall_now :: "'s world \<Rightarrow> int" where
  "wall_now w = w_wall w (w_tick w)"

definition clock_now :: "'s world \<Rightarrow> int" where
  "clock_now w = w_clock w (w_tick w)"

text \<open>\<^verbatim>\<open>time.Time.Unix()\<close>.\<close>

definition Unix :: "int \<Rightarrow> int" where
  "Unix t = t div 10 ^ 9"

text \<open>The database the next call meets.\<close>

definition db_at :: "'s world \<Rightarrow> 's" where
  "db_at w = w_env w (w_tick w) (w_db w)"

definition client_call :: "('s \<Rightarrow> (error + 'a) \<times> 's) \<Rightarrow> 's world \<Rightarrow> (error + 'a) \<times> 's world" where
  "client_call f w =
     (let w1 = w\<lparr>w_tick := Suc (w_tick w), w_db := db_at w\<rparr> in
      case w_net w (w_tick w) of
        Delivered \<Rightarrow> (case f (db_at w) of (r, s) \<Rightarrow> (r, w1\<lparr>w_db := s\<rparr>))
      | Refused e \<Rightarrow> (Inl e, w1)
      | ReplyLost e \<Rightarrow> (Inl e, w1\<lparr>w_db := snd (f (db_at w))\<rparr>))"

text \<open>The same for a script that need not return.\<close>

definition client_call_opt :: "('s \<Rightarrow> ((error + 'a) \<times> 's) option) \<Rightarrow> 's world \<Rightarrow> ((error + 'a) \<times> 's world) option" where
  "client_call_opt f w =
     (let w1 = w\<lparr>w_tick := Suc (w_tick w), w_db := db_at w\<rparr> in
      case w_net w (w_tick w) of
        Delivered \<Rightarrow> (case f (db_at w) of None \<Rightarrow> None | Some (r, s) \<Rightarrow> Some (r, w1\<lparr>w_db := s\<rparr>))
      | Refused e \<Rightarrow> Some (Inl e, w1)
      | ReplyLost e \<Rightarrow> (case f (db_at w) of None \<Rightarrow> None | Some (_, s) \<Rightarrow> Some (Inl e, w1\<lparr>w_db := s\<rparr>)))"


section \<open>Replies, keys, identifiers\<close>

text \<open>The dynamic type of a script reply, as the two conversion helpers distinguish it.\<close>

datatype reply = ReplyInt int | ReplyString string | ReplyOther

definition asBoolResult :: "reply \<Rightarrow> bool" where
  "asBoolResult v = (case v of
      ReplyInt t \<Rightarrow> t \<noteq> 0
    | ReplyString t \<Rightarrow> t \<noteq> '''' \<and> t \<noteq> ''0''
    | ReplyOther \<Rightarrow> False)"

text \<open>\<^verbatim>\<open>n, _ := strconv.Atoi(t)\<close>: zero for a syntax error, the nearest bound out of range.\<close>

definition Atoi :: "string \<Rightarrow> int" where
  "Atoi t =
     (let body = (if t \<noteq> [] \<and> (hd t = CHR ''-'' \<or> hd t = CHR ''+'') then tl t else t);
          n = (if t \<noteq> [] \<and> hd t = CHR ''-'' then - int (read_nat body) else int (read_nat body))
      in if body = [] \<or> (\<exists>c \<in> set body. \<not> is_digit c) then 0
         else max (- (2 ^ 63)) (min (2 ^ 63 - 1) n))"

definition asIntResult :: "reply \<Rightarrow> int" where
  "asIntResult v = (case v of
      ReplyInt t \<Rightarrow> t
    | ReplyString t \<Rightarrow> Atoi t
    | ReplyOther \<Rightarrow> 0)"

text \<open>Construction: the clock (here a value of any type \<open>'c\<close>, with \<open>real\<close> the system clock) is the last
  one injected by a non-nil option, and the key cache (a \<^verbatim>\<open>sync.Map\<close> from channel to key names) is
  empty.  The clock readings and the backend are in the \<open>world\<close>.\<close>

record 'c RedisDriver =
  rd_clock :: 'c
  rd_keyCache :: "string \<rightharpoonup> Keys"

definition defaultRedisDriverOptions :: "'c \<Rightarrow> 'c" where
  "defaultRedisDriverOptions real = real"

definition WithRedisDriverClock :: "'c option \<Rightarrow> 'c \<Rightarrow> 'c" where
  "WithRedisDriverClock c o_clock = (case c of None \<Rightarrow> o_clock | Some c \<Rightarrow> c)"

definition NewRedisDriver :: "'c \<Rightarrow> ('c \<Rightarrow> 'c) option list \<Rightarrow> 'c RedisDriver" where
  "NewRedisDriver real opts =
     \<lparr>rd_clock = fold (\<lambda>opt c. case opt of None \<Rightarrow> c | Some f \<Rightarrow> f c) opts (defaultRedisDriverOptions real),
      rd_keyCache = Map.empty\<rparr>"

text \<open>The methods below name the keys of a channel by \<open>NewKeys\<close>; \<open>getKeys_cached\<close> shows that the cache
  never holds anything else.\<close>

definition getKeys :: "(string \<rightharpoonup> Keys) \<Rightarrow> string \<Rightarrow> Keys \<times> (string \<rightharpoonup> Keys)" where
  "getKeys cache channel = (case cache channel of
      Some k \<Rightarrow> (k, cache)
    | None \<Rightarrow> (NewKeys channel, cache(channel \<mapsto> NewKeys channel)))"

definition cache_ok :: "(string \<rightharpoonup> Keys) \<Rightarrow> bool" where
  "cache_ok cache \<longleftrightarrow> (\<forall>ch k. cache ch = Some k \<longrightarrow> k = NewKeys ch)"

lemma NewRedisDriver_cache: "cache_ok (rd_keyCache (NewRedisDriver real opts))"
  by (simp add: NewRedisDriver_def cache_ok_def)

lemma getKeys_cached:
  assumes "cache_ok cache"
  shows "fst (getKeys cache ch) = NewKeys ch" "cache_ok (snd (getKeys cache ch))"
  using assms by (auto simp: getKeys_def cache_ok_def split: option.splits)

definition maxMessageSequence :: int where
  "maxMessageSequence = 999999999999"

definition GenerateID :: "'s redis \<Rightarrow> string \<Rightarrow> 's world \<Rightarrow> (error + string) \<times> 's world" where
  "GenerateID R channel w =
     (let keys = NewKeys channel in
      case client_call (nextSeqScript R (k_SequenceKey keys) (k_SequenceEpoch keys) maxMessageSequence) w of
        (Inl err, w1) \<Rightarrow> (Inl err, w1)
      | (Inr (seqStr, epochStr), w1) \<Rightarrow>
          (Inr (md5_hex (k_Channel keys @ '':'' @ epochStr @ '':'' @ seqStr)), w1))"


section \<open>Producer operations\<close>

definition Ping :: "'s world \<Rightarrow> (error + unit) \<times> 's world" where
  "Ping w = client_call (\<lambda>s. (Inr (), s)) w"

text \<open>\<^verbatim>\<open>Push\<close> fills in the id and the status of the caller's message, which it returns too.\<close>

definition Push :: "'s redis \<Rightarrow> string \<Rightarrow> Message option \<Rightarrow> int \<Rightarrow> int \<Rightarrow> 's world
    \<Rightarrow> (error + unit) \<times> Message option \<times> 's world" where
  "Push R channel mp delaySeconds messageTTL w = (case mp of
      None \<Rightarrow> (Inl (ErrText ''message is nil''), None, w)
    | Some m \<Rightarrow>
        (let messageTTL = (if messageTTL < 0 then 0 else messageTTL);
             keys = NewKeys channel
         in case GenerateID R channel w of
              (Inl err, w1) \<Rightarrow> (Inl err, Some m, w1)
            | (Inr i, w1) \<Rightarrow>
                (let m1 = m\<lparr>ID := i\<rparr>;
                     (mode, score, m2) =
                       (if delaySeconds = 0 then (''waiting'', 0, SetStatus (wall_now w1) StatusWaiting m1)
                        else (''delayed'', int64 (Unix (clock_now w1) + delaySeconds),
                              SetStatus (wall_now w1) StatusDelayed m1))
                 in case Encode m2 of
                      Inl err \<Rightarrow> (Inl err, Some m2, w1)
                    | Inr raw \<Rightarrow>
                        (case client_call (pushScript R (k_Waiting keys) (k_Delayed keys) (Keys_Message keys (ID m2))
                                 (ID m2) raw mode score messageTTL) w1 of
                           (Inl err, w2) \<Rightarrow> (Inl err, Some m2, w2)
                         | (Inr _, w2) \<Rightarrow> (Inr (), Some m2, w2)))))"

definition loadMessage :: "'s redis \<Rightarrow> string \<Rightarrow> string \<Rightarrow> 's world \<Rightarrow> (error + Message) \<times> 's world" where
  "loadMessage R channel messageID w =
     (let keys = NewKeys channel in
      case client_call (\<lambda>s. (case GET R (Keys_Message keys messageID) s of
                               None \<Rightarrow> Inl ErrRedisNil | Some raw \<Rightarrow> Inr raw, s)) w of
        (Inl err, w1) \<Rightarrow> (Inl err, w1)
      | (Inr raw, w1) \<Rightarrow> (DecodeMessage (wall_now w1) raw, w1))"

definition Get :: "'s redis \<Rightarrow> string \<Rightarrow> string \<Rightarrow> 's world \<Rightarrow> (error + Message) \<times> 's world" where
  "Get R channel messageID w =
     (if messageID = '''' then (Inl (ErrText ''id is empty''), w) else loadMessage R channel messageID w)"

definition Cancel :: "'s redis \<Rightarrow> string \<Rightarrow> string \<Rightarrow> 's world \<Rightarrow> (error + bool) \<times> 's world" where
  "Cancel R channel messageID w =
     (if messageID = '''' then (Inl (ErrText ''id is empty''), w)
      else let keys = NewKeys channel in
        case client_call (cancelByIDScript R (k_Waiting keys) (k_Reserved keys) (k_Delayed keys)
                 (Keys_Message keys messageID) messageID (Unix (clock_now w))) w of
          (Inl err, w1) \<Rightarrow> (Inl err, w1)
        | (Inr res, w1) \<Rightarrow>
            (let code = asIntResult (ReplyInt res) in
             (if code = 1 then Inr True
              else if code = 0 then Inr False
              else if code = -1 then Inl ErrMessageAlreadyReadyForDispatch
              else if code = -2 then Inl ErrMessageAlreadyInExecution
              else Inl (ErrText (''queue: unexpected cancel script result: '' @ show_int code)), w1)))"


section \<open>Consumer operations\<close>

definition Retry :: "'s redis \<Rightarrow> string \<Rightarrow> string \<Rightarrow> int \<Rightarrow> 's world \<Rightarrow> (error + bool) \<times> 's world" where
  "Retry R channel messageID delaySeconds w =
     (if messageID = '''' then (Inl (ErrText ''id is empty''), w)
      else let keys = NewKeys channel in
        case loadMessage R channel messageID w of
          (Inl err, w1) \<Rightarrow> (if errors_Is err ErrRedisNil then Inr False else Inl err, w1)
        | (Inr msg, w1) \<Rightarrow>
            (let msg1 = (if delaySeconds \<le> 0 then SetStatus (wall_now w1) StatusWaiting msg
                         else SetStatus (wall_now w1) StatusDelayed msg);
                 msg2 = (if Attempts msg1 < MaxAttempts msg1
                         then msg1\<lparr>Attempts := int64 (Attempts msg1 + 1)\<rparr> else msg1)
             in case Encode msg2 of
                  Inl err \<Rightarrow> (Inl err, w1)
                | Inr raw \<Rightarrow>
                    (let score = int64 (Unix (clock_now w1) + delaySeconds);
                         mode = (if delaySeconds \<le> 0 then ''waiting'' else ''delayed'')
                     in case client_call (retryByIDScript R (k_Waiting keys) (k_Reserved keys) (k_Delayed keys)
                               (k_Timeout keys) (k_Failed keys) (Keys_Message keys messageID)
                               messageID score raw mode) w1 of
                          (Inl err, w2) \<Rightarrow> (Inl err, w2)
                        | (Inr res, w2) \<Rightarrow> (Inr (asBoolResult (ReplyInt res)), w2))))"

definition Ack :: "'s redis \<Rightarrow> string \<Rightarrow> string \<Rightarrow> 's world \<Rightarrow> (error + unit) \<times> 's world" where
  "Ack R channel messageID w =
     (let keys = NewKeys channel in
      case client_call (ackScript R (k_Reserved keys) (Keys_Message keys messageID) messageID
             (Unix (clock_now w))) w of
        (Inl err, w1) \<Rightarrow> (Inl err, w1) | (Inr _, w1) \<Rightarrow> (Inr (), w1))"

definition Fail :: "'s redis \<Rightarrow> string \<Rightarrow> string \<Rightarrow> 's world \<Rightarrow> (error + unit) \<times> 's world" where
  "Fail R channel messageID w =
     (let keys = NewKeys channel in
      case client_call (failScript R (k_Reserved keys) (k_Failed keys) (Keys_Message keys messageID) messageID
             (Unix (clock_now w))) w of
        (Inl err, w1) \<Rightarrow> (Inl err, w1) | (Inr _, w1) \<Rightarrow> (Inr (), w1))"

definition Drop :: "'s redis \<Rightarrow> string \<Rightarrow> string \<Rightarrow> 's world \<Rightarrow> (error + unit) \<times> 's world" where
  "Drop R channel messageID w =
     (let keys = NewKeys channel in
      case client_call (dropScript R (k_Reserved keys) (Keys_Message keys messageID) messageID
             (Unix (clock_now w))) w of
        (Inl err, w1) \<Rightarrow> (Inl err, w1) | (Inr _, w1) \<Rightarrow> (Inr (), w1))"

definition Requeue :: "'s redis \<Rightarrow> string \<Rightarrow> string \<Rightarrow> 's world \<Rightarrow> (error + unit) \<times> 's world" where
  "Requeue R channel messageID w =
     (let keys = NewKeys channel in
      case client_call (requeueScript R (k_Reserved keys) (k_Waiting keys) (Keys_Message keys messageID) messageID
             (Unix (clock_now w))) w of
        (Inl err, w1) \<Rightarrow> (Inl err, w1) | (Inr _, w1) \<Rightarrow> (Inr (), w1))"

text \<open>\<^verbatim>\<open>Pop\<close>.  \<open>Inr ('''', None)\<close> is the return \<^verbatim>\<open>("", nil, nil)\<close>; \<open>ctxErr\<close> is the context's error if the
  context ends before the poll timer does; how long the timer runs (\<open>popTimeout\<close>, one second if not
  positive) does not matter to the result.  The client's result value is nil whenever the call
  failed, so the first test also catches every error.\<close>

definition Pop :: "'s redis \<Rightarrow> string \<Rightarrow> int \<Rightarrow> int \<Rightarrow> error option \<Rightarrow> 's world
    \<Rightarrow> ((error + string \<times> Message option) \<times> 's world) option" where
  "Pop R channel popTimeout handleTimeout ctxErr w =
     (let handleTimeout = (if handleTimeout \<le> 0 then 10 * second_ns else handleTimeout);
          keys = NewKeys channel;
          nowTs = clock_now w;
          now = Unix nowTs;
          deadline = Unix (nowTs + handleTimeout)
      in case client_call_opt (popScript R (k_Waiting keys) (k_Reserved keys) (k_MessagePrefix keys) now deadline) w of
           None \<Rightarrow> None
         | Some (r, w1) \<Rightarrow>
             (let res = (case r of Inl _ \<Rightarrow> None | Inr v \<Rightarrow> v);
                  err = (case r of Inl e \<Rightarrow> Some e | Inr None \<Rightarrow> Some ErrRedisNil | Inr (Some _) \<Rightarrow> None)
              in if (case err of Some e \<Rightarrow> errors_Is e ErrRedisNil | None \<Rightarrow> False) \<or> res = None
                 then Some (case ctxErr of Some e \<Rightarrow> Inl e | None \<Rightarrow> Inr ('''', None), w1)
                 else case err of Some e \<Rightarrow> Some (Inl e, w1)
                 | None \<Rightarrow>
                     (case res of None \<Rightarrow> Some (Inr ('''', None), w1)
                      | Some i \<Rightarrow>
                          (if i = '''' then Some (Inr ('''', None), w1)
                           else case loadMessage R channel i w1 of
                                  (Inl err, w2) \<Rightarrow>
                                    (if errors_Is err ErrRedisNil
                                     then Some (Inr ('''', None),
                                            snd (client_call (\<lambda>s. (Inr (), snd (ZREM R (k_Reserved keys) i s))) w2))
                                     else Some (Inl err, w2))
                                | (Inr msg, w2) \<Rightarrow> Some (Inr (i, Some msg), w2)))))"


section \<open>Forwarding and management\<close>

definition ForwardMessages :: "'s redis \<Rightarrow> string \<Rightarrow> 's world \<Rightarrow> (int \<times> int \<times> error option) \<times> 's world" where
  "ForwardMessages R channel w =
     (let keys = NewKeys channel;
          now = Unix (clock_now w)
      in case client_call (moveScript R (k_Delayed keys) (k_Waiting keys) (k_MessagePrefix keys)
                (now + 1) StatusWaiting) w of
           (Inl err, w1) \<Rightarrow> ((0, 0, Some err), w1)
         | (Inr forwardedDelayed, w1) \<Rightarrow>
             (case client_call (moveTimeoutScript R (k_Reserved keys) (k_Timeout keys) (k_MessagePrefix keys) now) w1 of
                (Inl err, w2) \<Rightarrow> ((forwardedDelayed, 0, Some err), w2)
              | (Inr forwardedTimeout, w2) \<Rightarrow> ((forwardedDelayed, forwardedTimeout, None), w2)))"

text \<open>\<^verbatim>\<open>Reload\<close>: the source bucket and the staleness flag, then the loop, which need not return.\<close>

definition reload_source :: "Keys \<Rightarrow> string \<Rightarrow> error + string \<times> string" where
  "reload_source keys queue =
     (if queue \<noteq> ''''
      then if queue \<noteq> ''timeout'' \<and> queue \<noteq> ''failed''
           then Inl (ErrText (''queue '' @ queue @ '' is not supported''))
           else (case Keys_Get keys queue of
                   Inl _ \<Rightarrow> Inr ('''', if queue = ''timeout'' then ''1'' else ''0'')
                 | Inr k \<Rightarrow> Inr (k, if queue = ''timeout'' then ''1'' else ''0''))
      else Inr (k_Failed keys, ''0''))"

partial_function (option) reload_all :: "'s redis \<Rightarrow> Keys \<Rightarrow> string \<Rightarrow> string \<Rightarrow> int \<Rightarrow> 's world
    \<Rightarrow> ((int \<times> error option) \<times> 's world) option" where
  "reload_all R keys source skip totalMoved w =
     (case client_call (reloadScript R source (k_Waiting keys) (k_MessagePrefix keys) (Unix (clock_now w)) skip) w of
        (r, w1) \<Rightarrow>
          (case r of
             Inl err \<Rightarrow> Some ((totalMoved, Some err), w1)
           | Inr res \<Rightarrow>
               (if asIntResult (ReplyInt res) \<le> 0 then Some ((totalMoved, None), w1)
                else reload_all R keys source skip (totalMoved + asIntResult (ReplyInt res)) w1)))"

definition Reload :: "'s redis \<Rightarrow> string \<Rightarrow> string \<Rightarrow> 's world \<Rightarrow> ((int \<times> error option) \<times> 's world) option" where
  "Reload R channel queue w =
     (let keys = NewKeys channel in
      case reload_source keys queue of
        Inl err \<Rightarrow> Some ((0, Some err), w)
      | Inr (source, skip) \<Rightarrow> reload_all R keys source skip 0 w)"

definition Flush :: "'s redis \<Rightarrow> string \<Rightarrow> string \<Rightarrow> 's world \<Rightarrow> (error + unit) \<times> 's world" where
  "Flush R channel queue w =
     (let keys = NewKeys channel in
      case (if queue \<noteq> '''' then Keys_Get keys queue else Inr (k_Failed keys)) of
        Inl err \<Rightarrow> (Inl err, w)
      | Inr key \<Rightarrow> client_call (\<lambda>s. (Inr (), DEL R key s)) w)"

definition Driver_Info :: "'s redis \<Rightarrow> string \<Rightarrow> 's world \<Rightarrow> (error + Info) \<times> 's world" where
  "Driver_Info R channel w =
     (let keys = NewKeys channel in
      case client_call (\<lambda>s. (Inr (LLEN R (k_Waiting keys) s), s)) w of
        (Inl err, w1) \<Rightarrow> (Inl err, w1)
      | (Inr waiting, w1) \<Rightarrow>
      (case client_call (\<lambda>s. (Inr (ZCARD R (k_Reserved keys) s), s)) w1 of
        (Inl err, w2) \<Rightarrow> (Inl err, w2)
      | (Inr reserved, w2) \<Rightarrow>
      (case client_call (\<lambda>s. (Inr (ZCARD R (k_Delayed keys) s), s)) w2 of
        (Inl err, w3) \<Rightarrow> (Inl err, w3)
      | (Inr delayed, w3) \<Rightarrow>
      (case client_call (\<lambda>s. (Inr (LLEN R (k_Timeout keys) s), s)) w3 of
        (Inl err, w4) \<Rightarrow> (Inl err, w4)
      | (Inr timeout, w4) \<Rightarrow>
      (case client_call (\<lambda>s. (Inr (LLEN R (k_Failed keys) s), s)) w4 of
        (Inl err, w5) \<Rightarrow> (Inl err, w5)
      | (Inr failed, w5) \<Rightarrow>
          (Inr \<lparr>i_Waiting = waiting, i_Reserved = reserved, i_Delayed = delayed, i_Timeout = timeout,
                i_Failed = failed\<rparr>, w5))))))"


text \<open>\<^verbatim>\<open>*RedisDriver\<close> as a \<^verbatim>\<open>Driver\<close>.\<close>

definition redis_driver :: "'s redis \<Rightarrow> 's world driver" where
  "redis_driver R = \<lparr>
     D_Ping = Ping, D_Info = Driver_Info R, D_Push = Push R, D_Pop = Pop R, D_Get = Get R,
     D_Cancel = Cancel R, D_Ack = Ack R, D_Requeue = Requeue R, D_Retry = Retry R, D_Drop = Drop R,
     D_Fail = Fail R, D_ForwardMessages = ForwardMessages R, D_Reload = Reload R, D_Flush = Flush R\<rparr>"

end
