(* ===== verification/Lua_Refinement.thy ===== *)
theory Lua_Refinement
  imports Lua_Scripts Queue_Spec Keys
begin

text \<open>
  The Lua scripts implement the abstract queue.  \<open>view\<close> reads a channel's abstract state off the
  server; \<open>chan_ok\<close> is the data invariant (every key of the channel holds its type, every entity
  spells a message that \<^verbatim>\<open>cjson\<close> represents); in the locale \<open>redis_lua\<close>, which joins the server
  and the \<^verbatim>\<open>cjson\<close> laws, each script keeps \<open>chan_ok\<close> and acts on the view as the operation of
  \<open>Queue_Spec\<close> does.
\<close>

section \<open>The view of a channel\<close>

definition entity_message :: "robj option \<Rightarrow> Message option" where
  "entity_message v = (case as_str v of
      None \<Rightarrow> None
    | Some raw \<Rightarrow> (case json_Unmarshal raw of Inl _ \<Rightarrow> None | Inr m \<Rightarrow> Some m))"

definition view :: "('s \<Rightarrow> string \<Rightarrow> robj option) \<Rightarrow> string \<Rightarrow> 's \<Rightarrow> qstate" where
  "view look ch s = (let k = NewKeys ch in
     \<lparr>q_waiting = as_list (look s (k_Waiting k)),
      q_reserved = as_zset (look s (k_Reserved k)),
      q_delayed = as_zset (look s (k_Delayed k)),
      q_timeout = as_list (look s (k_Timeout k)),
      q_failed = as_list (look s (k_Failed k)),
      q_msgs = (\<lambda>i. entity_message (look s (Keys_Message k i)))\<rparr>)"

text \<open>A stored entity: the text of an object that spells a message, every member safe for \<^verbatim>\<open>cjson\<close>
  and every number within the fourteen digits it prints exactly.\<close>

definition lua_exact :: "Message \<Rightarrow> bool" where
  "lua_exact m \<longleftrightarrow> \<bar>Attempts m\<bar> < 10 ^ 14 \<and> \<bar>MaxAttempts m\<bar> < 10 ^ 14 \<and>
     \<bar>CreatedAt m\<bar> < 10 ^ 14 \<and> \<bar>UpdatedAt m\<bar> < 10 ^ 14"

definition stores :: "(json \<Rightarrow> bool) \<Rightarrow> (string \<times> json) list \<Rightarrow> Message \<Rightarrow> bool" where
  "stores safe fs m \<longleftrightarrow> spells fs m \<and> (\<forall>(k, j) \<in> set fs. safe j) \<and> lua_exact m"

definition entity_ok :: "(json \<Rightarrow> bool) \<Rightarrow> robj option \<Rightarrow> bool" where
  "entity_ok safe v \<longleftrightarrow> v = None \<or>
     (\<exists>fs m. v = Some (RStr (Json (JObj fs))) \<and> stores safe fs m)"

definition chan_ok :: "(json \<Rightarrow> bool) \<Rightarrow> ('s \<Rightarrow> string \<Rightarrow> robj option) \<Rightarrow> string \<Rightarrow> 's \<Rightarrow> bool" where
  "chan_ok safe look ch s \<longleftrightarrow> (let k = NewKeys ch in
     holds_list (look s (k_Waiting k)) \<and> holds_list (look s (k_Timeout k)) \<and>
     holds_list (look s (k_Failed k)) \<and> holds_zset (look s (k_Reserved k)) \<and>
     holds_zset (look s (k_Delayed k)) \<and>
     (\<forall>i. entity_ok safe (look s (Keys_Message k i))))"

text \<open>Clock readings a Lua number and \<^verbatim>\<open>cjson\<close> represent exactly (fourteen digits of seconds).\<close>

definition clock_ok :: "int \<Rightarrow> bool" where
  "clock_ok now \<longleftrightarrow> \<bar>now\<bar> < 10 ^ 14"


lemma unmarshal_stores: "stores safe fs m \<Longrightarrow> json_members fs zero_message = Inr m"
  by (simp add: stores_def unmarshal_spells)

section \<open>Status assignments and cancel codes\<close>

text \<open>The members after a status assignment.\<close>

definition stamped :: "string \<Rightarrow> int \<Rightarrow> (string \<times> json) list \<Rightarrow> (string \<times> json) list" where
  "stamped st now fs = (''updated_at'', JInt now) # (''status'', JStr st) #
     filter (\<lambda>(k, _). k \<noteq> ''status'' \<and> k \<noteq> ''updated_at'') fs"

lemma map_of_filter_keys:
  "map_of (filter (\<lambda>(k, _). P k) xs) = (\<lambda>k. if P k then map_of xs k else None)"
  by (induction xs) (auto simp: fun_eq_iff)

lemma map_of_stamped:
  "map_of (stamped st now fs) = (map_of fs)(''status'' \<mapsto> JStr st, ''updated_at'' \<mapsto> JInt now)"
  by (auto simp: stamped_def map_of_filter_keys fun_eq_iff)

lemma distinct_stamped: "distinct (map fst fs) \<Longrightarrow> distinct (map fst (stamped st now fs))"
  by (auto simp: stamped_def distinct_map_filter)

lemma spells_stamped:
  assumes "spells fs m" and "clock_ok now"
  shows "spells (stamped st now fs) (stamp st now m)"
proof -
  have tags: "fst ` set (stamped st now fs) \<subseteq> message_tags"
    using assms(1) unfolding spells_def stamped_def by auto
  have go: "go_message (stamp st now m)"
    using assms by (auto simp: spells_def stamp_def go_message_def clock_ok_def in_int64_def)
  show ?thesis using assms(1) tags go unfolding spells_def map_of_stamped
    by (simp add: distinct_stamped string_member_def int_member_def stamp_def del: map_of_eq_Some_iff)
qed

lemma spells_set_cong:
  assumes "spells fs m" and "set fs' = set fs" and "distinct (map fst fs')"
  shows "spells fs' m"
proof -
  have "map_of fs' = map_of fs"
    using assms by (intro map_of_set_eq) (auto simp: spells_def)
  then show ?thesis using assms unfolding spells_def by metis
qed

text \<open>The codes of \<^verbatim>\<open>cancelByIDScript\<close>.  An id found in no queue is reported like one that waits:
  \<^verbatim>\<open>LPOS\<close> replies nil, which a script sees as \<^verbatim>\<open>false\<close>, and \<^verbatim>\<open>false ~= nil\<close> holds.\<close>

fun cancel_code :: "cancel_outcome \<Rightarrow> int" where
  "cancel_code Canceled = 1" | "cancel_code InExecution = -2"
| "cancel_code AlreadyReady = -1" | "cancel_code NotFound = -1"


text \<open>The key of a dead-letter list, and the message sequence of a channel: epoch and number.\<close>

fun dead_key :: "Keys \<Rightarrow> dead_letter \<Rightarrow> string" where
  "dead_key k FromTimeout = k_Timeout k" | "dead_key k FromFailed = k_Failed k"

definition seq_state :: "('s \<Rightarrow> string \<Rightarrow> robj option) \<Rightarrow> string \<Rightarrow> 's \<Rightarrow> int \<times> int" where
  "seq_state look ch s = (let k = NewKeys ch in
     (counter_value (look s (k_SequenceEpoch k)), counter_value (look s (k_SequenceKey k))))"

definition seq_ok :: "int \<Rightarrow> ('s \<Rightarrow> string \<Rightarrow> robj option) \<Rightarrow> string \<Rightarrow> 's \<Rightarrow> bool" where
  "seq_ok mx look ch s \<longleftrightarrow> (let k = NewKeys ch in
     holds_counter (look s (k_SequenceEpoch k)) \<and> holds_counter (look s (k_SequenceKey k)) \<and>
     0 \<le> fst (seq_state look ch s) \<and> 0 \<le> snd (seq_state look ch s) \<and>
     snd (seq_state look ch s) \<le> mx \<and> mx < 10 ^ 14)"

definition seq_next :: "int \<Rightarrow> int \<times> int \<Rightarrow> int \<times> int" where
  "seq_next mx es = (if snd es + 1 > mx then (fst es + 1, 0) else (fst es, snd es + 1))"


section \<open>One command at a time\<close>

locale redis_lua = redis_server R look + cjson_library "cjson_decode R" "cjson_encode R" conv safe
  for R :: "'s redis" and look :: "'s \<Rightarrow> string \<Rightarrow> robj option"
    and conv :: "json \<Rightarrow> lua_val" and safe :: "json \<Rightarrow> bool"
begin

abbreviation ok :: "string \<Rightarrow> 's \<Rightarrow> bool" where
  "ok \<equiv> chan_ok safe look"

abbreviation qv :: "string \<Rightarrow> 's \<Rightarrow> qstate" where
  "qv \<equiv> view look"

lemmas view_unfold = view_def chan_ok_def Let_def key_simps fun_upd_def

lemma LPUSH_buckets [view_simps]:
  assumes "ok ch s"
  shows "qv ch (LPUSH R (k_Waiting (NewKeys ch)) x s) = (qv ch s)\<lparr>q_waiting := x # q_waiting (qv ch s)\<rparr>"
    "qv ch (LPUSH R (k_Timeout (NewKeys ch)) x s) = (qv ch s)\<lparr>q_timeout := x # q_timeout (qv ch s)\<rparr>"
    "qv ch (LPUSH R (k_Failed (NewKeys ch)) x s) = (qv ch s)\<lparr>q_failed := x # q_failed (qv ch s)\<rparr>"
    "ok ch (LPUSH R (k_Waiting (NewKeys ch)) x s)" "ok ch (LPUSH R (k_Timeout (NewKeys ch)) x s)"
    "ok ch (LPUSH R (k_Failed (NewKeys ch)) x s)"
  using assms by (simp_all add: view_unfold LPUSH_law)

lemma RPOP_waiting [view_simps]:
  assumes "ok ch s"
  shows "fst (RPOP R (k_Waiting (NewKeys ch)) s) =
      (if q_waiting (qv ch s) = [] then None else Some (last (q_waiting (qv ch s))))"
    "qv ch (snd (RPOP R (k_Waiting (NewKeys ch)) s)) = (qv ch s)\<lparr>q_waiting := butlast (q_waiting (qv ch s))\<rparr>"
    "ok ch (snd (RPOP R (k_Waiting (NewKeys ch)) s))"
  using assms by (simp_all add: view_unfold RPOP_law)

lemma RPOPLPUSH_buckets [view_simps]:
  assumes "ok ch s"
  shows "fst (RPOPLPUSH R (k_Timeout (NewKeys ch)) (k_Waiting (NewKeys ch)) s) =
      (if q_timeout (qv ch s) = [] then None else Some (last (q_timeout (qv ch s))))"
    "fst (RPOPLPUSH R (k_Failed (NewKeys ch)) (k_Waiting (NewKeys ch)) s) =
      (if q_failed (qv ch s) = [] then None else Some (last (q_failed (qv ch s))))"
    "qv ch (snd (RPOPLPUSH R (k_Timeout (NewKeys ch)) (k_Waiting (NewKeys ch)) s)) =
      (if q_timeout (qv ch s) = [] then qv ch s
       else (qv ch s)\<lparr>q_timeout := butlast (q_timeout (qv ch s)),
                      q_waiting := last (q_timeout (qv ch s)) # q_waiting (qv ch s)\<rparr>)"
    "qv ch (snd (RPOPLPUSH R (k_Failed (NewKeys ch)) (k_Waiting (NewKeys ch)) s)) =
      (if q_failed (qv ch s) = [] then qv ch s
       else (qv ch s)\<lparr>q_failed := butlast (q_failed (qv ch s)),
                      q_waiting := last (q_failed (qv ch s)) # q_waiting (qv ch s)\<rparr>)"
    "ok ch (snd (RPOPLPUSH R (k_Timeout (NewKeys ch)) (k_Waiting (NewKeys ch)) s))"
    "ok ch (snd (RPOPLPUSH R (k_Failed (NewKeys ch)) (k_Waiting (NewKeys ch)) s))"
  using assms by (simp_all add: view_unfold RPOPLPUSH_law)

lemma LREM_buckets [view_simps]:
  assumes "ok ch s"
  shows "fst (LREM R (k_Waiting (NewKeys ch)) x s) = int (count_list (q_waiting (qv ch s)) x)"
    "fst (LREM R (k_Timeout (NewKeys ch)) x s) = int (count_list (q_timeout (qv ch s)) x)"
    "fst (LREM R (k_Failed (NewKeys ch)) x s) = int (count_list (q_failed (qv ch s)) x)"
    "qv ch (snd (LREM R (k_Waiting (NewKeys ch)) x s)) = (qv ch s)\<lparr>q_waiting := removeAll x (q_waiting (qv ch s))\<rparr>"
    "qv ch (snd (LREM R (k_Timeout (NewKeys ch)) x s)) = (qv ch s)\<lparr>q_timeout := removeAll x (q_timeout (qv ch s))\<rparr>"
    "qv ch (snd (LREM R (k_Failed (NewKeys ch)) x s)) = (qv ch s)\<lparr>q_failed := removeAll x (q_failed (qv ch s))\<rparr>"
    "ok ch (snd (LREM R (k_Waiting (NewKeys ch)) x s))" "ok ch (snd (LREM R (k_Timeout (NewKeys ch)) x s))"
    "ok ch (snd (LREM R (k_Failed (NewKeys ch)) x s))"
  using assms by (simp_all add: view_unfold LREM_law)

lemma ZADD_buckets [view_simps]:
  assumes "ok ch s"
  shows "qv ch (ZADD R (k_Reserved (NewKeys ch)) sc x s) =
      (qv ch s)\<lparr>q_reserved := zset_add sc x (q_reserved (qv ch s))\<rparr>"
    "qv ch (ZADD R (k_Delayed (NewKeys ch)) sc x s) =
      (qv ch s)\<lparr>q_delayed := zset_add sc x (q_delayed (qv ch s))\<rparr>"
    "ok ch (ZADD R (k_Reserved (NewKeys ch)) sc x s)" "ok ch (ZADD R (k_Delayed (NewKeys ch)) sc x s)"
  using assms by (simp_all add: view_unfold ZADD_law as_zset_holds)

lemma ZREM_buckets [view_simps]:
  assumes "ok ch s"
  shows "fst (ZREM R (k_Reserved (NewKeys ch)) x s) = (if x \<in> zset_members (q_reserved (qv ch s)) then 1 else 0)"
    "fst (ZREM R (k_Delayed (NewKeys ch)) x s) = (if x \<in> zset_members (q_delayed (qv ch s)) then 1 else 0)"
    "qv ch (snd (ZREM R (k_Reserved (NewKeys ch)) x s)) =
      (qv ch s)\<lparr>q_reserved := zset_rem x (q_reserved (qv ch s))\<rparr>"
    "qv ch (snd (ZREM R (k_Delayed (NewKeys ch)) x s)) =
      (qv ch s)\<lparr>q_delayed := zset_rem x (q_delayed (qv ch s))\<rparr>"
    "ok ch (snd (ZREM R (k_Reserved (NewKeys ch)) x s))" "ok ch (snd (ZREM R (k_Delayed (NewKeys ch)) x s))"
  using assms by (simp_all add: view_unfold ZREM_law as_zset_holds)

lemma bucket_reads [view_simps]:
  assumes "ok ch s"
  shows "ZSCORE R (k_Reserved (NewKeys ch)) x s = zset_score (q_reserved (qv ch s)) x"
    "ZRANGEBYSCORE R (k_Delayed (NewKeys ch)) mx n s = zset_due mx n (q_delayed (qv ch s))"
    "ZRANGEBYSCORE R (k_Reserved (NewKeys ch)) mx n s = zset_due mx n (q_reserved (qv ch s))"
    "LLEN R (k_Waiting (NewKeys ch)) s = int (length (q_waiting (qv ch s)))"
    "LLEN R (k_Timeout (NewKeys ch)) s = int (length (q_timeout (qv ch s)))"
    "LLEN R (k_Failed (NewKeys ch)) s = int (length (q_failed (qv ch s)))"
    "ZCARD R (k_Reserved (NewKeys ch)) s = int (length (q_reserved (qv ch s)))"
    "ZCARD R (k_Delayed (NewKeys ch)) s = int (length (q_delayed (qv ch s)))"
  using assms by (simp_all add: view_unfold ZSCORE_law ZRANGEBYSCORE_law LLEN_law ZCARD_law)

lemma SET_entity [view_simps]:
  assumes "ok ch s" and "entity_ok safe (Some (RStr raw))"
  shows "qv ch (SET R (Keys_Message (NewKeys ch) i) raw s) =
      (qv ch s)\<lparr>q_msgs := (q_msgs (qv ch s))(i := entity_message (Some (RStr raw)))\<rparr>"
    "ok ch (SET R (Keys_Message (NewKeys ch) i) raw s)"
  using assms by (auto simp: view_unfold SET_law)

lemma EXPIRE_entity [view_simps]:
  assumes "0 < n"
  shows "qv ch (EXPIRE R k n s) = qv ch s" "qv ch (PEXPIRE R k n s) = qv ch s"
    "ok ch (EXPIRE R k n s) = ok ch s" "ok ch (PEXPIRE R k n s) = ok ch s"
  using assms by (simp_all add: view_def chan_ok_def EXPIRE_law PEXPIRE_law)

lemma DEL_entity [view_simps]:
  assumes "ok ch s"
  shows "qv ch (DEL R (Keys_Message (NewKeys ch) i) s) = (qv ch s)\<lparr>q_msgs := (q_msgs (qv ch s))(i := None)\<rparr>"
    "ok ch (DEL R (Keys_Message (NewKeys ch) i) s)"
  using assms by (auto simp: view_unfold DEL_law entity_ok_def entity_message_def)

lemma set_keep_ttl_entity [view_simps]:
  assumes "ok ch s" and "entity_ok safe (Some (RStr raw))"
  shows "qv ch (set_keep_ttl R (Keys_Message (NewKeys ch) i) raw s) =
      (qv ch s)\<lparr>q_msgs := (q_msgs (qv ch s))(i := entity_message (Some (RStr raw)))\<rparr>"
    "ok ch (set_keep_ttl R (Keys_Message (NewKeys ch) i) raw s)"
  using assms by (simp_all add: set_keep_ttl_def Let_def view_simps)

lemma entity_cases:
  assumes "ok ch s"
  obtains (missing) "q_msgs (qv ch s) i = None" "GET R (Keys_Message (NewKeys ch) i) s = None"
  | (present) m fs where "q_msgs (qv ch s) i = Some m"
      "GET R (Keys_Message (NewKeys ch) i) s = Some (Json (JObj fs))" "stores safe fs m"
proof -
  have e: "entity_ok safe (look s (Keys_Message (NewKeys ch) i))"
    using assms by (simp add: chan_ok_def Let_def)
  show thesis
  proof (cases "look s (Keys_Message (NewKeys ch) i)")
    case None
    then show thesis
      by (intro missing) (simp_all add: view_def Let_def entity_message_def GET_law)
  next
    case (Some v)
    then obtain fs m where "v = RStr (Json (JObj fs))" "stores safe fs m"
      using e by (auto simp: entity_ok_def)
    then show thesis using Some
      by (intro present[of m fs])
        (simp_all add: view_def Let_def entity_message_def GET_law unmarshal_stores)
  qed
qed

lemma stamp_entity:
  assumes sto: "stores safe fs m" and now: "clock_ok now"
  obtains t fs' where "decode_table R (Json (JObj fs)) = Some t"
    "cjson_encode R (stamp_table st now t) = Some (Json (JObj fs'))"
    "stores safe fs' (stamp st now m)"
    "\<And>x. x \<noteq> '''' \<Longrightarrow> lua_get t (KStr ''status'') = LStr x \<longleftrightarrow> Status m = x"
proof -
  have sp: "spells fs m" and safe: "\<forall>(k, j) \<in> set fs. safe j" and ex: "lua_exact (stamp st now m)"
    using sto now by (auto simp: stores_def lua_exact_def clock_ok_def)
  have dist: "distinct (map fst fs)" using sp by (simp add: spells_def)
  obtain t where dec: "cjson_decode R (Json (JObj fs)) = Some (LTable t)"
    and dt: "distinct (map fst t)" and st: "set t = (\<lambda>(k, j). (KStr k, conv j)) ` set fs"
    using dec_object[OF dist safe] by blast
  let ?t' = "lua_set (KStr ''updated_at'') (LNum now) (lua_set (KStr ''status'') (LStr st) t)"
  have dt': "distinct (map fst ?t')"
    using dt by (auto simp: lua_set_def distinct_map_filter)
  have st': "set ?t' = (\<lambda>(k, j). (KStr k, conv j)) ` set (stamped st now fs)"
    using st now by (auto simp: lua_set_def stamped_def conv_string conv_int clock_ok_def image_iff) force+
  have safe': "\<forall>(k, j) \<in> set (stamped st now fs). safe j"
    using safe now by (auto simp: stamped_def safe_string safe_int clock_ok_def)
  obtain fs' where enc: "cjson_encode R (LTable ?t') = Some (Json (JObj fs'))"
    and "distinct (map fst fs')" "set fs' = set (stamped st now fs)"
    using enc_object[OF distinct_stamped[OF dist] safe' dt' st'] by blast
  then have "stores safe fs' (stamp st now m)"
    using spells_set_cong[OF spells_stamped[OF sp now]] safe' ex by (auto simp: stores_def)
  moreover have "lua_get t (KStr ''status'') = LStr x \<longleftrightarrow> Status m = x" if "x \<noteq> ''''" for x
  proof (cases "map_of fs ''status''")
    case None
    then have "map_of t (KStr ''status'') = None"
      using st by (auto simp: map_of_eq_None_iff image_iff)
    then show ?thesis using None sp that by (simp add: lua_get_def spells_def string_member_def)
  next
    case (Some j)
    then have "j = JStr (Status m)" using sp by (simp add: spells_def string_member_def)
    then have "(KStr ''status'', LStr (Status m)) \<in> set t"
      using st map_of_SomeD[OF Some] by (force simp: conv_string)
    then have "map_of t (KStr ''status'') = Some (LStr (Status m))"
      using dt by (simp add: map_of_is_SomeI)
    then show ?thesis by (simp add: lua_get_def)
  qed
  ultimately show thesis
    using that[of t fs'] dec enc by (simp add: decode_table_def stamp_table_def)
qed

section \<open>The scripts\<close>

lemma entity_ok_stores:
  "stores safe fs m \<Longrightarrow>
   entity_ok safe (Some (RStr (Json (JObj fs)))) \<and> entity_message (Some (RStr (Json (JObj fs)))) = Some m"
  by (auto simp: entity_ok_def entity_message_def unmarshal_stores)

text \<open>What every transition does with the entity of an id: nothing is stored, or it decodes and
  its status is rewritten.\<close>

lemma entity_step [consumes 2, case_names missing present]:
  assumes s: "ok ch s" and now: "clock_ok now"
  obtains (missing) "q_msgs (qv ch s) i = None" "GET R (Keys_Message (NewKeys ch) i) s = None"
  | (present) m raw t s' where "q_msgs (qv ch s) i = Some m"
      "GET R (Keys_Message (NewKeys ch) i) s = Some raw" "decode_table R raw = Some t"
      "restamp R (Keys_Message (NewKeys ch) i) t st now s = (Inr (), s')"
      "qv ch s' = q_mark i st now (qv ch s)" "ok ch s'"
      "\<And>x. x \<noteq> '''' \<Longrightarrow> lua_get t (KStr ''status'') = LStr x \<longleftrightarrow> Status m = x"
  using s
proof (cases rule: entity_cases[of _ _ i])
  case missing
  then show thesis by (rule that(1))
next
  case (present m fs)
  obtain t fs' where t: "decode_table R (Json (JObj fs)) = Some t"
    "cjson_encode R (stamp_table st now t) = Some (Json (JObj fs'))"
    "stores safe fs' (stamp st now m)"
    "\<And>x. x \<noteq> '''' \<Longrightarrow> lua_get t (KStr ''status'') = LStr x \<longleftrightarrow> Status m = x"
    using stamp_entity[OF present(3) now] by metis
  let ?s' = "set_keep_ttl R (Keys_Message (NewKeys ch) i) (Json (JObj fs')) s"
  have "qv ch ?s' = q_mark i st now (qv ch s)" "ok ch ?s'"
    using entity_ok_stores[OF t(3)] s present(1) by (simp_all add: view_simps q_mark_def)
  then show thesis using that(2)[OF present(1,2)] t(1,2,4) by (simp add: restamp_def)
qed

lemma unreserve_step:
  assumes "ok ch s"
  shows "ok ch (snd (ZREM R (k_Reserved (NewKeys ch)) i s))"
    "qv ch (snd (ZREM R (k_Reserved (NewKeys ch)) i s)) = q_unreserve i (qv ch s)"
  using assms by (simp_all add: view_simps q_unreserve_def)

lemmas commit_simps = view_simps status_defs
  ackScript_def dropScript_def failScript_def requeueScript_def q_ack_def q_drop_def q_fail_def q_requeue_def

lemma ackScript_refines:
  assumes "ok ch s" and "clock_ok now"
  shows "\<exists>s'. ackScript R (k_Reserved (NewKeys ch)) (Keys_Message (NewKeys ch) i) i now s = (Inr 1, s') \<and>
           ok ch s' \<and> qv ch s' = q_ack i now (qv ch s)"
  using unreserve_step(1)[OF assms(1), of i] assms(2)
  by (cases rule: entity_step[where i = i and st = "''done''"])
    (use unreserve_step[OF assms(1), of i] in \<open>auto simp: commit_simps\<close>)

lemma dropScript_refines:
  assumes "ok ch s" and "clock_ok now"
  shows "\<exists>s'. dropScript R (k_Reserved (NewKeys ch)) (Keys_Message (NewKeys ch) i) i now s = (Inr 1, s') \<and>
           ok ch s' \<and> qv ch s' = q_drop i now (qv ch s)"
  using unreserve_step(1)[OF assms(1), of i] assms(2)
  by (cases rule: entity_step[where i = i and st = "''dropped''"])
    (use unreserve_step[OF assms(1), of i] in \<open>auto simp: commit_simps\<close>)

lemma failScript_refines:
  assumes "ok ch s" and "clock_ok now"
  shows "\<exists>s'. failScript R (k_Reserved (NewKeys ch)) (k_Failed (NewKeys ch))
             (Keys_Message (NewKeys ch) i) i now s = (Inr 1, s') \<and>
           ok ch s' \<and> qv ch s' = q_fail i now (qv ch s)"
  using unreserve_step(1)[OF assms(1), of i] assms(2)
  by (cases rule: entity_step[where i = i and st = "''failed''"])
    (use unreserve_step[OF assms(1), of i] in \<open>auto simp: commit_simps\<close>)

lemma requeueScript_refines:
  assumes "ok ch s" and "clock_ok now"
  shows "\<exists>s'. requeueScript R (k_Reserved (NewKeys ch)) (k_Waiting (NewKeys ch))
             (Keys_Message (NewKeys ch) i) i now s = (Inr 1, s') \<and>
           ok ch s' \<and> qv ch s' = q_requeue i now (qv ch s)"
  using unreserve_step(1)[OF assms(1), of i] assms(2)
  by (cases rule: entity_step[where i = i and st = "''waiting''"])
    (use unreserve_step[OF assms(1), of i] in \<open>auto simp: commit_simps\<close>)

lemma pushScript_refines:
  assumes "ok ch s" and "stores safe fs m"
  shows "\<exists>s'. pushScript R (k_Waiting (NewKeys ch)) (k_Delayed (NewKeys ch)) (Keys_Message (NewKeys ch) i)
             i (Json (JObj fs)) mode score ttl s = (Inr 1, s') \<and>
           ok ch s' \<and> qv ch s' = q_push i m mode score (qv ch s)"
  using assms(1) entity_ok_stores[OF assms(2)]
  by (simp add: pushScript_def Let_def view_simps q_push_def q_enqueue_def)

lemma retry_enqueue_refines:
  fixes i mode :: string and score :: int
  assumes "ok ch s" and "stores safe fs m"
  defines "s' \<equiv> retry_enqueue R (k_Waiting (NewKeys ch)) (k_Delayed (NewKeys ch))
    (Keys_Message (NewKeys ch) i) i score (Json (JObj fs)) mode s"
  shows "ok ch s'" "qv ch s' = q_push i m mode score (qv ch s)"
  using assms(1) entity_ok_stores[OF assms(2)] unfolding s'_def
  by (simp_all add: retry_enqueue_def Let_def view_simps q_push_def q_enqueue_def)

lemma retry_forget_refines:
  fixes i :: string
  assumes "ok ch s"
  defines "r2 \<equiv> LREM R (k_Waiting (NewKeys ch)) i s"
  defines "r3 \<equiv> ZREM R (k_Delayed (NewKeys ch)) i (snd r2)"
  defines "r4 \<equiv> LREM R (k_Timeout (NewKeys ch)) i (snd r3)"
  defines "r5 \<equiv> LREM R (k_Failed (NewKeys ch)) i (snd r4)"
  shows "ok ch (snd r5)" "qv ch (snd r5) = q_forget i (qv ch s)"
    "fst r2 + fst r3 + fst r4 + fst r5 = 0 \<longleftrightarrow>
       i \<notin> set (q_waiting (qv ch s)) \<union> zset_members (q_delayed (qv ch s)) \<union>
           set (q_timeout (qv ch s)) \<union> set (q_failed (qv ch s))"
  using assms(1) unfolding r2_def r3_def r4_def r5_def
  by (auto simp: view_simps q_forget_def count_list_0_iff add_nonneg_eq_0_iff)

lemma q_forget_absent:
  assumes "i \<notin> set (q_waiting q) \<union> zset_members (q_delayed q) \<union> set (q_timeout q) \<union> set (q_failed q)"
  shows "q_forget i q = q"
  using assms by (cases q) (simp add: q_forget_def)

lemma q_unreserve_absent: "i \<notin> zset_members (q_reserved q) \<Longrightarrow> q_unreserve i q = q"
  by (cases q) (simp add: q_unreserve_def)

lemma retryByIDScript_refines:
  assumes "ok ch s" and "stores safe fs m"
  shows "\<exists>s'. retryByIDScript R (k_Waiting (NewKeys ch)) (k_Reserved (NewKeys ch)) (k_Delayed (NewKeys ch))
             (k_Timeout (NewKeys ch)) (k_Failed (NewKeys ch)) (Keys_Message (NewKeys ch) i)
             i score (Json (JObj fs)) mode s
           = (Inr (if fst (q_retry i m mode score (qv ch s)) then 1 else 0), s') \<and>
           ok ch s' \<and> qv ch s' = snd (q_retry i m mode score (qv ch s))"
proof (cases "i \<in> zset_members (q_reserved (qv ch s))")
  case True
  then show ?thesis
    using unreserve_step[OF assms(1), of i] retry_enqueue_refines[OF _ assms(2)] assms(1)
    by (simp add: retryByIDScript_def split_beta Let_def view_simps q_retry_def q_unreserve_def)
next
  case False
  have s1: "ok ch (snd (ZREM R (k_Reserved (NewKeys ch)) i s))"
    "qv ch (snd (ZREM R (k_Reserved (NewKeys ch)) i s)) = qv ch s"
    using unreserve_step[OF assms(1), of i] False by (simp_all add: q_unreserve_absent)
  note forget = retry_forget_refines[OF s1(1), of i, unfolded s1(2)]
  show ?thesis
    using False assms(1) forget retry_enqueue_refines[OF forget(1) assms(2)]
      q_forget_absent[of i "qv ch s"]
    by (auto simp: retryByIDScript_def split_beta Let_def view_simps q_retry_def)
qed

lemma LPOS_not_nil: "ok ch s \<Longrightarrow> LPOS R (k_Waiting (NewKeys ch)) i s \<noteq> LNil"
  using LPOS_found[of s "k_Waiting (NewKeys ch)" i] LPOS_nil[of s "k_Waiting (NewKeys ch)" i]
  by (cases "i \<in> set (as_list (look s (k_Waiting (NewKeys ch))))") (auto simp: chan_ok_def Let_def)

lemma cancelByIDScript_refines:
  assumes "ok ch s" and "clock_ok now"
  shows "\<exists>s'. cancelByIDScript R (k_Waiting (NewKeys ch)) (k_Reserved (NewKeys ch)) (k_Delayed (NewKeys ch))
             (Keys_Message (NewKeys ch) i) i now s = (Inr (cancel_code (fst (q_cancel i now (qv ch s)))), s') \<and>
           ok ch s' \<and> qv ch s' = snd (q_cancel i now (qv ch s))"
proof -
  let ?s1 = "snd (ZREM R (k_Delayed (NewKeys ch)) i s)"
  have s1: "ok ch ?s1" "qv ch ?s1 = (qv ch s)\<lparr>q_delayed := zset_rem i (q_delayed (qv ch s))\<rparr>"
    using assms(1) by (simp_all add: view_simps)
  show ?thesis
  proof (cases "i \<in> zset_members (q_delayed (qv ch s))")
    case True
    show ?thesis using s1(1)
    proof (cases rule: entity_cases[of _ _ i])
      case missing
      then show ?thesis using True s1 assms(1)
        by (simp add: cancelByIDScript_def split_beta Let_def view_simps q_cancel_def)
    next
      case (present m fs)
      obtain t fs' where t: "decode_table R (Json (JObj fs)) = Some t"
        "cjson_encode R (stamp_table ''canceled'' now t) = Some (Json (JObj fs'))"
        "stores safe fs' (stamp ''canceled'' now m)"
        using stamp_entity[OF present(3) assms(2)] by metis
      then show ?thesis using True s1 assms(1) present entity_ok_stores[OF t(3)]
        by (simp add: cancelByIDScript_def split_beta Let_def view_simps q_cancel_def q_mark_def status_defs)
    qed
  next
    case False
    then have "qv ch ?s1 = qv ch s" using s1(2) by (cases "qv ch s") simp
    then show ?thesis using False s1 assms(1) LPOS_not_nil[OF s1(1), of i]
      by (simp add: cancelByIDScript_def split_beta Let_def view_simps q_cancel_def)
  qed
qed

lemma prefix_message [simp]: "k_MessagePrefix k @ i = Keys_Message k i"
  by (simp add: Keys_Message_def)

lemma move_ids_refines:
  assumes "ok ch s" and "clock_ok now"
  shows "\<exists>s'. move_ids R (k_Delayed (NewKeys ch)) (k_Waiting (NewKeys ch)) (k_MessagePrefix (NewKeys ch))
             now StatusWaiting ids s = (Inr (), s') \<and>
           ok ch s' \<and> qv ch s' = fold (q_forward1 now) ids (qv ch s)"
  using assms(1)
proof (induction ids arbitrary: s)
  case Nil
  then show ?case by simp
next
  case (Cons i ids)
  let ?s1 = "snd (ZREM R (k_Delayed (NewKeys ch)) i s)"
  have s1: "ok ch ?s1" using Cons.prems by (simp add: view_simps)
  show ?case using s1 assms(2)
  proof (cases rule: entity_step[where i = i and st = StatusWaiting])
    case missing
    then show ?thesis
      using Cons.IH[of "snd (LREM R (k_Waiting (NewKeys ch)) i ?s1)"] Cons.prems s1
      by (simp add: Let_def view_simps q_forward1_None)
  next
    case (present m raw t s')
    then show ?thesis
      using Cons.IH[of "LPUSH R (k_Waiting (NewKeys ch)) i s'"] Cons.prems s1
      by (simp add: Let_def view_simps q_forward1_Some)
  qed
qed

lemma moveScript_refines:
  assumes "ok ch s" and "clock_ok now"
  shows "\<exists>s'. moveScript R (k_Delayed (NewKeys ch)) (k_Waiting (NewKeys ch)) (k_MessagePrefix (NewKeys ch))
             now StatusWaiting s = (Inr (int (length (zset_due now 100 (q_delayed (qv ch s))))), s') \<and>
           ok ch s' \<and> qv ch s' = q_forward now (qv ch s)"
  using move_ids_refines[OF assms, of "zset_due now 100 (q_delayed (qv ch s))"] assms(1)
  by (auto simp: moveScript_def Let_def view_simps q_forward_def)

lemma EXISTS_entity:
  "ok ch s \<Longrightarrow> EXISTS R (Keys_Message (NewKeys ch) i) s = (if q_msgs (qv ch s) i = None then 0 else 1)"
  by (auto simp: EXISTS_law view_def Let_def chan_ok_def entity_ok_def entity_message_def unmarshal_stores
      dest!: spec[where x = i])

lemma move_timeout_ids_refines:
  assumes "ok ch s"
  shows "\<exists>s'. move_timeout_ids R (k_Reserved (NewKeys ch)) (k_Timeout (NewKeys ch))
             (k_MessagePrefix (NewKeys ch)) ids n s
           = (n + int (length (filter (\<lambda>i. q_msgs (qv ch s) i \<noteq> None) ids)), s') \<and>
           ok ch s' \<and> qv ch s' = fold q_expire1 ids (qv ch s)"
  using assms
proof (induction ids arbitrary: n s)
  case Nil
  then show ?case by simp
next
  case (Cons i ids)
  let ?s1 = "snd (ZREM R (k_Reserved (NewKeys ch)) i s)"
  have s1: "ok ch ?s1" "qv ch ?s1 = q_unreserve i (qv ch s)"
    using unreserve_step[OF Cons.prems, of i] .
  show ?case
  proof (cases "q_msgs (qv ch s) i")
    case None
    then show ?thesis using Cons.IH[OF s1(1), of n] s1
      by (auto simp: Let_def EXISTS_entity q_expire1_def)
  next
    case (Some m)
    let ?s2 = "LPUSH R (k_Timeout (NewKeys ch)) i ?s1"
    have "ok ch ?s2" "qv ch ?s2 = q_expire1 i (qv ch s)"
      using s1 Some by (simp_all add: view_simps q_expire1_def)
    moreover have "q_msgs (q_expire1 i (qv ch s)) = q_msgs (qv ch s)"
      by (simp add: q_expire1_def)
    ultimately show ?thesis using Cons.IH[of ?s2 "n + 1"] s1 Some
      by (auto simp: Let_def EXISTS_entity)
  qed
qed

lemma moveTimeoutScript_refines:
  assumes "ok ch s"
  shows "\<exists>s'. moveTimeoutScript R (k_Reserved (NewKeys ch)) (k_Timeout (NewKeys ch))
             (k_MessagePrefix (NewKeys ch)) now s
           = (Inr (int (length (filter (\<lambda>i. q_msgs (qv ch s) i \<noteq> None)
                                  (zset_due now 100 (q_reserved (qv ch s)))))), s') \<and>
           ok ch s' \<and> qv ch s' = q_expire now (qv ch s)"
  using move_timeout_ids_refines[OF assms, of "zset_due now 100 (q_reserved (qv ch s))" 0] assms
  by (auto simp: moveTimeoutScript_def Let_def view_simps q_expire_def split_beta)

text \<open>\<^verbatim>\<open>popScript\<close> returns: every turn of its loop removes an entry of the waiting list.\<close>

lemma popScript_refines:
  assumes "ok ch s" and "clock_ok now"
  shows "\<exists>s'. popScript R (k_Waiting (NewKeys ch)) (k_Reserved (NewKeys ch)) (k_MessagePrefix (NewKeys ch))
             now deadline s = Some (Inr (fst (q_pop now deadline (qv ch s))), s') \<and>
           ok ch s' \<and> qv ch s' = snd (q_pop now deadline (qv ch s))"
  using assms(1)
proof (induction "q_waiting (qv ch s)" arbitrary: s rule: rev_induct)
  case Nil
  have "RPOP R (k_Waiting (NewKeys ch)) s = (None, snd (RPOP R (k_Waiting (NewKeys ch)) s))"
    using RPOP_waiting(1)[OF Nil.prems] Nil.hyps by (simp add: prod_eq_iff)
  then show ?case using Nil
    by (subst popScript.simps) (auto simp: q_pop_def RPOP_waiting split_beta)
next
  case (snoc i ws)
  obtain s1 where pop: "RPOP R (k_Waiting (NewKeys ch)) s = (Some i, s1)"
    using RPOP_waiting(1)[OF snoc.prems] snoc.hyps(2)[symmetric]
    by (cases "RPOP R (k_Waiting (NewKeys ch)) s") simp
  have s1: "ok ch s1" "qv ch s1 = (qv ch s)\<lparr>q_waiting := ws\<rparr>"
    using RPOP_waiting(2,3)[OF snoc.prems] snoc.hyps(2)[symmetric] by (simp_all add: pop)
  show ?case using s1(1) assms(2)
  proof (cases rule: entity_step[where i = i and st = "''reserved''"])
    case missing
    have "q_msgs (qv ch s) i = None" using missing(1) s1(2) by simp
    then have skip: "q_pop now deadline (qv ch s) = q_pop now deadline (qv ch s1)"
      unfolding s1(2) by (rule q_pop_skip[OF snoc.hyps(2)[symmetric]])
    have "ws = q_waiting (qv ch s1)" using s1(2) by simp
    from snoc.hyps(1)[OF this s1(1)] show ?thesis
      unfolding skip by (subst popScript.simps) (simp add: pop missing(2))
  next
    case (present m raw t s')
    have "rev (q_waiting (qv ch s)) = i # rev ws" using snoc.hyps(2)[symmetric] by simp
    then show ?thesis using present s1
      by (subst popScript.simps)
        (simp add: pop view_simps q_pop_def StatusReserved_def)
  qed
qed

lemma RPOPLPUSH_dead:
  fixes src :: dead_letter
  assumes "ok ch s"
  defines "r \<equiv> RPOPLPUSH R (dead_key (NewKeys ch) src) (k_Waiting (NewKeys ch)) s"
  shows "q_dead src (qv ch s) = [] \<Longrightarrow> fst r = None \<and> ok ch (snd r) \<and> qv ch (snd r) = qv ch s"
    and "q_dead src (qv ch s) = ds @ [i] \<Longrightarrow> fst r = Some i \<and> ok ch (snd r) \<and>
      qv ch (snd r) = (q_set_dead src ds (qv ch s))\<lparr>q_waiting := i # q_waiting (qv ch s)\<rparr>"
  using assms(1) unfolding r_def by (cases src; simp add: view_simps)+

lemma q_set_dead_waiting [simp]:
  "(q_set_dead src ds q)\<lparr>q_waiting := xs\<rparr> = q_set_dead src ds (q\<lparr>q_waiting := xs\<rparr>)"
  by (cases src) simp_all

lemma stale_iff: "stale m \<longleftrightarrow> Status m = ''done'' \<or> Status m = ''dropped'' \<or> Status m = ''canceled''"
  by (simp add: stale_def status_defs)

lemma reload_loop_refines:
  assumes "ok ch s" and "clock_ok now"
  shows "\<exists>s'. reload_loop R (dead_key (NewKeys ch) src) (k_Waiting (NewKeys ch)) (k_MessagePrefix (NewKeys ch))
             now skip n (int c) s = (Inr (int (fst (q_reload_batch src skip now n c (qv ch s)))), s') \<and>
           ok ch s' \<and> qv ch s' = snd (q_reload_batch src skip now n c (qv ch s))"
  using assms(1)
proof (induction n arbitrary: c s)
  case 0
  then show ?case by simp
next
  case (Suc n)
  let ?w = "k_Waiting (NewKeys ch)"
  obtain r s1 where rs: "RPOPLPUSH R (dead_key (NewKeys ch) src) ?w s = (r, s1)" by force
  show ?case
  proof (cases "q_dead src (qv ch s)" rule: rev_cases)
    case Nil
    then show ?thesis using RPOPLPUSH_dead(1)[OF Suc.prems Nil] rs by simp
  next
    case (snoc ds i)
    have r: "r = Some i" and s1: "ok ch s1"
      and q1: "qv ch s1 = (q_set_dead src ds (qv ch s))\<lparr>q_waiting := i # q_waiting (qv ch s)\<rparr>"
      using RPOPLPUSH_dead(2)[OF Suc.prems snoc] rs by simp_all
    let ?drop = "snd (LREM R ?w i s1)"
    have drop: "ok ch ?drop" using s1 by (simp add: view_simps)
    have dropq: "qv ch ?drop = q_reload1 src skip now (qv ch s)" if "\<not> reloadable skip (qv ch s) i"
      using that s1 q1 snoc by (simp add: view_simps q_reload1_def)
    show ?thesis using s1 assms(2)
    proof (cases rule: entity_step[where i = i and st = "''waiting''"])
      case missing
      then have "\<not> reloadable skip (qv ch s) i" using q1 by (simp add: reloadable_def)
      then show ?thesis using Suc.IH[OF drop, of c] dropq rs r missing snoc by simp
    next
      case (present m raw t s')
      have m: "q_msgs (qv ch s) i = Some m" using present(1) q1 by simp
      show ?thesis
      proof (cases "skip \<and> stale m")
        case True
        then have "\<not> reloadable skip (qv ch s) i" using m by (simp add: reloadable_def)
        then show ?thesis using Suc.IH[OF drop, of c] dropq rs r present True snoc
          by (simp add: stale_iff)
      next
        case False
        then have re: "reloadable skip (qv ch s) i" using m by (simp add: reloadable_def)
        then have "qv ch s' = q_reload1 src skip now (qv ch s)"
          using present(5) q1 snoc by (simp add: q_reload1_def StatusWaiting_def)
        then show ?thesis using Suc.IH[OF present(6), of "Suc c"] rs r present False snoc re
          by (auto simp: stale_iff add.commute)
      qed
    qed
  qed
qed

lemma reloadScript_refines:
  assumes "ok ch s" and "clock_ok now"
  shows "\<exists>s'. reloadScript R (dead_key (NewKeys ch) src) (k_Waiting (NewKeys ch)) (k_MessagePrefix (NewKeys ch))
             now skip s = (Inr (int (fst (q_reload_batch src (skip = ''1'') now 100 0 (qv ch s)))), s') \<and>
           ok ch s' \<and> qv ch s' = snd (q_reload_batch src (skip = ''1'') now 100 0 (qv ch s))"
  using reload_loop_refines[OF assms, of src "skip = ''1''" 100 0] by (simp add: reloadScript_def)

text \<open>Sequence numbers: one script call moves the pair (epoch, number) to its successor and
  returns the texts of the new pair; the buckets and entities are untouched.\<close>

lemma epoch_text:
  assumes "holds_counter (look s k)"
  shows "(case GET R k s of None \<Rightarrow> (''0'', SET R k (Text ''0'') s) | Some b \<Rightarrow> (bytes_string b, s)) =
      (show_int (counter_value (look s k)), if look s k = None then SET R k (Text ''0'') s else s)"
proof -
  consider "look s k = None" | n where "look s k = counter_obj n"
    using assms by (auto simp: holds_counter_def)
  then show ?thesis
  proof cases
    case 1
    then show ?thesis using GET_law[of s k] show_int_zero by simp
  next
    case 2
    then show ?thesis using GET_law[of s k] by (simp add: counter_obj_def)
  qed
qed

lemma nextSeqScript_step:
  assumes seq: "seq_ok mx look ch s" and room: "fst (seq_state look ch s) + 1 < 10 ^ 14"
  defines "r \<equiv> nextSeqScript R (k_SequenceKey (NewKeys ch)) (k_SequenceEpoch (NewKeys ch)) mx s"
  defines "n \<equiv> seq_next mx (seq_state look ch s)"
  shows "fst r = Inr (show_int (snd n), show_int (fst n)) \<and> seq_state look ch (snd r) = n \<and>
    seq_ok mx look ch (snd r) \<and> qv ch (snd r) = qv ch s \<and> ok ch (snd r) = ok ch s"
proof -
  let ?q = "k_SequenceKey (NewKeys ch)" and ?e = "k_SequenceEpoch (NewKeys ch)"
  define e where "e = counter_value (look s ?e)"
  define q where "q = counter_value (look s ?q)"
  have es: "seq_state look ch s = (e, q)" by (simp add: seq_state_def e_def q_def Let_def)
  have bnd: "0 \<le> e" "0 \<le> q" "q \<le> mx" "mx < 10 ^ 14" "e + 1 < 10 ^ 14"
    using seq room by (auto simp: seq_ok_def es Let_def)
  have hold: "holds_counter (look s ?e)" "holds_counter (look s ?q)"
    using seq by (auto simp: seq_ok_def Let_def)
  obtain s1 where s1: "INCR R ?q s = (q + 1, s1)" "look s1 = (look s)(?q := counter_obj (q + 1))"
    using INCR_law[OF hold(2)] bnd by (cases "INCR R ?q s") (auto simp: q_def in_int64_def)
  have e1: "look s1 ?e = look s ?e" using s1(2) by (simp add: key_simps)
  define s2 where "s2 = (if look s1 ?e = None then SET R ?e (Text ''0'') s1 else s1)"
  have zero: "Some (RStr (Text ''0'')) = counter_obj 0"
    by (simp add: counter_obj_def show_int_zero)
  have look2: "look s2 = (look s)(?q := counter_obj (q + 1), ?e := counter_obj e)"
    using s1(2) e1 hold(1) by (auto simp: s2_def SET_law zero e_def holds_counter_def fun_upd_twist key_simps)
  have ep: "(case GET R ?e s1 of None \<Rightarrow> (''0'', SET R ?e (Text ''0'') s1) | Some b \<Rightarrow> (bytes_string b, s1))
      = (show_int e, s2)"
    using epoch_text[of s1 ?e] hold(1) e1 by (simp add: s2_def e_def)
  have fr: "qv ch s2 = qv ch s" "ok ch s2 = ok ch s"
    using look2 by (auto simp: view_unfold)
  show ?thesis
  proof (cases "q + 1 > mx")
    case False
    then show ?thesis unfolding r_def n_def
      by (simp add: nextSeqScript_def s1(1) ep es seq_next_def fr)
        (use look2 bnd in \<open>auto simp: seq_ok_def seq_state_def Let_def key_simps\<close>)
  next
    case True
    define s3 where "s3 = SET R ?q (Text (show_int 0)) s2"
    have look3: "look s3 = (look s)(?q := counter_obj 0, ?e := counter_obj e)"
      using look2 by (simp add: s3_def SET_law counter_obj_def fun_upd_twist key_simps)
    obtain s4 where s4: "INCR R ?e s3 = (e + 1, s4)" "look s4 = (look s3)(?e := counter_obj (e + 1))"
      using INCR_law[of s3 ?e] bnd look3 by (cases "INCR R ?e s3") (auto simp: in_int64_def)
    have "qv ch s4 = qv ch s" "ok ch s4 = ok ch s"
      using look3 s4(2) by (auto simp: view_unfold)
    then show ?thesis using True unfolding r_def n_def
      by (simp add: nextSeqScript_def s1(1) ep es seq_next_def s3_def[symmetric] s4(1))
        (use look3 s4(2) bnd in \<open>auto simp: seq_ok_def seq_state_def Let_def key_simps\<close>)
  qed
qed

text \<open>Time to live across a rewrite of an entity.\<close>

lemma PTTL_set_keep_ttl:
  "PTTL R k' (set_keep_ttl R k raw s) =
     (if k' \<noteq> k then PTTL R k' s else if TTL R k s > 0 then 1000 * TTL R k s else -1)"
  by (simp add: set_keep_ttl_def Let_def PTTL_EXPIRE PTTL_SET SET_law)

lemma restamp_PTTL:
  assumes "restamp R k t st now s = (Inr (), s')"
  shows "PTTL R k s' = (if TTL R k s > 0 then 1000 * TTL R k s else -1)"
  using assms by (auto simp: restamp_def PTTL_set_keep_ttl split: option.splits)

lemma TTL_unreserve:
  "TTL R (Keys_Message (NewKeys ch) i) (snd (ZREM R (k_Reserved (NewKeys ch)) x s)) = TTL R (Keys_Message (NewKeys ch) i) s"
  by (rule TTL_cong, rule PTTL_ZREM) (simp add: key_simps)

text \<open>Every commit script rewrites the expiry from \<^verbatim>\<open>TTL\<close>, which counts whole seconds.\<close>

lemma commit_PTTL:
  assumes "ok ch s" and "clock_ok now" and "q_msgs (qv ch s) i = Some m"
  defines "k \<equiv> NewKeys ch"
  defines "p \<equiv> if TTL R (Keys_Message k i) s > 0 then 1000 * TTL R (Keys_Message k i) s else -1"
  shows "PTTL R (Keys_Message k i) (snd (ackScript R (k_Reserved k) (Keys_Message k i) i now s)) = p"
    "PTTL R (Keys_Message k i) (snd (dropScript R (k_Reserved k) (Keys_Message k i) i now s)) = p"
    "PTTL R (Keys_Message k i) (snd (failScript R (k_Reserved k) (k_Failed k) (Keys_Message k i) i now s)) = p"
    "PTTL R (Keys_Message k i) (snd (requeueScript R (k_Reserved k) (k_Waiting k) (Keys_Message k i) i now s)) = p"
proof -
  let ?s1 = "snd (ZREM R (k_Reserved k) i s)"
  have s1: "ok ch ?s1" "q_msgs (qv ch ?s1) i = Some m"
    using unreserve_step[OF assms(1), of i] assms(3) by (simp_all add: k_def)
  have step: "\<exists>raw t s'. GET R (Keys_Message k i) ?s1 = Some raw \<and> decode_table R raw = Some t \<and>
      restamp R (Keys_Message k i) t st now ?s1 = (Inr (), s') \<and> PTTL R (Keys_Message k i) s' = p" for st
    using s1(1) assms(2)
  proof (cases rule: entity_step[where i = i and st = st])
    case missing
    then show ?thesis using s1(2) by simp
  next
    case (present m' raw t s')
    then show ?thesis using restamp_PTTL[OF present(4)] TTL_unreserve[of ch i i s] by (auto simp: p_def k_def)
  qed
  show "PTTL R (Keys_Message k i) (snd (ackScript R (k_Reserved k) (Keys_Message k i) i now s)) = p"
    using step[of "''done''"] by (auto simp: ackScript_def Let_def)
  show "PTTL R (Keys_Message k i) (snd (dropScript R (k_Reserved k) (Keys_Message k i) i now s)) = p"
    using step[of "''dropped''"] by (auto simp: dropScript_def Let_def)
  show "PTTL R (Keys_Message k i) (snd (failScript R (k_Reserved k) (k_Failed k) (Keys_Message k i) i now s)) = p"
    using step[of "''failed''"] by (auto simp: failScript_def Let_def PTTL_LPUSH key_simps k_def)
  show "PTTL R (Keys_Message k i) (snd (requeueScript R (k_Reserved k) (k_Waiting k) (Keys_Message k i) i now s)) = p"
    using step[of "''waiting''"] by (auto simp: requeueScript_def Let_def PTTL_LPUSH key_simps k_def)
qed

end

end
