(* ===== verification/Redis_Memory.thy ===== *)
theory Redis_Memory
  imports Redis_Server
begin

text \<open>
  An in-memory Redis server with a \<^verbatim>\<open>cjson\<close> library, the concrete instance of the server
  parameter: the locales of \<open>Redis_Server\<close> are interpreted on it, and closed instances of the
  theorems evaluate over it.
\<close>

section \<open>The key space\<close>

record mem =
  m_obj :: "string \<Rightarrow> robj option"
  m_exp :: "string \<Rightarrow> int option"     \<comment> \<open>remaining milliseconds\<close>

definition mem_empty :: mem where
  "mem_empty = \<lparr>m_obj = (\<lambda>_. None), m_exp = (\<lambda>_. None)\<rparr>"

text \<open>Storing a value keeps the expiry of the key; removing the value removes the expiry.\<close>

definition mem_put :: "string \<Rightarrow> robj option \<Rightarrow> mem \<Rightarrow> mem" where
  "mem_put k v s = s\<lparr>m_obj := (m_obj s)(k := v),
     m_exp := (if v = None then (m_exp s)(k := None) else m_exp s)\<rparr>"

definition mem_pttl :: "string \<Rightarrow> mem \<Rightarrow> int" where
  "mem_pttl k s = (if m_obj s k = None then -2 else case m_exp s k of None \<Rightarrow> -1 | Some n \<Rightarrow> max 0 n)"

definition mem_ttl :: "string \<Rightarrow> mem \<Rightarrow> int" where
  "mem_ttl k s = (let p = mem_pttl k s in if p < 0 then p else (p + 500) div 1000)"

definition mem_pexpire :: "string \<Rightarrow> int \<Rightarrow> mem \<Rightarrow> mem" where
  "mem_pexpire k n s = (if m_obj s k = None then s else s\<lparr>m_exp := (m_exp s)(k \<mapsto> n)\<rparr>)"

definition mem_set :: "string \<Rightarrow> bytes \<Rightarrow> mem \<Rightarrow> mem" where
  "mem_set k v s = (mem_put k (Some (RStr v)) s)\<lparr>m_exp := (m_exp s)(k := None)\<rparr>"

definition mem_incr :: "string \<Rightarrow> mem \<Rightarrow> int \<times> mem" where
  "mem_incr k s = (let n = counter_value (m_obj s k) + 1 in (n, mem_put k (counter_obj n) s))"

definition mem_rpop :: "string \<Rightarrow> mem \<Rightarrow> string option \<times> mem" where
  "mem_rpop k s = (let xs = as_list (m_obj s k) in
     (if xs = [] then None else Some (last xs), mem_put k (list_obj (butlast xs)) s))"

definition mem_rpoplpush :: "string \<Rightarrow> string \<Rightarrow> mem \<Rightarrow> string option \<times> mem" where
  "mem_rpoplpush k d s = (let xs = as_list (m_obj s k) in
     if xs = [] then (None, s)
     else let s1 = mem_put k (list_obj (butlast xs)) s
          in (Some (last xs), mem_put d (Some (RList (last xs # as_list (m_obj s1 d)))) s1))"

definition mem_lrem :: "string \<Rightarrow> string \<Rightarrow> mem \<Rightarrow> int \<times> mem" where
  "mem_lrem k x s = (let xs = as_list (m_obj s k) in
     (int (count_list xs x), mem_put k (list_obj (removeAll x xs)) s))"

definition mem_lpos :: "string \<Rightarrow> string \<Rightarrow> mem \<Rightarrow> lua_val" where
  "mem_lpos k x s = (let xs = as_list (m_obj s k) in
     if x \<in> set xs then LNum (int (length (takeWhile (\<lambda>y. y \<noteq> x) xs))) else LBool False)"

definition mem_zrem :: "string \<Rightarrow> string \<Rightarrow> mem \<Rightarrow> int \<times> mem" where
  "mem_zrem k x s = (let z = as_zset (m_obj s k) in
     (if x \<in> zset_members z then 1 else 0, mem_put k (zset_obj (zset_rem x z)) s))"


section \<open>JSON in Lua\<close>

fun lua_of_json :: "json \<Rightarrow> lua_val" where
  "lua_of_json JNull = LNull"
| "lua_of_json (JBool b) = LBool b"
| "lua_of_json (JInt n) = LNum n"
| "lua_of_json (JNum x) = LReal x"
| "lua_of_json (JStr x) = LStr x"
| "lua_of_json (JArr js) =
     LTable (zip (map (\<lambda>i. KNum (int i)) [1..<Suc (length js)]) (map lua_of_json js))"
| "lua_of_json (JObj fs) = LTable (map (\<lambda>(k, j). (KStr k, lua_of_json j)) fs)"

fun key_text :: "lua_key \<Rightarrow> string" where
  "key_text (KStr x) = x" | "key_text (KNum n) = show_int n"

fun is_index :: "lua_key \<Rightarrow> bool" where
  "is_index (KNum n) = True" | "is_index (KStr x) = False"

fun json_of_lua :: "lua_val \<Rightarrow> json" where
  "json_of_lua LNil = JNull"
| "json_of_lua (LBool b) = JBool b"
| "json_of_lua (LNum n) = JInt n"
| "json_of_lua (LReal x) = JNum x"
| "json_of_lua (LStr x) = JStr x"
| "json_of_lua LNull = JNull"
| "json_of_lua (LTable t) =
     (if t \<noteq> [] \<and> list_all (\<lambda>(k, v). is_index k) t then JArr (map (\<lambda>(k, v). json_of_lua v) t)
      else JObj (map (\<lambda>(k, v). (key_text k, json_of_lua v)) t))"

fun mem_cjson_decode :: "bytes \<Rightarrow> lua_val option" where
  "mem_cjson_decode (Json j) = Some (lua_of_json j)" | "mem_cjson_decode (Text _) = None"

definition mem_cjson_encode :: "lua_val \<Rightarrow> bytes option" where
  "mem_cjson_encode v = Some (Json (json_of_lua v))"

text \<open>The values the library gives back unchanged (an empty array, for one, comes back as an
  empty object).\<close>

definition mem_safe :: "json \<Rightarrow> bool" where
  "mem_safe j \<longleftrightarrow> json_of_lua (lua_of_json j) = j"

interpretation mem_cjson: cjson_library mem_cjson_decode mem_cjson_encode lua_of_json mem_safe
proof unfold_locales
  fix fs :: "(string \<times> json) list"
  assume "distinct (map fst fs)"
  then have "distinct (map (KStr \<circ> fst) fs)" by (simp add: distinct_map comp_inj_on inj_on_def)
  then show "\<exists>t. mem_cjson_decode (Json (JObj fs)) = Some (LTable t) \<and> distinct (map fst t) \<and>
      set t = (\<lambda>(k, j). (KStr k, lua_of_json j)) ` set fs"
    by (auto simp: comp_def case_prod_beta)
next
  fix fs :: "(string \<times> json) list" and t
  assume dist: "distinct (map fst t)" and safe: "\<forall>(k, j) \<in> set fs. mem_safe j"
    and eq: "set t = (\<lambda>(k, j). (KStr k, lua_of_json j)) ` set fs"
  let ?fs' = "map (\<lambda>(k, v). (key_text k, json_of_lua v)) t"
  have str: "\<exists>x. fst kv = KStr x" if "kv \<in> set t" for kv
    using that eq by auto
  have "\<not> (t \<noteq> [] \<and> list_all (\<lambda>(k, v). is_index k) t)"
    using str by (cases t) force+
  then have "mem_cjson_encode (LTable t) = Some (Json (JObj ?fs'))"
    by (simp add: mem_cjson_encode_def)
  moreover have "distinct (map fst ?fs')"
  proof -
    have "inj_on key_text (fst ` set t)"
      using str by (auto simp: inj_on_def) (metis fst_conv key_text.simps(1))
    then have "distinct (map key_text (map fst t))" using dist by (simp only: distinct_map set_map)
    then show ?thesis by (simp add: comp_def case_prod_beta)
  qed
  moreover have "set ?fs' = set fs"
  proof -
    have "set ?fs' = (\<lambda>(k, j). (k, json_of_lua (lua_of_json j))) ` set fs"
      by (auto simp: eq image_image case_prod_beta)
    also have "\<dots> = (\<lambda>x. x) ` set fs"
      using safe by (intro image_cong) (auto simp: mem_safe_def)
    finally show ?thesis by simp
  qed
  ultimately show "\<exists>fs'. mem_cjson_encode (LTable t) = Some (Json (JObj fs')) \<and> distinct (map fst fs')
      \<and> set fs' = set fs" by blast
qed (simp_all add: mem_safe_def)


section \<open>The server\<close>

definition mem_redis :: "mem redis" where
  "mem_redis = \<lparr>
     GET = (\<lambda>k s. as_str (m_obj s k)),
     SET = mem_set,
     DEL = (\<lambda>k. mem_put k None),
     EXISTS = (\<lambda>k s. if m_obj s k = None then 0 else 1),
     EXPIRE = (\<lambda>k n. mem_pexpire k (1000 * n)),
     PEXPIRE = mem_pexpire,
     TTL = mem_ttl,
     PTTL = mem_pttl,
     INCR = mem_incr,
     LPUSH = (\<lambda>k x s. mem_put k (Some (RList (x # as_list (m_obj s k)))) s),
     RPOP = mem_rpop,
     RPOPLPUSH = mem_rpoplpush,
     LREM = mem_lrem,
     LPOS = mem_lpos,
     LLEN = (\<lambda>k s. int (length (as_list (m_obj s k)))),
     ZADD = (\<lambda>k sc x s. mem_put k (Some (RZset (zset_add sc x (as_zset (m_obj s k))))) s),
     ZREM = mem_zrem,
     ZSCORE = (\<lambda>k x s. zset_score (as_zset (m_obj s k)) x),
     ZCARD = (\<lambda>k s. int (length (as_zset (m_obj s k)))),
     ZRANGEBYSCORE = (\<lambda>k mx limit s. zset_due mx limit (as_zset (m_obj s k))),
     cjson_decode = mem_cjson_decode,
     cjson_encode = mem_cjson_encode\<rparr>"

lemma mem_redis_simps [simp]:
  "GET mem_redis = (\<lambda>k s. as_str (m_obj s k))" "SET mem_redis = mem_set"
  "DEL mem_redis = (\<lambda>k. mem_put k None)" "EXISTS mem_redis = (\<lambda>k s. if m_obj s k = None then 0 else 1)"
  "EXPIRE mem_redis = (\<lambda>k n. mem_pexpire k (1000 * n))" "PEXPIRE mem_redis = mem_pexpire"
  "TTL mem_redis = mem_ttl" "PTTL mem_redis = mem_pttl" "INCR mem_redis = mem_incr"
  "LPUSH mem_redis = (\<lambda>k x s. mem_put k (Some (RList (x # as_list (m_obj s k)))) s)"
  "RPOP mem_redis = mem_rpop" "RPOPLPUSH mem_redis = mem_rpoplpush" "LREM mem_redis = mem_lrem"
  "LPOS mem_redis = mem_lpos" "LLEN mem_redis = (\<lambda>k s. int (length (as_list (m_obj s k))))"
  "ZADD mem_redis = (\<lambda>k sc x s. mem_put k (Some (RZset (zset_add sc x (as_zset (m_obj s k))))) s)"
  "ZREM mem_redis = mem_zrem" "ZSCORE mem_redis = (\<lambda>k x s. zset_score (as_zset (m_obj s k)) x)"
  "ZCARD mem_redis = (\<lambda>k s. int (length (as_zset (m_obj s k))))"
  "ZRANGEBYSCORE mem_redis = (\<lambda>k mx limit s. zset_due mx limit (as_zset (m_obj s k)))"
  "cjson_decode mem_redis = mem_cjson_decode" "cjson_encode mem_redis = mem_cjson_encode"
  by (simp_all add: mem_redis_def)

lemmas mem_defs = mem_put_def mem_pttl_def mem_ttl_def mem_pexpire_def mem_set_def mem_incr_def
  mem_rpop_def mem_rpoplpush_def mem_lrem_def mem_lpos_def mem_zrem_def Let_def

lemma seconds_rounding:
  fixes p :: int
  assumes "0 \<le> p"
  shows "0 \<le> (p + 500) div 1000 \<and> \<bar>1000 * ((p + 500) div 1000) - p\<bar> < 1000"
  using assms by linarith

interpretation mem: redis_server mem_redis m_obj
  by unfold_locales (auto simp: mem_defs seconds_rounding split: option.splits)

end
