(* ===== verification/Driver_Refinement.thy ===== *)
theory Driver_Refinement
  imports Redis_Driver Lua_Refinement Redis_Memory
begin

text \<open>
  The Redis driver implements the abstract queue: each method, on every outcome of its client
  calls and under interference by other clients between them, acts on the view of its channel as
  the operations of \<open>Queue_Spec\<close> prescribe.
\<close>

section \<open>Client calls\<close>

definition executed :: "'s world \<Rightarrow> bool" where
  "executed w \<longleftrightarrow> (case w_net w (w_tick w) of Refused _ \<Rightarrow> False | _ \<Rightarrow> True)"

definition reply_of :: "'s world \<Rightarrow> error + 'a \<Rightarrow> error + 'a" where
  "reply_of w r = (case w_net w (w_tick w) of Delivered \<Rightarrow> r | Refused e \<Rightarrow> Inl e | ReplyLost e \<Rightarrow> Inl e)"

definition after_call :: "'s world \<Rightarrow> 's \<Rightarrow> 's world" where
  "after_call w s = w\<lparr>w_tick := Suc (w_tick w), w_db := if executed w then s else db_at w\<rparr>"

lemma client_call_eq:
  "f (db_at w) = (r, s) \<Longrightarrow> client_call f w = (reply_of w r, after_call w s)"
  by (auto simp: client_call_def reply_of_def after_call_def executed_def Let_def split: fault.split)

lemma client_call_opt_eq:
  "f (db_at w) = Some (r, s) \<Longrightarrow> client_call_opt f w = Some (reply_of w r, after_call w s)"
  by (auto simp: client_call_opt_def reply_of_def after_call_def executed_def Let_def split: fault.split)

lemma after_call_proj [simp]:
  "w_tick (after_call w s) = Suc (w_tick w)" "w_net (after_call w s) = w_net w"
  "w_env (after_call w s) = w_env w" "w_wall (after_call w s) = w_wall w"
  "w_clock (after_call w s) = w_clock w"
  "w_db (after_call w s) = (if executed w then s else db_at w)"
  by (simp_all add: after_call_def)

lemma reply_of_Inr: "reply_of w r = Inr x \<longleftrightarrow> w_net w (w_tick w) = Delivered \<and> r = Inr x"
  by (auto simp: reply_of_def split: fault.splits)

lemma Delivered_executed: "w_net w (w_tick w) = Delivered \<Longrightarrow> executed w"
  by (simp add: executed_def)

lemma reply_of_case [simp]:
  "(case reply_of w (Inr x) of Inl e \<Rightarrow> (Inl e, w1) | Inr y \<Rightarrow> (Inr (g y), w1)) = (reply_of w (Inr (g x)), w1)"
  by (auto simp: reply_of_def split: fault.split)

lemma reply_of_then [simp]:
  "(case reply_of w (Inr x) of Inl e \<Rightarrow> (Inl e, w1) | Inr y \<Rightarrow> (h y, w1)) = (reply_of w (h x), w1)"
  by (auto simp: reply_of_def split: fault.split)


section \<open>Well-formed worlds\<close>

text \<open>The data invariant of a channel, kept by other clients, and sensible clocks: seconds since the
  epoch that a Lua number prints exactly.\<close>

definition clocks_ok :: "'s world \<Rightarrow> bool" where
  "clocks_ok w \<longleftrightarrow> (\<forall>n. 0 \<le> w_clock w n \<and> Unix (w_clock w n) + 1 < 10 ^ 14 \<and> \<bar>w_wall w n\<bar> < 10 ^ 14)"

definition world_ok :: "(json \<Rightarrow> bool) \<Rightarrow> ('s \<Rightarrow> string \<Rightarrow> robj option) \<Rightarrow> string \<Rightarrow> 's world \<Rightarrow> bool" where
  "world_ok safe look ch w \<longleftrightarrow> chan_ok safe look ch (w_db w) \<and>
     (\<forall>n s. chan_ok safe look ch s \<longrightarrow> chan_ok safe look ch (w_env w n s)) \<and> clocks_ok w"

abbreviation secs :: "'s world \<Rightarrow> int" where
  "secs w \<equiv> Unix (clock_now w)"

lemma world_ok_db_at: "world_ok safe look ch w \<Longrightarrow> chan_ok safe look ch (db_at w)"
  by (simp add: world_ok_def db_at_def)

lemma world_ok_after: "world_ok safe look ch w \<Longrightarrow> chan_ok safe look ch s \<Longrightarrow> world_ok safe look ch (after_call w s)"
  using world_ok_db_at[of safe look ch w] by (simp add: world_ok_def clocks_ok_def)

lemma world_ok_clock: "world_ok safe look ch w \<Longrightarrow> clock_ok (secs w) \<and> clock_ok (secs w + 1)"
proof -
  assume "world_ok safe look ch w"
  then have "0 \<le> w_clock w (w_tick w)" "Unix (w_clock w (w_tick w)) + 1 < 10 ^ 14"
    by (auto simp: world_ok_def clocks_ok_def)
  moreover from this(1) have "0 \<le> secs w" by (simp add: Unix_def clock_now_def)
  ultimately show ?thesis by (simp add: clock_ok_def clock_now_def)
qed

text \<open>No interference: other clients leave the channel alone and nothing expires.\<close>

definition quiet :: "'s world \<Rightarrow> bool" where
  "quiet w \<longleftrightarrow> w_env w = (\<lambda>n s. s)"

lemma quiet_db_at [simp]: "quiet w \<Longrightarrow> db_at w = w_db w"
  by (simp add: quiet_def db_at_def)

lemma quiet_after [simp]: "quiet (after_call w s) \<longleftrightarrow> quiet w"
  by (simp add: quiet_def)


section \<open>Messages the driver writes\<close>

text \<open>The id of a channel's \<open>(epoch, number)\<close>, and the message \<^verbatim>\<open>Push\<close> stores.\<close>

definition id_text :: "string \<Rightarrow> int \<times> int \<Rightarrow> string" where
  "id_text ch es = k_Channel (NewKeys ch) @ '':'' @ show_int (fst es) @ '':'' @ show_int (snd es)"

definition message_id :: "string \<Rightarrow> int \<times> int \<Rightarrow> string" where
  "message_id ch es = md5_hex (id_text ch es)"

definition pushed :: "int \<Rightarrow> int \<Rightarrow> string \<Rightarrow> Message \<Rightarrow> Message" where
  "pushed wall delay i m =
     SetStatus wall (if delay = 0 then StatusWaiting else StatusDelayed) (m\<lparr>ID := i\<rparr>)"

definition stored :: "Message \<Rightarrow> Message" where
  "stored m = m\<lparr>Payload := Some (Json (payload_json m))\<rparr>"

definition storable :: "(json \<Rightarrow> bool) \<Rightarrow> Message \<Rightarrow> bool" where
  "storable safe m \<longleftrightarrow> lua_exact m \<and> (\<forall>t. Payload m \<noteq> Some (Text t)) \<and> safe (payload_json m)"

text \<open>The reservation deadline \<^verbatim>\<open>Pop\<close> sets, and what it returns without a message.\<close>

definition pop_deadline :: "int \<Rightarrow> 's world \<Rightarrow> int" where
  "pop_deadline ht w = Unix (clock_now w + (if ht \<le> 0 then 10 * second_ns else ht))"

abbreviation idle :: "error option \<Rightarrow> error + string \<times> Message option" where
  "idle ctx \<equiv> (case ctx of Some e \<Rightarrow> Inl e | None \<Rightarrow> Inr ('''', None))"

lemma lua_exact_fill: "lua_exact m \<Longrightarrow> \<bar>wall\<bar> < 10 ^ 14 \<Longrightarrow> lua_exact (fill_defaults wall m)"
  by (auto simp: lua_exact_def fill_defaults_def Let_def)

lemma fill_defaults_simps [simp]:
  "Payload (fill_defaults wall m) = Payload m" "ID (fill_defaults wall m) = ID m"
  "Attempts (fill_defaults wall m) = Attempts m"
  by (simp_all add: fill_defaults_def Let_def)

lemma lua_exact_retried: "lua_exact m \<Longrightarrow> \<bar>wall\<bar> < 10 ^ 14 \<Longrightarrow> lua_exact (retried wall d m)"
  by (auto simp: lua_exact_def retried_def Let_def)

lemma retried_Payload [simp]: "Payload (retried wall d m) = Payload m"
  by (simp add: retried_def Let_def)

lemma storable_pushed: "storable safe m \<Longrightarrow> \<bar>wall\<bar> < 10 ^ 14 \<Longrightarrow> storable safe (pushed wall d i m)"
  by (auto simp: storable_def pushed_def lua_exact_def payload_json_def)

lemma world_ok_wall: "world_ok safe look ch w \<Longrightarrow> \<bar>wall_now w\<bar> < 10 ^ 14"
  by (simp add: world_ok_def clocks_ok_def wall_now_def)


section \<open>The methods\<close>

context redis_lua begin

abbreviation wok :: "string \<Rightarrow> 's world \<Rightarrow> bool" where
  "wok \<equiv> world_ok safe look"

text \<open>What the next call of the driver finds on the channel.\<close>

abbreviation now_q :: "string \<Rightarrow> 's world \<Rightarrow> qstate" where
  "now_q ch w \<equiv> qv ch (db_at w)"

lemma Ack_refines:
  assumes "wok ch w"
  shows "\<exists>s. Ack R ch i w = (reply_of w (Inr ()), after_call w s) \<and> ok ch s \<and> qv ch s = q_ack i (secs w) (now_q ch w)"
  using ackScript_refines[OF world_ok_db_at[OF assms], of "secs w" i] world_ok_clock[OF assms]
  by (auto simp: Ack_def Let_def client_call_eq)

lemma Drop_refines:
  assumes "wok ch w"
  shows "\<exists>s. Drop R ch i w = (reply_of w (Inr ()), after_call w s) \<and> ok ch s \<and> qv ch s = q_drop i (secs w) (now_q ch w)"
  using dropScript_refines[OF world_ok_db_at[OF assms], of "secs w" i] world_ok_clock[OF assms]
  by (auto simp: Drop_def Let_def client_call_eq)

lemma Fail_refines:
  assumes "wok ch w"
  shows "\<exists>s. Fail R ch i w = (reply_of w (Inr ()), after_call w s) \<and> ok ch s \<and> qv ch s = q_fail i (secs w) (now_q ch w)"
  using failScript_refines[OF world_ok_db_at[OF assms], of "secs w" i] world_ok_clock[OF assms]
  by (auto simp: Fail_def Let_def client_call_eq)

lemma Requeue_refines:
  assumes "wok ch w"
  shows "\<exists>s. Requeue R ch i w = (reply_of w (Inr ()), after_call w s) \<and> ok ch s \<and> qv ch s = q_requeue i (secs w) (now_q ch w)"
  using requeueScript_refines[OF world_ok_db_at[OF assms], of "secs w" i] world_ok_clock[OF assms]
  by (auto simp: Requeue_def Let_def client_call_eq)

lemma Cancel_refines:
  assumes "wok ch w" and "i \<noteq> ''''"
  shows "\<exists>s. Cancel R ch i w =
      (reply_of w (case fst (q_cancel i (secs w) (now_q ch w)) of
           Canceled \<Rightarrow> Inr True | InExecution \<Rightarrow> Inl ErrMessageAlreadyInExecution
         | _ \<Rightarrow> Inl ErrMessageAlreadyReadyForDispatch), after_call w s) \<and>
      ok ch s \<and> qv ch s = snd (q_cancel i (secs w) (now_q ch w))"
proof -
  obtain s where "cancelByIDScript R (k_Waiting (NewKeys ch)) (k_Reserved (NewKeys ch)) (k_Delayed (NewKeys ch))
        (Keys_Message (NewKeys ch) i) i (secs w) (db_at w)
      = (Inr (cancel_code (fst (q_cancel i (secs w) (now_q ch w)))), s)"
    and s: "ok ch s" "qv ch s = snd (q_cancel i (secs w) (now_q ch w))"
    using cancelByIDScript_refines[OF world_ok_db_at[OF assms(1)], of "secs w" i] world_ok_clock[OF assms(1)] by blast
  then show ?thesis using assms(2)
    by (auto simp: Cancel_def Let_def client_call_eq asIntResult_def reply_of_def
        split: cancel_outcome.split fault.split)
qed

section \<open>Reading and retrying\<close>

lemma stored_message:
  assumes "ok ch s" and "q_msgs (qv ch s) i = Some m"
  shows "lua_exact m" "go_message m" "\<exists>j. Payload m = Some (Json j) \<and> safe j"
proof -
  obtain fs where fs: "stores safe fs m" using assms by (cases rule: entity_cases[of _ _ i]) auto
  then show "lua_exact m" "go_message m" by (auto simp: stores_def spells_def)
  from fs obtain j where j: "map_of fs ''payload'' = Some j" "Payload m = Some (Json j)"
    by (auto simp: stores_def spells_def)
  from fs map_of_SomeD[OF j(1)] have "safe j" by (auto simp: stores_def)
  then show "\<exists>j. Payload m = Some (Json j) \<and> safe j" using j(2) by blast
qed

lemma loadMessage_refines:
  assumes "wok ch w"
  shows "loadMessage R ch i w =
    (reply_of w (case q_msgs (now_q ch w) i of None \<Rightarrow> Inl ErrRedisNil
       | Some m \<Rightarrow> Inr (fill_defaults (wall_now (after_call w (db_at w))) m)), after_call w (db_at w))"
  using world_ok_db_at[OF assms]
proof (cases rule: entity_cases[of _ _ i])
  case missing
  then show ?thesis by (simp add: loadMessage_def Let_def client_call_eq reply_of_def split: fault.split)
next
  case (present m fs)
  then show ?thesis
    by (simp add: loadMessage_def Let_def client_call_eq DecodeMessage_def unmarshal_stores)
qed

lemma Encode_stores:
  assumes "storable safe m"
  shows "\<exists>fs. Encode m = Inr (Json (JObj fs)) \<and> stores safe fs (stored m)"
proof -
  have m: "lua_exact m" "\<forall>t. Payload m \<noteq> Some (Text t)" "safe (payload_json m)"
    using assms by (simp_all add: storable_def)
  obtain b where b: "Encode m = Inr b" using Encode_total[of m] m(2) by blast
  have "go_message m" using m(1) by (auto simp: lua_exact_def go_message_def in_int64_def)
  then obtain fs where fs: "b = Json (JObj fs)" "spells fs (stored m)"
    using Encode_spells[OF _ b] by (auto simp: stored_def)
  have "fs = message_members m (payload_json m)" using Encode_cases[OF b] fs(1) by simp
  then have "\<forall>(k, j) \<in> set fs. safe j"
    using m(1,3) by (auto simp: message_members_def lua_exact_def safe_string safe_int)
  then show ?thesis using b fs m(1) by (auto simp: stores_def stored_def lua_exact_def)
qed

lemma Retry_refines:
  fixes d :: int
  assumes "wok ch w" and "i \<noteq> ''''" and read: "w_net w (w_tick w) = Delivered"
    and m: "q_msgs (now_q ch w) i = Some m"
  defines "w1 \<equiv> after_call w (db_at w)"
  defines "rq \<equiv> q_retry i (retried (wall_now w1) d (fill_defaults (wall_now w1) m)) (retry_mode d)
                 (int64 (secs w1 + d)) (now_q ch w1)"
  shows "\<exists>s. Retry R ch i d w = (reply_of w1 (Inr (fst rq)), after_call w1 s) \<and> ok ch s \<and> qv ch s = snd rq"
proof -
  have w1: "wok ch w1" unfolding w1_def using assms(1) by (simp add: world_ok_after world_ok_db_at)
  have load: "loadMessage R ch i w = (Inr (fill_defaults (wall_now w1) m), w1)"
    using loadMessage_refines[OF assms(1), of i] m read by (simp add: w1_def reply_of_def)
  let ?m = "fill_defaults (wall_now w1) m" and ?m2 = "retried (wall_now w1) d (fill_defaults (wall_now w1) m)"
  have wall: "\<bar>wall_now w1\<bar> < 10 ^ 14" using world_ok_wall[OF w1] .
  have ex: "lua_exact ?m"
    using stored_message(1)[OF world_ok_db_at[OF assms(1)] m] wall by (rule lua_exact_fill)
  obtain j where j: "Payload m = Some (Json j)" "safe j"
    using stored_message(3)[OF world_ok_db_at[OF assms(1)] m] by blast
  then have st: "storable safe ?m2"
    using lua_exact_retried[OF ex wall] by (simp add: storable_def payload_json_def)
  have same: "stored ?m2 = ?m2" using j(1) by (simp add: stored_def payload_json_def)
  obtain fs where fs: "Encode ?m2 = Inr (Json (JObj fs))" "stores safe fs ?m2"
    using Encode_stores[OF st] same by metis
  have "int64 (Attempts ?m + 1) = Attempts ?m + 1"
    using ex by (intro int64_id) (auto simp: lua_exact_def in_int64_def)
  then have m2: "(let msg1 = (if d \<le> 0 then SetStatus (wall_now w1) StatusWaiting ?m
                   else SetStatus (wall_now w1) StatusDelayed ?m)
       in if Attempts msg1 < MaxAttempts msg1 then msg1\<lparr>Attempts := int64 (Attempts msg1 + 1)\<rparr> else msg1) = ?m2"
    by (simp add: retried_def Let_def)
  obtain s where "retryByIDScript R (k_Waiting (NewKeys ch)) (k_Reserved (NewKeys ch)) (k_Delayed (NewKeys ch))
             (k_Timeout (NewKeys ch)) (k_Failed (NewKeys ch)) (Keys_Message (NewKeys ch) i)
             i (int64 (secs w1 + d)) (Json (JObj fs)) (retry_mode d) (db_at w1) = (Inr (if fst rq then 1 else 0), s)"
    and "ok ch s" "qv ch s = snd rq"
    using retryByIDScript_refines[OF world_ok_db_at[OF w1] fs(2), of i "int64 (secs w1 + d)" "retry_mode d"]
    unfolding rq_def by blast
  then show ?thesis
    using assms(2) m2 fs(1) unfolding retry_mode_def
    by (intro exI[of _ s]) (simp add: Retry_def load Let_def client_call_eq asBoolResult_def)
qed

lemma Retry_missing:
  assumes "wok ch w" and "i \<noteq> ''''" and "w_net w (w_tick w) = Delivered" and "q_msgs (now_q ch w) i = None"
  shows "Retry R ch i d w = (Inr False, after_call w (db_at w))"
  using loadMessage_refines[OF assms(1), of i] assms(2-) by (simp add: Retry_def reply_of_def)

lemma Retry_unread:
  assumes "wok ch w" and "i \<noteq> ''''" and "w_net w (w_tick w) \<in> {Refused e, ReplyLost e}"
  shows "Retry R ch i d w = (if errors_Is e ErrRedisNil then Inr False else Inl e, after_call w (db_at w))"
  using loadMessage_refines[OF assms(1), of i] assms(2-) by (auto simp: Retry_def reply_of_def)


section \<open>Publishing\<close>

lemma GenerateID_refines:
  assumes "wok ch w" and "seq_ok maxMessageSequence look ch (db_at w)" and "fst (seq_state look ch (db_at w)) + 1 < 10 ^ 14"
  defines "es \<equiv> seq_next maxMessageSequence (seq_state look ch (db_at w))"
  shows "\<exists>s. GenerateID R ch w = (reply_of w (Inr (message_id ch es)), after_call w s) \<and>
    seq_state look ch s = es \<and> seq_ok maxMessageSequence look ch s \<and> qv ch s = now_q ch w \<and> ok ch s"
proof -
  obtain r s where rs: "nextSeqScript R (k_SequenceKey (NewKeys ch)) (k_SequenceEpoch (NewKeys ch))
      maxMessageSequence (db_at w) = (r, s)" by force
  note step = nextSeqScript_step[OF assms(2,3), unfolded rs fst_conv snd_conv es_def[symmetric]]
  then have "r = Inr (show_int (snd es), show_int (fst es))" by blast
  then have "GenerateID R ch w = (reply_of w (Inr (message_id ch es)), after_call w s)"
    using rs by (simp add: GenerateID_def Let_def client_call_eq message_id_def id_text_def reply_of_def split: fault.split)
  then show ?thesis using step world_ok_db_at[OF assms(1)] by blast
qed

lemma Push_refines:
  fixes d ttl :: int
  assumes "wok ch w" and "seq_ok maxMessageSequence look ch (db_at w)" and "fst (seq_state look ch (db_at w)) + 1 < 10 ^ 14"
    and "storable safe m" and net: "w_net w (w_tick w) = Delivered"
  defines "i \<equiv> message_id ch (seq_next maxMessageSequence (seq_state look ch (db_at w)))"
  shows "\<exists>s1 s. let w1 = after_call w s1; m1 = pushed (wall_now w1) d i m in
    Push R ch (Some m) d ttl w = (reply_of w1 (Inr ()), Some m1, after_call w1 s) \<and>
    qv ch s1 = now_q ch w \<and> ok ch s1 \<and> ok ch s \<and>
    qv ch s = q_push i (stored m1) (if d = 0 then ''waiting'' else ''delayed'')
                (if d = 0 then 0 else int64 (secs w1 + d)) (now_q ch w1)"
proof -
  obtain s1 where gen: "GenerateID R ch w = (Inr i, after_call w s1)" and s1: "qv ch s1 = now_q ch w" "ok ch s1"
    using GenerateID_refines[OF assms(1-3)] net unfolding i_def by (auto simp: reply_of_def)
  define w1 where "w1 = after_call w s1"
  have w1: "wok ch w1" unfolding w1_def using assms(1) s1(2) by (rule world_ok_after)
  define m1 where "m1 = pushed (wall_now w1) d i m"
  have st: "storable safe m1" unfolding m1_def using assms(4) world_ok_wall[OF w1] by (rule storable_pushed)
  obtain fs where fs: "Encode m1 = Inr (Json (JObj fs))" "stores safe fs (stored m1)"
    using Encode_stores[OF st] by blast
  have ID: "ID m1 = i" by (simp add: m1_def pushed_def)
  let ?mode = "if d = 0 then ''waiting'' else ''delayed''"
  let ?score = "if d = 0 then 0 else int64 (secs w1 + d)"
  obtain s where s: "pushScript R (k_Waiting (NewKeys ch)) (k_Delayed (NewKeys ch)) (Keys_Message (NewKeys ch) i)
      i (Json (JObj fs)) ?mode ?score (if ttl < 0 then 0 else ttl) (db_at w1) = (Inr 1, s)" "ok ch s"
      "qv ch s = q_push i (stored m1) ?mode ?score (now_q ch w1)"
    using pushScript_refines[OF world_ok_db_at[OF w1] fs(2)] by blast
  have call: "client_call (pushScript R (k_Waiting (NewKeys ch)) (k_Delayed (NewKeys ch)) (Keys_Message (NewKeys ch) i)
      i (Json (JObj fs)) ?mode ?score (if ttl < 0 then 0 else ttl)) w1 = (reply_of w1 (Inr 1), after_call w1 s)"
    using s(1) by (rule client_call_eq)
  have "Push R ch (Some m) d ttl w = (reply_of w1 (Inr ()), Some m1, after_call w1 s)"
  proof (cases "d = 0")
    case True
    then have "SetStatus (wall_now w1) StatusWaiting (m\<lparr>ID := i\<rparr>) = m1" by (simp add: m1_def pushed_def)
    then show ?thesis using True gen call fs(1) ID
      by (simp add: Push_def Let_def w1_def[symmetric] reply_of_def split: fault.splits)
  next
    case False
    then have "SetStatus (wall_now w1) StatusDelayed (m\<lparr>ID := i\<rparr>) = m1" by (simp add: m1_def pushed_def)
    then show ?thesis using False gen call fs(1) ID
      by (simp add: Push_def Let_def w1_def[symmetric] reply_of_def split: fault.splits)
  qed
  then show ?thesis using s1 s(2,3) unfolding Let_def m1_def w1_def by blast
qed


section \<open>Claiming\<close>

text \<open>\<^verbatim>\<open>Pop\<close> returns.  If its script executed, the oldest live message was reserved; the message is
  returned only when both replies arrive and the entity is still there, and the reservation is
  withdrawn when it is not.\<close>

abbreviation pop_q :: "string \<Rightarrow> int \<Rightarrow> 's world \<Rightarrow> string option \<times> qstate" where
  "pop_q ch ht w \<equiv> q_pop (secs w) (pop_deadline ht w) (now_q ch w)"

lemma Pop_script:
  assumes "wok ch w"
  obtains s where "client_call_opt (popScript R (k_Waiting (NewKeys ch)) (k_Reserved (NewKeys ch))
      (k_MessagePrefix (NewKeys ch)) (secs w) (pop_deadline ht w)) w = Some (reply_of w (Inr (fst (pop_q ch ht w))), after_call w s)"
    "ok ch s" "qv ch s = snd (pop_q ch ht w)"
  using popScript_refines[OF world_ok_db_at[OF assms], of "secs w" "pop_deadline ht w"] world_ok_clock[OF assms]
    client_call_opt_eq[of "popScript R (k_Waiting (NewKeys ch)) (k_Reserved (NewKeys ch))
      (k_MessagePrefix (NewKeys ch)) (secs w) (pop_deadline ht w)" w] by blast

lemma Pop_idle:
  assumes "wok ch w" and "w_net w (w_tick w) \<noteq> Delivered \<or> fst (pop_q ch ht w) = None"
  shows "\<exists>s. Pop R ch pt ht ctx w = Some (idle ctx, after_call w s) \<and> ok ch s \<and> qv ch s = snd (pop_q ch ht w)"
proof -
  obtain s where s: "client_call_opt (popScript R (k_Waiting (NewKeys ch)) (k_Reserved (NewKeys ch))
      (k_MessagePrefix (NewKeys ch)) (secs w) (pop_deadline ht w)) w = Some (reply_of w (Inr (fst (pop_q ch ht w))), after_call w s)"
    "ok ch s" "qv ch s = snd (pop_q ch ht w)" using Pop_script[OF assms(1)] .
  then show ?thesis using assms(2)
    by (intro exI[of _ s]) (auto simp: Pop_def Let_def pop_deadline_def reply_of_def split: fault.splits)
qed

lemma Pop_claim:
  assumes "wok ch w" and "w_net w (w_tick w) = Delivered" and i: "fst (pop_q ch ht w) = Some i" "i \<noteq> ''''"
  shows "\<exists>s. ok ch s \<and> qv ch s = snd (pop_q ch ht w) \<and> (let w1 = after_call w s; w2 = after_call w1 (db_at w1) in
     Pop R ch pt ht ctx w = Some (case reply_of w1 (case q_msgs (now_q ch w1) i of None \<Rightarrow> Inl ErrRedisNil
                                   | Some m \<Rightarrow> Inr (fill_defaults (wall_now w2) m)) of
         Inl e \<Rightarrow> if errors_Is e ErrRedisNil
                  then (Inr ('''', None), snd (client_call (\<lambda>s. (Inr (), snd (ZREM R (k_Reserved (NewKeys ch)) i s))) w2))
                  else (Inl e, w2)
       | Inr m \<Rightarrow> (Inr (i, Some m), w2)))"
proof -
  obtain s where s: "client_call_opt (popScript R (k_Waiting (NewKeys ch)) (k_Reserved (NewKeys ch))
      (k_MessagePrefix (NewKeys ch)) (secs w) (pop_deadline ht w)) w = Some (reply_of w (Inr (fst (pop_q ch ht w))), after_call w s)"
    "ok ch s" "qv ch s = snd (pop_q ch ht w)" using Pop_script[OF assms(1)] .
  have w1: "wok ch (after_call w s)" using assms(1) s(2) by (rule world_ok_after)
  show ?thesis using s assms(2) i loadMessage_refines[OF w1, of i]
    by (intro exI[of _ s])
      (auto simp: Pop_def Let_def pop_deadline_def reply_of_def split: sum.split fault.splits)
qed

lemma Pop_delivered:
  assumes "wok ch w" and "quiet w" and "w_net w (w_tick w) = Delivered" and "w_net w (Suc (w_tick w)) = Delivered"
    and "q_waiting (qv ch (w_db w)) = ws @ i # dead" and "i \<noteq> ''''" and "q_msgs (qv ch (w_db w)) i = Some m"
    and "\<forall>x \<in> set dead. q_msgs (qv ch (w_db w)) x = None"
  shows "\<exists>w' wall. Pop R ch pt ht ctx w = Some (Inr (i, Some (fill_defaults wall (stamp StatusReserved (secs w) m))), w') \<and>
    wok ch w' \<and> qv ch (w_db w') = (q_mark i StatusReserved (secs w) (qv ch (w_db w)))
      \<lparr>q_waiting := ws, q_reserved := zset_add (pop_deadline ht w) i (q_reserved (qv ch (w_db w)))\<rparr> \<and>
    quiet w' \<and> w_net w' = w_net w \<and> w_tick w' = Suc (Suc (w_tick w)) \<and> w_clock w' = w_clock w"
proof -
  let ?q = "qv ch (w_db w)"
  have db: "db_at w = w_db w" using assms(2) by simp
  have live: "oldest_live (q_msgs ?q) (rev (q_waiting ?q)) = Some (i, rev ws)"
    using assms(5,7) oldest_live_skip[of "rev dead"] assms(8) by simp
  then have pop: "pop_q ch ht w = (Some i, (q_mark i StatusReserved (secs w) ?q)
      \<lparr>q_waiting := ws, q_reserved := zset_add (pop_deadline ht w) i (q_reserved ?q)\<rparr>)"
    by (simp add: q_pop_def db)
  obtain s where s: "ok ch s" "qv ch s = snd (pop_q ch ht w)"
    and eq: "Pop R ch pt ht ctx w = Some (let w1 = after_call w s; w2 = after_call w1 (db_at w1) in
       case reply_of w1 (case q_msgs (qv ch (db_at w1)) i of None \<Rightarrow> Inl ErrRedisNil
                                   | Some m \<Rightarrow> Inr (fill_defaults (wall_now w2) m)) of
         Inl e \<Rightarrow> if errors_Is e ErrRedisNil
                  then (Inr ('''', None), snd (client_call (\<lambda>s. (Inr (), snd (ZREM R (k_Reserved (NewKeys ch)) i s))) w2))
                  else (Inl e, w2)
       | Inr m \<Rightarrow> (Inr (i, Some m), w2))"
    using Pop_claim[OF assms(1,3), of ht i] pop assms(6) unfolding Let_def by auto
  have "db_at (after_call w s) = s" using assms(2,3) by (simp add: executed_def)
  moreover have "q_msgs (qv ch s) i = Some (stamp StatusReserved (secs w) m)" using s(2) pop assms(7) by simp
  ultimately show ?thesis
    using eq s pop assms(2,3,4) world_ok_after[OF world_ok_after[OF assms(1) s(1)] s(1)]
    by (auto simp: Let_def reply_of_def executed_def)
qed

lemma Retry_delivered:
  fixes d :: int
  assumes "wok ch w" and "quiet w" and "i \<noteq> ''''" and net: "\<forall>n. w_net w n = Delivered"
    and "q_msgs (qv ch (w_db w)) i = Some m"
  shows "\<exists>w' wall score. let rq = q_retry i (retried wall d (fill_defaults wall m)) (retry_mode d) score (qv ch (w_db w)) in
    Retry R ch i d w = (Inr (fst rq), w') \<and> wok ch w' \<and> quiet w' \<and> w_net w' = w_net w \<and> qv ch (w_db w') = snd rq"
proof -
  have db: "db_at w = w_db w" "db_at (after_call w (w_db w)) = w_db w" using assms(2) by simp_all
  let ?w1 = "after_call w (w_db w)"
  have w1: "wok ch ?w1" using world_ok_after[OF assms(1)] assms(1) by (simp add: world_ok_def)
  have ex: "executed ?w1" and rep: "reply_of ?w1 x = x" for x :: "error + bool"
    using net by (simp_all add: executed_def reply_of_def)
  obtain s where "Retry R ch i d w = (Inr (fst (q_retry i (retried (wall_now ?w1) d (fill_defaults (wall_now ?w1) m)) (retry_mode d)
        (int64 (secs ?w1 + d)) (qv ch (w_db w)))), after_call ?w1 s)" "ok ch s"
      "qv ch s = snd (q_retry i (retried (wall_now ?w1) d (fill_defaults (wall_now ?w1) m)) (retry_mode d)
        (int64 (secs ?w1 + d)) (qv ch (w_db w)))"
    using Retry_refines[OF assms(1,3), of m d] net assms(5) unfolding db rep by auto
  then show ?thesis using world_ok_after[OF w1] assms(2) ex unfolding Let_def
    by (intro exI[of _ "after_call ?w1 s"] exI[of _ "wall_now ?w1"] exI[of _ "int64 (secs ?w1 + d)"]) simp
qed

lemma Fail_delivered:
  assumes "wok ch w" and "quiet w" and "\<forall>n. w_net w n = Delivered"
  shows "\<exists>w' now. Fail R ch i w = (Inr (), w') \<and> wok ch w' \<and> quiet w' \<and> w_net w' = w_net w \<and>
    qv ch (w_db w') = q_fail i now (qv ch (w_db w))"
  using Fail_refines[OF assms(1), of i] assms world_ok_after[OF assms(1)]
  by (auto simp: reply_of_def executed_def)

section \<open>Forwarding, flushing, counting\<close>

lemma ForwardMessages_refines:
  fixes w :: "'s world"
  assumes "wok ch w" and net: "w_net w (w_tick w) = Delivered"
  shows "\<exists>s1 s2 d t. let w1 = after_call w s1 in
    ForwardMessages R ch w =
      (case reply_of w1 (Inr t) of Inl e \<Rightarrow> ((d, 0, Some e), after_call w1 s2)
       | Inr t \<Rightarrow> ((d, t, None), after_call w1 s2)) \<and>
    d = int (length (zset_due (secs w + 1) 100 (q_delayed (now_q ch w)))) \<and>
    ok ch s1 \<and> qv ch s1 = q_forward (secs w + 1) (now_q ch w) \<and>
    t = int (length (filter (\<lambda>i. q_msgs (now_q ch w1) i \<noteq> None) (zset_due (secs w) 100 (q_reserved (now_q ch w1))))) \<and>
    ok ch s2 \<and> qv ch s2 = q_expire (secs w) (now_q ch w1)"
proof -
  obtain s1 where s1: "moveScript R (k_Delayed (NewKeys ch)) (k_Waiting (NewKeys ch)) (k_MessagePrefix (NewKeys ch))
      (secs w + 1) StatusWaiting (db_at w)
        = (Inr (int (length (zset_due (secs w + 1) 100 (q_delayed (now_q ch w))))), s1)"
      "ok ch s1" "qv ch s1 = q_forward (secs w + 1) (now_q ch w)"
    using moveScript_refines[OF world_ok_db_at[OF assms(1)], of "secs w + 1"] world_ok_clock[OF assms(1)] by blast
  let ?w1 = "after_call w s1"
  have w1: "wok ch ?w1" using assms(1) s1(2) by (rule world_ok_after)
  obtain s2 where s2: "moveTimeoutScript R (k_Reserved (NewKeys ch)) (k_Timeout (NewKeys ch))
      (k_MessagePrefix (NewKeys ch)) (secs w) (db_at ?w1)
        = (Inr (int (length (filter (\<lambda>i. q_msgs (now_q ch ?w1) i \<noteq> None) (zset_due (secs w) 100 (q_reserved (now_q ch ?w1)))))), s2)"
      "ok ch s2" "qv ch s2 = q_expire (secs w) (now_q ch ?w1)"
    using moveTimeoutScript_refines[OF world_ok_db_at[OF w1], of "secs w"] by blast
  show ?thesis unfolding Let_def
    by (rule exI[of _ s1], rule exI[of _ s2], rule exI, rule exI, intro conjI)
      (use s1 s2 net in \<open>auto simp: ForwardMessages_def Let_def client_call_eq reply_of_def split: fault.split\<close>)
qed

lemma DEL_buckets:
  assumes "ok ch s" and "Keys_Get (NewKeys ch) name = Inr k"
  shows "ok ch (DEL R k s)" "qv ch (DEL R k s) = q_flush name (qv ch s)"
  using assms by (auto simp: Keys_Get_def view_unfold DEL_law q_flush_def split: if_splits)

lemma Keys_Get_failed: "Keys_Get (NewKeys ch) ''failed'' = Inr (k_Failed (NewKeys ch))"
  by (simp add: Keys_Get_def)

lemma Flush_refines:
  fixes queue :: string
  assumes "wok ch w"
  defines "name \<equiv> if queue = '''' then ''failed'' else queue"
  shows "(\<exists>e. Keys_Get (NewKeys ch) name = Inl e \<and> Flush R ch queue w = (Inl e, w)) \<or>
    (\<exists>s. Flush R ch queue w = (reply_of w (Inr ()), after_call w s) \<and> ok ch s \<and> qv ch s = q_flush name (now_q ch w))"
proof (cases "Keys_Get (NewKeys ch) name")
  case (Inl e)
  then show ?thesis using Keys_Get_failed by (cases "queue = ''''") (simp_all add: name_def Flush_def)
next
  case (Inr k)
  have "(if queue \<noteq> '''' then Keys_Get (NewKeys ch) queue else Inr (k_Failed (NewKeys ch))) = Inr k"
    using Inr Keys_Get_failed by (cases "queue = ''''") (simp_all add: name_def)
  then have "Flush R ch queue w = (reply_of w (Inr ()), after_call w (DEL R k (db_at w)))"
    by (simp add: Flush_def Let_def client_call_eq)
  then show ?thesis using DEL_buckets[OF world_ok_db_at[OF assms(1)] Inr] by blast
qed

lemma Info_refines:
  assumes "wok ch w" and "quiet w"
  shows "(\<exists>e w'. Driver_Info R ch w = (Inl e, w') \<and> w_db w' = w_db w) \<or>
    (\<exists>w'. Driver_Info R ch w = (Inr \<lparr>i_Waiting = int (length (q_waiting (now_q ch w))),
        i_Reserved = int (length (q_reserved (now_q ch w))), i_Delayed = int (length (q_delayed (now_q ch w))),
        i_Timeout = int (length (q_timeout (now_q ch w))), i_Failed = int (length (q_failed (now_q ch w)))\<rparr>, w') \<and>
      w_db w' = w_db w)"
proof -
  have ok: "ok ch (w_db w)" using assms(1) by (simp add: world_ok_def)
  have db: "db_at (after_call w' (db_at w')) = db_at w'" if "quiet w'" for w' :: "'s world"
    using that by simp
  show ?thesis using ok assms(2)
    by (simp add: Driver_Info_def Let_def client_call_eq bucket_reads reply_of_def split: fault.split)
qed


section \<open>Reloading\<close>

text \<open>Without interference the loop of \<^verbatim>\<open>Reload\<close> returns, whatever becomes of its calls: a batch that
  moved something shortened the source.  What holds of every batch holds at the end, and a return
  without error means that the last batch moved nothing.\<close>

lemma reload_call:
  assumes "wok ch w" and "quiet w" and "q_reload_batch src (skip = ''1'') (secs w) 100 0 (qv ch (w_db w)) = (k, q')"
  obtains s where "client_call (reloadScript R (dead_key (NewKeys ch) src) (k_Waiting (NewKeys ch))
      (k_MessagePrefix (NewKeys ch)) (secs w) skip) w = (reply_of w (Inr (int k)), after_call w s)"
    and "qv ch s = q'" and "wok ch (after_call w s)" and "quiet (after_call w s)"
proof -
  obtain s where s: "reloadScript R (dead_key (NewKeys ch) src) (k_Waiting (NewKeys ch)) (k_MessagePrefix (NewKeys ch))
      (secs w) skip (db_at w) = (Inr (int k), s)" "ok ch s" "qv ch s = q'"
    using reloadScript_refines[OF world_ok_db_at[OF assms(1)], of "secs w" src skip] world_ok_clock[OF assms(1)] assms(2,3) by auto
  have "client_call (reloadScript R (dead_key (NewKeys ch) src) (k_Waiting (NewKeys ch))
      (k_MessagePrefix (NewKeys ch)) (secs w) skip) w = (reply_of w (Inr (int k)), after_call w s)"
    using s(1) by (rule client_call_eq)
  then show thesis using that[OF _ s(3)] assms(1,2) s(2) by (simp add: world_ok_after)
qed

lemma reload_all_returns:
  assumes "wok ch w" and "quiet w" and "P acc (qv ch (w_db w))"
    and step: "\<forall>now t q k q'. P t q \<longrightarrow> q_reload_batch src (skip = ''1'') now 100 0 q = (k, q') \<longrightarrow> P (t + int k) q'"
  shows "\<exists>t e w'. reload_all R (NewKeys ch) (dead_key (NewKeys ch) src) skip acc w = Some ((t, e), w') \<and>
    wok ch w' \<and> quiet w' \<and> w_net w' = w_net w \<and> (\<exists>t'. P t' (qv ch (w_db w'))) \<and>
    ((\<forall>n. w_net w n = Delivered) \<longrightarrow> e = None) \<and> (e = None \<longrightarrow> P t (qv ch (w_db w')) \<and>
      (\<exists>now q. P t q \<and> q_reload_batch src (skip = ''1'') now 100 0 q = (0, qv ch (w_db w'))))"
  using assms(1-3)
proof (induction "length (q_dead src (qv ch (w_db w)))" arbitrary: w acc rule: less_induct)
  case less
  let ?q = "qv ch (w_db w)" and ?now = "secs w"
  obtain k q' where b: "q_reload_batch src (skip = ''1'') ?now 100 0 ?q = (k, q')" by force
  obtain s where call: "client_call (reloadScript R (dead_key (NewKeys ch) src) (k_Waiting (NewKeys ch))
      (k_MessagePrefix (NewKeys ch)) ?now skip) w = (reply_of w (Inr (int k)), after_call w s)"
    and q': "qv ch s = q'" and w1: "wok ch (after_call w s)" "quiet (after_call w s)"
    using reload_call[OF less.prems(1,2) b] by blast
  let ?w1 = "after_call w s"
  have P': "P (acc + int k) q'" using step less.prems(3) b by blast
  show ?case
  proof (cases "w_net w (w_tick w)")
    case Delivered
    then have db1: "w_db ?w1 = s" by (simp add: executed_def)
    show ?thesis
    proof (cases k)
      case 0
      then show ?thesis using Delivered call w1 P' b db1 q' less.prems(3)
        by (subst reload_all.simps) (auto simp: reply_of_def asIntResult_def)
    next
      case (Suc k')
      have "length (q_dead src (qv ch (w_db ?w1))) < length (q_dead src ?q)"
        using q_reload_batch_shrinks[OF b] Suc db1 q' by simp
      from less.hyps[OF this w1] show ?thesis using Delivered call P' Suc db1 q'
        by (subst reload_all.simps) (auto simp: reply_of_def asIntResult_def)
    qed
  next
    case (Refused x)
    have "w_db ?w1 = w_db w" using Refused less.prems(2) by (simp add: executed_def)
    then have "\<exists>t'. P t' (qv ch (w_db ?w1))" using less.prems(3) by auto
    moreover have "reload_all R (NewKeys ch) (dead_key (NewKeys ch) src) skip acc w = Some ((acc, Some x), ?w1)"
      using call Refused by (subst reload_all.simps) (simp add: reply_of_def)
    ultimately show ?thesis using w1 Refused by (auto intro: exI[of _ "w_tick w"])
  next
    case (ReplyLost x)
    have "qv ch (w_db ?w1) = q'" using ReplyLost q' by (simp add: executed_def)
    then have "\<exists>t'. P t' (qv ch (w_db ?w1))" using P' by auto
    moreover have "reload_all R (NewKeys ch) (dead_key (NewKeys ch) src) skip acc w = Some ((acc, Some x), ?w1)"
      using call ReplyLost by (subst reload_all.simps) (simp add: reply_of_def)
    ultimately show ?thesis using w1 ReplyLost by (auto intro: exI[of _ "w_tick w"])
  qed
qed

end


section \<open>The Redis driver meets the driver contract\<close>

context redis_lua begin

lemma commit_step:
  assumes "\<exists>s. op w = (reply_of w (Inr ()), after_call w s) \<and> ok ch s \<and> qv ch s = f (now_q ch w)"
    and "wok ch w" and "op w = (r, w')"
  shows "wok ch w' \<and> (quiet w \<longrightarrow> quiet w') \<and> committed f (now_q ch w) r (qv ch (w_db w'))"
  using assms world_ok_after[OF assms(2)]
  by (auto simp: committed_def reply_of_def executed_def split: fault.splits)

lemma Retry_step:
  assumes "wok ch w" and "Retry R ch i d w = (r, w')"
  shows "wok ch w' \<and> (quiet w \<longrightarrow> quiet w') \<and>
    (\<exists>q. (quiet w \<longrightarrow> q = now_q ch w) \<and> retry_commit i d (now_q ch w) q r (qv ch (w_db w')))"
proof -
  let ?w1 = "after_call w (db_at w)"
  have w1: "wok ch ?w1" using assms(1) by (simp add: world_ok_after world_ok_db_at)
  have same: "wok ch ?w1 \<and> (quiet w \<longrightarrow> quiet ?w1) \<and> (\<exists>q. (quiet w \<longrightarrow> q = now_q ch w) \<and>
      retry_commit i d (now_q ch w) q r (qv ch (w_db ?w1)))" if "r \<noteq> Inr True"
    using w1 that by (intro conjI exI[of _ "now_q ch w"])
      (auto simp: retry_commit_def split: sum.split bool.split)
  consider "i = ''''" | (unread) e where "i \<noteq> ''''" "w_net w (w_tick w) \<in> {Refused e, ReplyLost e}"
    | (missing) "i \<noteq> ''''" "w_net w (w_tick w) = Delivered" "q_msgs (now_q ch w) i = None"
    | (present) m where "i \<noteq> ''''" "w_net w (w_tick w) = Delivered" "q_msgs (now_q ch w) i = Some m"
    by (cases "w_net w (w_tick w)") auto
  then show ?thesis
  proof cases
    case 1
    then show ?thesis using assms by (auto simp: Retry_def retry_commit_def)
  next
    case unread
    then show ?thesis using Retry_unread[OF assms(1) unread] assms(2) same by (auto split: if_splits)
  next
    case missing
    then show ?thesis using Retry_missing[OF assms(1) missing] assms(2) same by auto
  next
    case (present m)
    define rq where "rq = q_retry i (retried (wall_now ?w1) d (fill_defaults (wall_now ?w1) m)) (retry_mode d)
                 (int64 (secs ?w1 + d)) (now_q ch ?w1)"
    obtain s where s: "Retry R ch i d w = (reply_of ?w1 (Inr (fst rq)), after_call ?w1 s)" "ok ch s" "qv ch s = snd rq"
      using Retry_refines[OF assms(1) present] unfolding rq_def by blast
    have same_q: "snd rq = now_q ch ?w1" if "\<not> fst rq"
      using that by (auto simp: rq_def q_retry_def split: if_splits)
    have moved: "q_moved i d (now_q ch w) (now_q ch ?w1) (snd rq)" if "fst rq"
      using that present(3) by (auto simp: q_moved_def rq_def prod_eq_iff)
    have "wok ch w'" "quiet w \<longrightarrow> quiet w'"
      using s assms(2) world_ok_after[OF w1 s(2)] by auto
    moreover have "retry_commit i d (now_q ch w) (now_q ch ?w1) r (qv ch (w_db w'))"
      using s assms(2) same_q moved
      by (cases "fst rq") (auto simp: retry_commit_def reply_of_def executed_def split: fault.splits)
    ultimately show ?thesis by (intro conjI exI[of _ "now_q ch ?w1"]) auto
  qed
qed

lemma Forward_step:
  assumes "wok ch w" and "ForwardMessages R ch w = ((d, t, e), w')"
  shows "wok ch w' \<and> (quiet w \<longrightarrow> quiet w') \<and> 0 \<le> d \<and> 0 \<le> t \<and>
    (quiet w \<longrightarrow> q_forwarded (secs w) e (now_q ch w) (qv ch (w_db w')))"
proof (cases "w_net w (w_tick w)")
  case Delivered
  obtain s1 s2 d' t' where
    f: "ForwardMessages R ch w = (case reply_of (after_call w s1) (Inr t') of
         Inl e \<Rightarrow> ((d', 0, Some e), after_call (after_call w s1) s2)
       | Inr t \<Rightarrow> ((d', t, None), after_call (after_call w s1) s2))"
    and d: "d' = int (length (zset_due (secs w + 1) 100 (q_delayed (now_q ch w))))"
    and s1: "ok ch s1" "qv ch s1 = q_forward (secs w + 1) (now_q ch w)"
    and t: "t' = int (length (filter (\<lambda>i. q_msgs (now_q ch (after_call w s1)) i \<noteq> None)
                 (zset_due (secs w) 100 (q_reserved (now_q ch (after_call w s1))))))"
    and s2: "ok ch s2" "qv ch s2 = q_expire (secs w) (now_q ch (after_call w s1))"
    using ForwardMessages_refines[OF assms(1) Delivered] unfolding Let_def by blast
  have "wok ch (after_call (after_call w s1) s2)"
    using world_ok_after[OF world_ok_after[OF assms(1) s1(1)] s2(1)] .
  then show ?thesis using f assms(2) d t s1(2) s2(2) Delivered
    by (auto simp: reply_of_def executed_def q_forwarded_def split: fault.splits sum.splits)
next
  case (Refused x)
  then show ?thesis using assms world_ok_after[OF assms(1) world_ok_db_at[OF assms(1)]]
    by (auto simp: ForwardMessages_def Let_def client_call_def after_call_def executed_def quiet_def q_forwarded_def)
next
  case (ReplyLost x)
  obtain s1 where s1: "moveScript R (k_Delayed (NewKeys ch)) (k_Waiting (NewKeys ch)) (k_MessagePrefix (NewKeys ch))
      (secs w + 1) StatusWaiting (db_at w)
        = (Inr (int (length (zset_due (secs w + 1) 100 (q_delayed (now_q ch w))))), s1)" "ok ch s1" "qv ch s1 = q_forward (secs w + 1) (now_q ch w)"
    using moveScript_refines[OF world_ok_db_at[OF assms(1)], of "secs w + 1"] world_ok_clock[OF assms(1)] by blast
  then show ?thesis using ReplyLost assms world_ok_after[OF assms(1) s1(2)]
    by (auto simp: ForwardMessages_def Let_def client_call_eq reply_of_def executed_def q_forwarded_def)
qed

text \<open>What a poll does to the channel without interference; the claim is withdrawn only when the
  client answered the read of the entity with \<^verbatim>\<open>redis.Nil\<close>.\<close>

abbreviation pop_outcome :: "string \<Rightarrow> int \<Rightarrow> 's world \<Rightarrow> error + string \<times> Message option \<Rightarrow> 's world \<Rightarrow> bool" where
  "pop_outcome ch ht w r w' \<equiv> wok ch w' \<and> (quiet w \<longrightarrow> quiet w') \<and> w_net w' = w_net w \<and>
    (quiet w \<longrightarrow> qv ch (w_db w') \<in> {now_q ch w, snd (pop_q ch ht w)} \<or>
      (\<exists>i n e. fst (pop_q ch ht w) = Some i \<and> qv ch (w_db w') = q_unreserve i (snd (pop_q ch ht w)) \<and>
         w_net w n \<in> {Refused e, ReplyLost e} \<and> errors_Is e ErrRedisNil)) \<and>
    (\<forall>i m. r = Inr (i, Some m) \<longrightarrow> i \<noteq> '''' \<and> fst (pop_q ch ht w) = Some i \<and>
       (quiet w \<longrightarrow> q_claimed i m (secs w) (now_q ch w) (qv ch (w_db w'))))"

lemma Pop_claim_step:
  assumes "wok ch w" and net: "w_net w (w_tick w) = Delivered" and i: "fst (pop_q ch ht w) = Some i" and ne: "i \<noteq> []"
  shows "\<exists>r w'. Pop R ch pt ht ctx w = Some (r, w') \<and> pop_outcome ch ht w r w'"
proof -
  obtain s where s: "ok ch s" "qv ch s = snd (pop_q ch ht w)" and
    pop: "let w1 = after_call w s; w2 = after_call w1 (db_at w1) in
   Pop R ch pt ht ctx w = Some (case reply_of w1 (case q_msgs (now_q ch w1) i of None \<Rightarrow> Inl ErrRedisNil
                                 | Some m \<Rightarrow> Inr (fill_defaults (wall_now w2) m)) of
       Inl e \<Rightarrow> if errors_Is e ErrRedisNil
                then (Inr ('''', None), snd (client_call (\<lambda>s. (Inr (), snd (ZREM R (k_Reserved (NewKeys ch)) i s))) w2))
                else (Inl e, w2)
     | Inr m \<Rightarrow> (Inr (i, Some m), w2))"
    using Pop_claim[OF assms] by blast
  let ?w1 = "after_call w s" and ?w2 = "after_call (after_call w s) (db_at (after_call w s))"
  let ?s3 = "snd (ZREM R (k_Reserved (NewKeys ch)) i (db_at ?w2))"
  let ?load = "reply_of ?w1 (case q_msgs (now_q ch ?w1) i of None \<Rightarrow> Inl ErrRedisNil
                                 | Some m \<Rightarrow> Inr (fill_defaults (wall_now ?w2) m))"
  have w1: "wok ch ?w1" using assms(1) s(1) by (rule world_ok_after)
  have w2: "wok ch ?w2" using w1 by (simp add: world_ok_after world_ok_db_at)
  have w3: "snd (client_call (\<lambda>s. (Inr (), snd (ZREM R (k_Reserved (NewKeys ch)) i s))) ?w2) = after_call ?w2 ?s3"
    by (simp add: client_call_eq)
  have ok3: "wok ch (after_call ?w2 ?s3)" using unreserve_step(1)[OF world_ok_db_at[OF w2]] by (rule world_ok_after[OF w2])
  obtain m0 where m0: "q_msgs (now_q ch w) i = Some m0" "q_msgs (qv ch s) i = Some (stamp StatusReserved (secs w) m0)"
    using q_pop_message[OF i] s(2) by metis
  have db: "db_at ?w1 = s" "w_db ?w2 = s" "db_at ?w2 = s" if "quiet w" using that net by (auto simp: executed_def)
  have claim: "q_claimed i m (secs w) (now_q ch w) (qv ch (w_db ?w2))" if "quiet w" "?load = Inr m" for m
  proof -
    have "m = fill_defaults (wall_now ?w2) (stamp StatusReserved (secs w) m0)"
      using that(2) db[OF that(1)] m0 by (auto simp: reply_of_def split: fault.splits)
    then show ?thesis using i s(2) m0 db[OF that(1)] unfolding q_claimed_def by (metis prod.collapse)
  qed
  have nil: "\<exists>n. w_net w n \<in> {Refused e, ReplyLost e}" if "quiet w" "?load = Inl e" for e
    using that(2) db[OF that(1)] m0 by (auto simp: reply_of_def split: fault.splits)
  have un: "qv ch (w_db (after_call ?w2 ?s3)) \<in> {snd (pop_q ch ht w), q_unreserve i (snd (pop_q ch ht w))}" if "quiet w"
    using unreserve_step(2)[OF world_ok_db_at[OF w2]] db[OF that] s(2) by (auto simp: executed_def)
  define W where "W = after_call ?w2 ?s3"
  have W: "wok ch W" "quiet w \<longrightarrow> quiet W" "w_net W = w_net w"
      "quiet w \<longrightarrow> qv ch (w_db W) \<in> {snd (pop_q ch ht w), q_unreserve i (snd (pop_q ch ht w))}"
    unfolding W_def using ok3 un by simp_all
  show ?thesis
  proof (cases ?load)
    case (Inl e)
    show ?thesis
    proof (cases "errors_Is e ErrRedisNil")
      case True
      then have "Pop R ch pt ht ctx w = Some (Inr ('''', None), W)"
        using pop Inl unfolding Let_def w3 W_def by simp
      then show ?thesis using W nil[OF _ Inl] True i by blast
    qed (use pop Inl w2 db s(2) in \<open>auto simp: Let_def\<close>)
  qed (use pop w2 db s(2) claim i ne in \<open>auto simp: Let_def\<close>)
qed

lemma Pop_step:
  assumes "wok ch w"
  shows "\<exists>r w'. Pop R ch pt ht ctx w = Some (r, w') \<and> pop_outcome ch ht w r w'"
proof (cases "w_net w (w_tick w) = Delivered \<and> fst (pop_q ch ht w) \<noteq> None")
  case False
  then obtain s where "Pop R ch pt ht ctx w = Some (idle ctx, after_call w s)" "ok ch s" "qv ch s = snd (pop_q ch ht w)"
    using Pop_idle[OF assms] by blast
  then show ?thesis using world_ok_after[OF assms] by (auto split: option.split)
next
  case True
  then obtain i where net: "w_net w (w_tick w) = Delivered" and i: "fst (pop_q ch ht w) = Some i" by blast
  show ?thesis
  proof (cases "i = ''''")
    case True
    obtain s where s: "client_call_opt (popScript R (k_Waiting (NewKeys ch)) (k_Reserved (NewKeys ch))
      (k_MessagePrefix (NewKeys ch)) (secs w) (pop_deadline ht w)) w = Some (reply_of w (Inr (fst (pop_q ch ht w))), after_call w s)"
      "ok ch s" "qv ch s = snd (pop_q ch ht w)" using Pop_script[OF assms] by metis
    then have "Pop R ch pt ht ctx w = Some (Inr ('''', None), after_call w s)"
      using True i net by (simp add: Pop_def Let_def pop_deadline_def reply_of_def)
    then show ?thesis using world_ok_after[OF assms s(2)] s(3) by auto
  next
    case False
    show ?thesis by (rule Pop_claim_step[OF assms net i False])
  qed
qed

lemma Pop_meets:
  assumes "wok ch w"
  shows "\<exists>r w'. Pop R ch pt ht ctx w = Some (r, w') \<and> wok ch w' \<and> (quiet w \<longrightarrow> quiet w') \<and>
    (quiet w \<longrightarrow> q_polled (secs w) (now_q ch w) (qv ch (w_db w'))) \<and>
    (\<forall>i m. r = Inr (i, Some m) \<longrightarrow> i \<noteq> '''' \<and> (\<exists>dl. fst (q_pop (secs w) dl (now_q ch w)) = Some i) \<and>
       (quiet w \<longrightarrow> q_claimed i m (secs w) (now_q ch w) (qv ch (w_db w'))))"
  using Pop_step[OF assms, of pt ht ctx] unfolding q_polled_def by blast

end

sublocale redis_lua \<subseteq> drv: queue_driver "redis_driver R" "world_ok safe look" "\<lambda>w. Unix (clock_now w)"
  "\<lambda>ch w. view look ch (db_at w)" "\<lambda>ch w. view look ch (w_db w)" quiet
proof (unfold_locales, unfold redis_driver_def driver.select_convs, goal_cases)
  case (1 w ch)
  then show ?case by simp
next
  case (2 ch w i r w')
  note w = this
  show ?case
    by (rule commit_step[where op = "Ack R ch i" and f = "q_ack i (secs w)", OF Ack_refines[OF w(1)] w])
next
  case (3 ch w i r w')
  note w = this
  show ?case
    by (rule commit_step[where op = "Drop R ch i" and f = "q_drop i (secs w)", OF Drop_refines[OF w(1)] w])
next
  case (4 ch w i r w')
  note w = this
  show ?case
    by (rule commit_step[where op = "Fail R ch i" and f = "q_fail i (secs w)", OF Fail_refines[OF w(1)] w])
next
  case (5 ch w i r w')
  note w = this
  show ?case
    by (rule commit_step[where op = "Requeue R ch i" and f = "q_requeue i (secs w)", OF Requeue_refines[OF w(1)] w])
qed (blast intro!: Retry_step Pop_meets Forward_step)+

interpretation mem_lua: redis_lua mem_redis m_obj lua_of_json mem_safe
  by (intro redis_lua.intro mem.redis_server_axioms)
    (simp add: mem_cjson.cjson_library_axioms)

end
