(* ===== verification/Demo.thy ===== *)
theory Demo
  imports Driver_Refinement
begin

text \<open>
  Small concrete worlds over the in-memory server, on which the theorems about the driver and its
  clients are instantiated.
\<close>

definition demo_msg :: "string \<Rightarrow> Message" where
  "demo_msg i = zero_message\<lparr>ID := i, Payload := Some (Json JNull), MaxAttempts := 3, Status := StatusWaiting,
     CreatedAt := 50\<rparr>"

definition demo_push :: "string \<Rightarrow> int \<Rightarrow> string \<Rightarrow> mem \<Rightarrow> mem" where
  "demo_push mode score i s = (let k = NewKeys ''q'' in
     snd (pushScript mem_redis (k_Waiting k) (k_Delayed k) (Keys_Message k i) i
        (Json (JObj (message_members (demo_msg i) JNull))) mode score 0 s))"

text \<open>A world at second 100 with the given fates of its client calls and no other client.\<close>

definition demo_world :: "(nat \<Rightarrow> fault) \<Rightarrow> mem \<Rightarrow> mem world" where
  "demo_world net s = \<lparr>w_db = s, w_env = (\<lambda>_ s. s), w_tick = 0, w_net = net, w_wall = (\<lambda>_. 100),
     w_clock = (\<lambda>_. 100 * 10 ^ 9)\<rparr>"

abbreviation demo_ok :: "mem \<Rightarrow> bool" where
  "demo_ok \<equiv> chan_ok mem_safe m_obj ''q''"

abbreviation demo_view :: "mem \<Rightarrow> qstate" where
  "demo_view \<equiv> view m_obj ''q''"

lemma demo_empty: "demo_ok mem_empty" "demo_view mem_empty = q_empty"
  by (simp_all add: chan_ok_def view_def mem_empty_def entity_ok_def entity_message_def q_empty_def Let_def)

lemma demo_stores: "stores mem_safe (message_members (demo_msg i) JNull) (demo_msg i)"
proof -
  have "spells (message_members (demo_msg i) JNull) (demo_msg i)"
    by (rule members_spells) (simp_all add: demo_msg_def zero_message_def go_message_def in_int64_def)
  moreover have "\<forall>(k, j) \<in> set (message_members (demo_msg i) JNull). mem_safe j"
    by (auto simp: message_members_def mem_safe_def)
  ultimately show ?thesis
    by (simp add: stores_def lua_exact_def demo_msg_def zero_message_def)
qed

lemma demo_push_ok:
  assumes "demo_ok s"
  shows "demo_ok (demo_push mode score i s)"
    "demo_view (demo_push mode score i s) = q_push i (demo_msg i) mode score (demo_view s)"
  using mem_lua.pushScript_refines[OF assms demo_stores[of i], of i mode score 0]
  by (auto simp: demo_push_def Let_def)

lemma demo_world_ok:
  assumes "demo_ok s"
  shows "world_ok mem_safe m_obj ''q'' (demo_world net s)" "quiet (demo_world net s)"
  using assms by (simp_all add: demo_world_def world_ok_def clocks_ok_def quiet_def Unix_def)

lemma demo_world_simps [simp]:
  "db_at (demo_world net s) = s" "w_db (demo_world net s) = s" "w_tick (demo_world net s) = 0"
  "w_net (demo_world net s) = net" "clock_now (demo_world net s) = 100 * 10 ^ 9"
  "wall_now (demo_world net s) = 100" "secs (demo_world net s) = 100"
  by (simp_all add: demo_world_def db_at_def clock_now_def wall_now_def Unix_def)

lemmas demo_lua = mem_lua.redis_lua_axioms

lemmas demo_simps = q_push_def q_enqueue_def q_empty_def demo_push_ok demo_empty

text \<open>The id \<open>i\<close> put \<open>n\<close> times on the failed list.\<close>

definition demo_dead :: "nat \<Rightarrow> string \<Rightarrow> mem \<Rightarrow> mem" where
  "demo_dead n i = (LPUSH mem_redis (k_Failed (NewKeys ''q'')) i) ^^ n"

lemma demo_dead_ok:
  assumes "demo_ok s"
  shows "demo_ok (demo_dead n i s)"
    "demo_view (demo_dead n i s) = (demo_view s)\<lparr>q_failed := replicate n i @ q_failed (demo_view s)\<rparr>"
proof -
  have "demo_ok (demo_dead n i s) \<and>
    demo_view (demo_dead n i s) = (demo_view s)\<lparr>q_failed := replicate n i @ q_failed (demo_view s)\<rparr>"
  proof (induction n)
    case 0
    then show ?case using assms by (cases "demo_view s") (simp add: demo_dead_def)
  next
    case (Suc n)
    have "demo_dead (Suc n) i s = LPUSH mem_redis (k_Failed (NewKeys ''q'')) i (demo_dead n i s)"
      by (simp add: demo_dead_def)
    then show ?case
      using Suc mem_lua.LPUSH_buckets(3,6)[of "''q''" "demo_dead n i s" i] by simp
  qed
  then show "demo_ok (demo_dead n i s)"
    "demo_view (demo_dead n i s) = (demo_view s)\<lparr>q_failed := replicate n i @ q_failed (demo_view s)\<rparr>" by simp_all
qed

end
