(* ===== verification/Reloading.thy ===== *)
theory Reloading
  imports Driver_Refinement
begin

text \<open>
  What \<^verbatim>\<open>Reload\<close> makes of a dead-letter list, entry by entry: the abstract effect of any number of its batches, the ones that
  find ids without entity or with a final status included, and the lift to the method.
\<close>

section \<open>Batches\<close>

text \<open>The ids \<open>ps\<close> have been taken from the end of the source list: those that can be reloaded are waiting, in their old order behind
  everything else, and the others are gone from the waiting list too.\<close>

definition reloaded :: "dead_letter \<Rightarrow> bool \<Rightarrow> qstate \<Rightarrow> string list \<Rightarrow> qstate \<Rightarrow> bool" where
  "reloaded src skip q ps q' \<longleftrightarrow> q_dead src q = q_dead src q' @ ps \<and>
     q_waiting q' = filter (reloadable skip q) ps @ filter (\<lambda>i. i \<in> set ps \<longrightarrow> reloadable skip q i) (q_waiting q) \<and>
     (\<forall>i. if i \<in> set ps \<and> reloadable skip q i then \<exists>now. q_msgs q' i = map_option (stamp StatusWaiting now) (q_msgs q i)
          else q_msgs q' i = q_msgs q i)"

lemma reloaded_reloadable:
  assumes "reloaded src skip q ps q'"
  shows "reloadable skip q' = reloadable skip q"
proof
  fix i
  have "if i \<in> set ps \<and> reloadable skip q i then \<exists>now. q_msgs q' i = map_option (stamp StatusWaiting now) (q_msgs q i)
      else q_msgs q' i = q_msgs q i" using assms by (simp add: reloaded_def)
  then show "reloadable skip q' i = reloadable skip q i" by (auto simp: reloadable_def split: if_splits option.splits)
qed

lemma reloaded_refl: "reloaded src skip q [] q"
  by (simp add: reloaded_def)

lemma stamp_stamp [simp]: "stamp st now (stamp st' now' m) = stamp st now m"
  by (simp add: stamp_def)

lemma reloaded_trans:
  assumes "reloaded src skip q ps q1" and "reloaded src skip q1 ps1 q2"
  shows "reloaded src skip q (ps1 @ ps) q2"
proof -
  note r = reloaded_reloadable[OF assms(1)]
  have "filter (\<lambda>i. i \<in> set ps1 \<longrightarrow> reloadable skip q i) (filter (reloadable skip q) ps) = filter (reloadable skip q) ps"
    unfolding filter_filter by (rule filter_cong) auto
  moreover have "filter (\<lambda>i. i \<in> set ps1 \<longrightarrow> reloadable skip q i) (filter (\<lambda>i. i \<in> set ps \<longrightarrow> reloadable skip q i) xs) =
      filter (\<lambda>i. i \<in> set (ps1 @ ps) \<longrightarrow> reloadable skip q i) xs" for xs by (auto intro: filter_cong)
  ultimately have w: "q_waiting q2 = filter (reloadable skip q) (ps1 @ ps) @ filter (\<lambda>i. i \<in> set (ps1 @ ps) \<longrightarrow> reloadable skip q i) (q_waiting q)"
    using assms unfolding reloaded_def r by simp
  have m: "if i \<in> set (ps1 @ ps) \<and> reloadable skip q i then \<exists>now. q_msgs q2 i = map_option (stamp StatusWaiting now) (q_msgs q i)
      else q_msgs q2 i = q_msgs q i" for i
  proof -
    have 1: "if i \<in> set ps \<and> reloadable skip q i then \<exists>now. q_msgs q1 i = map_option (stamp StatusWaiting now) (q_msgs q i)
      else q_msgs q1 i = q_msgs q i" using assms(1) by (simp add: reloaded_def)
    have 2: "if i \<in> set ps1 \<and> reloadable skip q i then \<exists>now. q_msgs q2 i = map_option (stamp StatusWaiting now) (q_msgs q1 i)
      else q_msgs q2 i = q_msgs q1 i" using assms(2) unfolding reloaded_def r by blast
    show ?thesis using 1 2 by (auto simp: option.map_comp o_def split: if_splits)
  qed
  show ?thesis using assms w m by (simp add: reloaded_def)
qed

lemma reloaded_one:
  assumes "q_dead src q = ds @ [i]"
  shows "reloaded src skip q [i] (q_reload1 src skip now q)"
  using assms by (auto simp: reloaded_def q_reload1_def reloadable_def removeAll_filter_not_eq split: option.splits intro!: filter_cong)

lemma reloaded_batch:
  assumes "q_reload_batch src skip now n c q = (k, q')"
  shows "\<exists>ps. reloaded src skip q ps q' \<and> k = c + length (filter (reloadable skip q) ps) \<and> length ps = min n (length (q_dead src q))"
  using assms
proof (induction n arbitrary: c q)
  case 0
  then show ?case using reloaded_refl by auto
next
  case (Suc n)
  show ?case
  proof (cases "q_dead src q" rule: rev_cases)
    case Nil
    then show ?thesis using Suc.prems reloaded_refl by auto
  next
    case (snoc ds i)
    let ?q1 = "q_reload1 src skip now q"
    note one = reloaded_one[OF snoc, of skip now]
    note r = reloaded_reloadable[OF one]
    have "q_reload_batch src skip now n (if reloadable skip q i then Suc c else c) ?q1 = (k, q')" using Suc.prems snoc by simp
    from Suc.IH[OF this] obtain ps where ps: "reloaded src skip ?q1 ps q'"
      "k = (if reloadable skip q i then Suc c else c) + length (filter (reloadable skip q) ps)" "length ps = min n (length ds)"
      unfolding r using snoc by auto
    then show ?thesis using reloaded_trans[OF one ps(1)] snoc by (intro exI[of _ "ps @ [i]"]) auto
  qed
qed


section \<open>The method\<close>

text \<open>A call without error: what it took from the list, and why it stopped.  Either the list is empty, or the last hundred entries it took
  could none of them be reloaded.\<close>

definition reload_finished :: "dead_letter \<Rightarrow> bool \<Rightarrow> qstate \<Rightarrow> string list \<Rightarrow> qstate \<Rightarrow> bool" where
  "reload_finished src skip q ps q' \<longleftrightarrow> reloaded src skip q ps q' \<and>
     (q_dead src q' = [] \<or> 100 \<le> length ps \<and> (\<forall>i \<in> set (take 100 ps). \<not> reloadable skip q i))"

lemma reload_finished_drains:
  assumes "reload_finished src skip q ps q'" and "length (filter (\<lambda>i. \<not> reloadable skip q i) (q_dead src q)) < 100"
  shows "q_dead src q' = []"
proof (rule ccontr)
  assume "q_dead src q' \<noteq> []"
  then have p: "100 \<le> length ps" "\<forall>i \<in> set (take 100 ps). \<not> reloadable skip q i" "q_dead src q = q_dead src q' @ ps"
    using assms(1) by (simp_all add: reload_finished_def reloaded_def)
  have "100 = length (filter (\<lambda>i. \<not> reloadable skip q i) (take 100 ps))" using p(1,2) by simp
  also have "\<dots> \<le> length (filter (\<lambda>i. \<not> reloadable skip q i) (take 100 ps @ drop 100 ps))" by (simp only: filter_append length_append)
  also have "\<dots> \<le> length (filter (\<lambda>i. \<not> reloadable skip q i) (q_dead src q))" using p(3) by simp
  finally show False using assms(2) by simp
qed

lemma reload_last_batch:
  assumes "reloaded src skip q ps q1" and "q_reload_batch src skip now 100 0 q1 = (0, q')"
  shows "\<exists>ps1. reload_finished src skip q (ps1 @ ps) q' \<and> filter (reloadable skip q) ps1 = []"
proof -
  obtain ps1 where p: "reloaded src skip q1 ps1 q'" "filter (reloadable skip q) ps1 = []" "length ps1 = min 100 (length (q_dead src q1))"
    using reloaded_batch[OF assms(2)] reloaded_reloadable[OF assms(1)] by auto
  have len: "length (q_dead src q1) = length (q_dead src q') + length ps1" using p(1) by (simp add: reloaded_def)
  have "length ps1 = 100" if "q_dead src q' \<noteq> []"
  proof -
    have "0 < length (q_dead src q')" using that by simp
    then show ?thesis using p(3) len by (simp add: min_def split: if_splits)
  qed
  moreover have "\<forall>i \<in> set ps1. \<not> reloadable skip q i" using p(2) by (simp add: filter_empty_conv)
  ultimately have "q_dead src q' = [] \<or> 100 \<le> length (ps1 @ ps) \<and> (\<forall>i \<in> set (take 100 (ps1 @ ps)). \<not> reloadable skip q i)" by auto
  then show ?thesis using reloaded_trans[OF assms(1) p(1)] p(2) unfolding reload_finished_def by blast
qed

lemma reload_source_cases:
  assumes "queue \<in> {'''', ''failed'', ''timeout''}"
  shows "reload_source (NewKeys ch) queue =
    Inr (dead_key (NewKeys ch) (if queue = ''timeout'' then FromTimeout else FromFailed),
         if queue = ''timeout'' then ''1'' else ''0'')"
  using assms by (auto simp: reload_source_def Keys_Get_def)

context redis_lua begin

lemma Reload_result:
  assumes "wok ch w" and "quiet w" and "queue \<in> {'''', ''failed'', ''timeout''}"
  defines "src \<equiv> if queue = ''timeout'' then FromTimeout else FromFailed" and "skip \<equiv> queue = ''timeout''"
  shows "\<exists>t e w'. Reload R ch queue w = Some ((t, e), w') \<and> wok ch w' \<and> quiet w' \<and> w_net w' = w_net w \<and>
    ((\<forall>n. w_net w n = Delivered) \<longrightarrow> e = None) \<and>
    (e = None \<longrightarrow> (\<exists>ps. reload_finished src skip (qv ch (w_db w)) ps (qv ch (w_db w')) \<and>
       t = int (length (filter (reloadable skip (qv ch (w_db w))) ps))))"
proof -
  let ?q = "qv ch (w_db w)" and ?skip = "if queue = ''timeout'' then ''1'' else ''0''"
  define P where "P t q \<longleftrightarrow> (\<exists>ps. reloaded src skip ?q ps q \<and> t = int (length (filter (reloadable skip ?q) ps)))" for t :: int and q
  have s: "(?skip = ''1'') = skip" by (simp add: skip_def)
  have P0: "P 0 ?q" using reloaded_refl[of src skip ?q] by (auto simp: P_def)
  have step: "P (t + int k) q'" if Pq: "P t q" and b: "q_reload_batch src (?skip = ''1'') now 100 0 q = (k, q')" for now t q k q'
  proof -
    obtain ps where ps: "reloaded src skip ?q ps q" "t = int (length (filter (reloadable skip ?q) ps))" using Pq by (auto simp: P_def)
    obtain ps1 where p1: "reloaded src skip q ps1 q'" "k = length (filter (reloadable skip ?q) ps1)"
      using reloaded_batch[OF b[unfolded s]] reloaded_reloadable[OF ps(1)] by auto
    show ?thesis unfolding P_def using reloaded_trans[OF ps(1) p1(1)] p1(2) ps(2) by (intro exI[of _ "ps1 @ ps"]) simp
  qed
  then have step': "\<forall>now t q k q'. P t q \<longrightarrow> q_reload_batch src (?skip = ''1'') now 100 0 q = (k, q') \<longrightarrow> P (t + int k) q'" by blast
  obtain t e w' where r: "reload_all R (NewKeys ch) (dead_key (NewKeys ch) src) ?skip 0 w = Some ((t, e), w')"
    and w': "wok ch w'" "quiet w'" "w_net w' = w_net w" and e: "(\<forall>n. w_net w n = Delivered) \<longrightarrow> e = None"
    and fin: "e = None \<longrightarrow> P t (qv ch (w_db w')) \<and>
      (\<exists>now q. P t q \<and> q_reload_batch src (?skip = ''1'') now 100 0 q = (0, qv ch (w_db w')))"
    using reload_all_returns[OF assms(1,2), of P, OF P0 step'] by (elim exE conjE) (rule that)
  have "\<exists>ps. reload_finished src skip ?q ps (qv ch (w_db w')) \<and> t = int (length (filter (reloadable skip ?q) ps))" if none: "e = None"
  proof -
    obtain now q ps where q: "reloaded src skip ?q ps q" "t = int (length (filter (reloadable skip ?q) ps))"
      "q_reload_batch src skip now 100 0 q = (0, qv ch (w_db w'))" using fin none unfolding s P_def by blast
    from reload_last_batch[OF q(1,3)] obtain ps1 where "reload_finished src skip ?q (ps1 @ ps) (qv ch (w_db w'))"
      "filter (reloadable skip ?q) ps1 = []" by blast
    then show ?thesis using q(2) by (intro exI[of _ "ps1 @ ps"]) simp
  qed
  moreover have "Reload R ch queue w = Some ((t, e), w')" using r reload_source_cases[OF assms(3)] by (simp add: Reload_def src_def)
  ultimately show ?thesis using w' e by blast
qed

end

end
