(* ===== verification/Driver_Properties.thy ===== *)
theory Driver_Properties
  imports Demo Reloading
begin

text \<open>
  What the Redis driver guarantees, for every server that behaves as documented (the hypothesis
  \<open>redis_lua\<close>, which the in-memory server satisfies).
\<close>

text \<open>The moment of a method's second call.\<close>

definition next_call :: "'s world \<Rightarrow> 's world" where
  "next_call w = w\<lparr>w_tick := Suc (w_tick w)\<rparr>"

lemma next_call_eqs:
  "wall_now (after_call w s) = wall_now (next_call w)" "clock_now (after_call w s) = clock_now (next_call w)"
  "executed (after_call w s) = executed (next_call w)" "reply_of (after_call w s) = reply_of (next_call w)"
  by (simp_all add: wall_now_def clock_now_def executed_def reply_of_def next_call_def fun_eq_iff)

section \<open>Commits\<close>

text \<open>C1. Each commit method of the driver (\<^verbatim>\<open>Ack\<close>, \<^verbatim>\<open>Fail\<close>, \<^verbatim>\<open>Drop\<close>, \<^verbatim>\<open>Requeue\<close>) performs its
  transition of the abstract queue atomically, exactly when its one call was executed, whatever
  other clients did before; it reports success exactly when the reply arrived, and it keeps the
  data invariant.\<close>

theorem commits_refine:
  assumes "redis_lua R look conv safe" and "world_ok safe look ch w"
    and "(op, f) \<in> {(Ack R, q_ack), (Fail R, q_fail), (Drop R, q_drop), (Requeue R, q_requeue)}"
  shows "\<exists>w'. op ch i w = (reply_of w (Inr ()), w') \<and> world_ok safe look ch w' \<and>
    view look ch (w_db w') = (let q = view look ch (db_at w) in if executed w then f i (secs w) q else q)"
proof -
  have "\<exists>s. op ch i w = (reply_of w (Inr ()), after_call w s) \<and> chan_ok safe look ch s \<and>
      view look ch s = f i (secs w) (view look ch (db_at w))"
    using assms(3) redis_lua.Ack_refines[OF assms(1,2), of i] redis_lua.Fail_refines[OF assms(1,2), of i]
      redis_lua.Drop_refines[OF assms(1,2), of i] redis_lua.Requeue_refines[OF assms(1,2), of i] by blast
  then show ?thesis using world_ok_after[OF assms(2)] by auto
qed

theorem commits_refine_witness:
  "\<exists>w'. Fail mem_redis ''q'' ''a'' (demo_world (\<lambda>_. ReplyLost ErrEOF) (demo_push ''waiting'' 0 ''a'' mem_empty))
     = (Inl ErrEOF, w') \<and> q_failed (demo_view (w_db w')) = [''a'']"
proof -
  have w: "world_ok mem_safe m_obj ''q'' (demo_world (\<lambda>_. ReplyLost ErrEOF) (demo_push ''waiting'' 0 ''a'' mem_empty))"
    by (intro demo_world_ok demo_push_ok demo_empty)
  show ?thesis
    using commits_refine[OF demo_lua w, of "Fail mem_redis" q_fail "''a''"]
    by (auto simp: reply_of_def executed_def demo_simps q_fail_def)
qed


section \<open>Publishing and claiming\<close>

text \<open>C2. When the id was generated, \<^verbatim>\<open>Push\<close> stores the message under the id of the channel's next
  sequence number and makes it waiting (delay zero) or delayed until now plus the delay, exactly
  when its script executed; the caller sees an error exactly when the reply was lost, and the
  caller's message carries the id and status.\<close>

theorem Push_publishes:
  assumes "redis_lua R look conv safe" and "world_ok safe look ch w" and "quiet w"
    and "seq_ok maxMessageSequence look ch (w_db w)" and "fst (seq_state look ch (w_db w)) + 1 < 10 ^ 14"
    and "storable safe m" and "w_net w (w_tick w) = Delivered"
  shows "\<exists>w'. let w1 = next_call w;
      m' = pushed (wall_now w1) d (message_id ch (seq_next maxMessageSequence (seq_state look ch (w_db w)))) m in
    Push R ch (Some m) d ttl w = (reply_of w1 (Inr ()), Some m', w') \<and> world_ok safe look ch w' \<and>
    view look ch (w_db w') = (let q = view look ch (w_db w) in if executed w1
      then q_push (ID m') (stored m') (if d = 0 then ''waiting'' else ''delayed'')
             (if d = 0 then 0 else int64 (secs w1 + d)) q else q)"
proof -
  have db: "db_at w = w_db w" using assms(3) by simp
  define i where "i = message_id ch (seq_next maxMessageSequence (seq_state look ch (w_db w)))"
  obtain s1 s where "let w1 = after_call w s1; m1 = pushed (wall_now w1) d i m in
    Push R ch (Some m) d ttl w = (reply_of w1 (Inr ()), Some m1, after_call w1 s) \<and>
    view look ch s1 = view look ch (w_db w) \<and> chan_ok safe look ch s1 \<and> chan_ok safe look ch s \<and>
    view look ch s = q_push i (stored m1) (if d = 0 then ''waiting'' else ''delayed'')
                (if d = 0 then 0 else int64 (secs w1 + d)) (view look ch (db_at w1))"
    using redis_lua.Push_refines[OF assms(1,2), unfolded db, OF assms(4-7), of d ttl] unfolding i_def by blast
  moreover have "w_db (after_call w s1) = s1"
    using assms(7) by (simp add: executed_def)
  ultimately show ?thesis using assms(3) world_ok_after[OF world_ok_after[OF assms(2)]] unfolding i_def[symmetric]
    by (intro exI[of _ "after_call (after_call w s1) s"]) (auto simp: Let_def pushed_def next_call_eqs)
qed

text \<open>C3. \<^verbatim>\<open>Pop\<close> is first in, first out: with both replies delivered and no other client it returns
  the oldest waiting id that still has an entity, having discarded older ids without one, and
  leaves it reserved until now plus the handle timeout (ten seconds if that is not positive).\<close>

theorem Pop_claims_oldest:
  assumes "redis_lua R look conv safe" and "world_ok safe look ch w" and "quiet w"
    and "w_net w (w_tick w) = Delivered" and "w_net w (Suc (w_tick w)) = Delivered"
    and "q_waiting (view look ch (w_db w)) = ws @ i # dead" and "i \<noteq> ''''"
    and "q_msgs (view look ch (w_db w)) i = Some m"
    and "\<forall>x \<in> set dead. q_msgs (view look ch (w_db w)) x = None"
  shows "\<exists>w' wall. Pop R ch pt ht ctx w = Some (Inr (i, Some (fill_defaults wall (stamp StatusReserved (secs w) m))), w') \<and>
    world_ok safe look ch w' \<and>
    view look ch (w_db w') = (let q = view look ch (w_db w) in (q_mark i StatusReserved (secs w) q)
      \<lparr>q_waiting := ws, q_reserved := zset_add (pop_deadline ht w) i (q_reserved q)\<rparr>)"
  using redis_lua.Pop_delivered[OF assms] unfolding Let_def by blast

theorem Push_publishes_witness:
  "\<exists>w' m'. Push mem_redis ''q'' (Some (demo_msg '''')) 0 0 (demo_world (\<lambda>_. Delivered) mem_empty)
     = (Inr (), Some m', w') \<and> q_waiting (demo_view (w_db w')) = [message_id ''q'' (0, 1)]"
proof -
  let ?w = "demo_world (\<lambda>_. Delivered) mem_empty"
  have w: "world_ok mem_safe m_obj ''q'' ?w" "quiet ?w" by (intro demo_world_ok demo_empty)+
  have seq: "seq_state m_obj ''q'' (w_db ?w) = (0, 0)"
    by (simp add: seq_state_def Let_def mem_empty_def)
  have ok: "seq_ok maxMessageSequence m_obj ''q'' (w_db ?w)" "fst (seq_state m_obj ''q'' (w_db ?w)) + 1 < 10 ^ 14"
    using seq by (simp_all add: seq_ok_def Let_def maxMessageSequence_def mem_empty_def)
  have st: "storable mem_safe (demo_msg '''')"
    by (simp add: storable_def lua_exact_def demo_msg_def zero_message_def payload_json_def mem_safe_def)
  show ?thesis using Push_publishes[OF demo_lua w ok st, of 0 0] seq
    by (auto simp: Let_def reply_of_def executed_def next_call_def demo_simps pushed_def seq_next_def
        maxMessageSequence_def)
qed

theorem Pop_claims_oldest_witness:
  "\<exists>w' m. Pop mem_redis ''q'' 0 (30 * 10 ^ 9) None (demo_world (\<lambda>_. Delivered)
        (demo_push ''waiting'' 0 ''b'' (demo_push ''waiting'' 0 ''a'' mem_empty)))
      = Some (Inr (''a'', Some m), w') \<and> q_reserved (demo_view (w_db w')) = [(130, ''a'')]"
proof -
  let ?s = "demo_push ''waiting'' 0 ''b'' (demo_push ''waiting'' 0 ''a'' mem_empty)"
  have s: "demo_ok ?s" by (intro demo_push_ok demo_empty)
  show ?thesis
    using Pop_claims_oldest[OF demo_lua demo_world_ok[OF s, of "\<lambda>_. Delivered"], of "[''b'']" "''a''" "[]"
        "demo_msg ''a''" 0 "30 * 10 ^ 9" None]
    by (auto simp: demo_simps pop_deadline_def Unix_def zset_add_def zset_rem_def Let_def)
qed

text \<open>C21. An error of the claiming call never reaches the caller of \<^verbatim>\<open>Pop\<close>: whatever the error, an
  open context makes \<^verbatim>\<open>Pop\<close> return no message and no error, also when the script was executed and
  has reserved a message.\<close>

theorem Pop_swallows_errors:
  assumes "redis_lua R look conv safe" and "world_ok safe look ch w"
    and "w_net w (w_tick w) \<in> {Refused e, ReplyLost e}"
  shows "\<exists>w'. Pop R ch pt ht None w = Some (Inr ('''', None), w') \<and> world_ok safe look ch w' \<and>
    view look ch (w_db w') = (let q = view look ch (db_at w) in
      if executed w then snd (q_pop (secs w) (pop_deadline ht w) q) else q)"
proof -
  have "w_net w (w_tick w) \<noteq> Delivered" using assms(3) by auto
  then obtain s where "Pop R ch pt ht None w = Some (Inr ('''', None), after_call w s)" "chan_ok safe look ch s"
    "view look ch s = snd (q_pop (secs w) (pop_deadline ht w) (view look ch (db_at w)))"
    using redis_lua.Pop_idle[OF assms(1,2), where ctx = None] by auto
  then show ?thesis using world_ok_after[OF assms(2)] by (auto simp: Let_def)
qed

theorem Pop_swallows_errors_witness:
  "\<exists>w'. Pop mem_redis ''q'' 0 (30 * 10 ^ 9) None (demo_world (\<lambda>_. ReplyLost ErrEOF) (demo_push ''waiting'' 0 ''a'' mem_empty))
      = Some (Inr ('''', None), w') \<and> q_reserved (demo_view (w_db w')) = [(130, ''a'')]"
proof -
  have w: "world_ok mem_safe m_obj ''q'' (demo_world (\<lambda>_. ReplyLost ErrEOF) (demo_push ''waiting'' 0 ''a'' mem_empty))"
    by (intro demo_world_ok demo_push_ok demo_empty)
  show ?thesis using Pop_swallows_errors[OF demo_lua w, of ErrEOF 0 "30 * 10 ^ 9"]
    by (auto simp: demo_simps pop_deadline_def Unix_def zset_add_def zset_rem_def Let_def executed_def q_pop_def)
qed


section \<open>Retrying and canceling\<close>

text \<open>C4. \<^verbatim>\<open>Retry\<close> of a stored message, with no other client, re-enqueues it exactly when its script
  executed: with a positive delay it becomes delayed, otherwise waiting, its attempt count is
  raised by one unless it has reached the maximum, and it reports false exactly when the id is in
  no bucket.\<close>

theorem Retry_moves:
  assumes "redis_lua R look conv safe" and "world_ok safe look ch w" and "quiet w" and "i \<noteq> ''''"
    and "w_net w (w_tick w) = Delivered" and "q_msgs (view look ch (w_db w)) i = Some m"
  shows "\<exists>w'. let w1 = next_call w; q = view look ch (w_db w);
      rq = q_retry i (retried (wall_now w1) d (fill_defaults (wall_now w1) m)) (retry_mode d) (int64 (secs w1 + d)) q in
    Retry R ch i d w = (reply_of w1 (Inr (fst rq)), w') \<and> world_ok safe look ch w' \<and>
    view look ch (w_db w') = (if executed w1 then snd rq else q)"
proof -
  have db: "db_at w = w_db w" "db_at (after_call w (w_db w)) = w_db w" using assms(3) by simp_all
  have w1: "world_ok safe look ch (after_call w (w_db w))"
    using world_ok_after[OF assms(2)] assms(2) by (simp add: world_ok_def)
  show ?thesis
    using redis_lua.Retry_refines[OF assms(1,2,4,5), unfolded db, OF assms(6), of d] world_ok_after[OF w1]
    by (auto simp: Let_def next_call_eqs db)
qed

theorem Retry_moves_witness:
  "\<exists>w'. Retry mem_redis ''q'' ''a'' 60 (demo_world (\<lambda>_. Delivered) (demo_push ''waiting'' 0 ''a'' mem_empty)) = (Inr True, w') \<and>
     q_waiting (demo_view (w_db w')) = [] \<and> q_delayed (demo_view (w_db w')) = [(160, ''a'')]"
proof -
  have s: "demo_ok (demo_push ''waiting'' 0 ''a'' mem_empty)" by (intro demo_push_ok demo_empty)
  show ?thesis using Retry_moves[OF demo_lua demo_world_ok[OF s, of "\<lambda>_. Delivered"], of "''a''" "demo_msg ''a''" 60]
    by (auto simp: demo_simps Let_def reply_of_def executed_def next_call_def q_retry_def zset_members_def
        retry_mode_def clock_now_def demo_world_def Unix_def q_forget_def zset_add_def zset_rem_def
        in_int64_def)
qed

text \<open>C5. \<^verbatim>\<open>Cancel\<close> succeeds exactly for a delayed message, which then belongs to no bucket and is
  marked canceled; a reserved one is refused as in execution, and every other id, known or not, is
  refused as ready for dispatch: the documented answer \<^verbatim>\<open>(false, nil)\<close> never occurs.\<close>

theorem Cancel_outcomes:
  assumes "redis_lua R look conv safe" and "world_ok safe look ch w" and "i \<noteq> ''''"
  shows "\<exists>w'. let q = view look ch (db_at w) in
    Cancel R ch i w = (reply_of w (if i \<in> zset_members (q_delayed q) then Inr True
        else if i \<in> zset_members (q_reserved q) then Inl ErrMessageAlreadyInExecution
        else Inl ErrMessageAlreadyReadyForDispatch), w') \<and> world_ok safe look ch w' \<and>
    view look ch (w_db w') = (if executed w \<and> i \<in> zset_members (q_delayed q)
      then q_mark i StatusCanceled (secs w) (q\<lparr>q_delayed := zset_rem i (q_delayed q)\<rparr>) else q)"
  using redis_lua.Cancel_refines[OF assms] world_ok_after[OF assms(2)]
  by (auto simp: Let_def q_cancel_def)

theorem Cancel_outcomes_witness:
  "\<exists>w'. Cancel mem_redis ''q'' ''zz'' (demo_world (\<lambda>_. Delivered) mem_empty)
     = (Inl ErrMessageAlreadyReadyForDispatch, w')"
proof -
  have w: "world_ok mem_safe m_obj ''q'' (demo_world (\<lambda>_. Delivered) mem_empty)" by (intro demo_world_ok demo_empty)
  show ?thesis using Cancel_outcomes[OF demo_lua w, of "''zz''"]
    by (auto simp: demo_simps Let_def reply_of_def zset_members_def)
qed


section \<open>Forwarding\<close>

text \<open>C6. With both calls answered and no other client, \<^verbatim>\<open>ForwardMessages\<close> makes the (at most hundred)
  delayed messages due by the next second waiting, then moves the (at most hundred) reservations
  whose deadline has passed to the timeout list, and reports how many of each it moved.\<close>

theorem ForwardMessages_forwards:
  assumes "redis_lua R look conv safe" and "world_ok safe look ch w" and "quiet w"
    and "w_net w (w_tick w) = Delivered" and "w_net w (Suc (w_tick w)) = Delivered"
  shows "\<exists>w'. let q = view look ch (w_db w); q1 = q_forward (secs w + 1) q in
    ForwardMessages R ch w =
      ((int (length (zset_due (secs w + 1) 100 (q_delayed q))),
        int (length (filter (\<lambda>i. q_msgs q1 i \<noteq> None) (zset_due (secs w) 100 (q_reserved q1)))), None), w') \<and>
    world_ok safe look ch w' \<and> view look ch (w_db w') = q_expire (secs w) q1"
proof -
  obtain s1 s2 d t where
    f: "ForwardMessages R ch w = (case reply_of (after_call w s1) (Inr t) of
         Inl e \<Rightarrow> ((d, 0, Some e), after_call (after_call w s1) s2)
       | Inr t \<Rightarrow> ((d, t, None), after_call (after_call w s1) s2))"
    and "d = int (length (zset_due (secs w + 1) 100 (q_delayed (view look ch (db_at w)))))"
    and s1: "chan_ok safe look ch s1" "view look ch s1 = q_forward (secs w + 1) (view look ch (db_at w))"
    and "t = int (length (filter (\<lambda>i. q_msgs (view look ch (db_at (after_call w s1))) i \<noteq> None)
                 (zset_due (secs w) 100 (q_reserved (view look ch (db_at (after_call w s1)))))))"
    and s2: "chan_ok safe look ch s2" "view look ch s2 = q_expire (secs w) (view look ch (db_at (after_call w s1)))"
    using redis_lua.ForwardMessages_refines[OF assms(1,2,4)] unfolding Let_def by blast
  moreover have "db_at w = w_db w" "db_at (after_call w s1) = s1"
    using assms(3,4) by (simp_all add: executed_def)
  ultimately show ?thesis using assms(5) world_ok_after[OF world_ok_after[OF assms(2) s1(1)] s2(1)]
    by (auto simp: Let_def reply_of_def executed_def)
qed

theorem ForwardMessages_forwards_witness:
  "\<exists>w'. ForwardMessages mem_redis ''q'' (demo_world (\<lambda>_. Delivered)
         (demo_push ''delayed'' 101 ''a'' (demo_push ''delayed'' 200 ''b'' mem_empty))) = ((1, 0, None), w') \<and>
     q_waiting (demo_view (w_db w')) = [''a''] \<and> q_delayed (demo_view (w_db w')) = [(200, ''b'')]"
proof -
  have s: "demo_ok (demo_push ''delayed'' 101 ''a'' (demo_push ''delayed'' 200 ''b'' mem_empty))"
    by (intro demo_push_ok demo_empty)
  show ?thesis using ForwardMessages_forwards[OF demo_lua demo_world_ok[OF s, of "\<lambda>_. Delivered"]]
    by (auto simp: demo_simps Let_def zset_add_def zset_rem_def zset_due_def q_forward_def q_forward1_def
        q_expire_def Unix_def)
qed


section \<open>Reloading\<close>

text \<open>C8. \<^verbatim>\<open>Reload\<close> of the failed or the timeout list, while no other client uses the channel.  It returns whatever becomes of its calls, and
  without faults it reports no error.  If it reports none, it has taken entries from the old end of the list: those that have an entity and, for the
  timeout list, no final status are waiting in their old order, marked as waiting, behind what was waiting before; the others have been discarded, from the
  waiting list too; and the reported number is that of the former.  What it leaves on the list it leaves because the last hundred entries it took had to be
  discarded; so it empties the list whenever fewer than a hundred entries have to be discarded, and moves all entries if none has.\<close>

theorem Reload_drains:
  fixes queue :: string
  assumes "redis_lua R look conv safe" and "world_ok safe look ch w" and "quiet w"
    and "queue \<in> {'''', ''failed'', ''timeout''}"
  defines "src \<equiv> if queue = ''timeout'' then FromTimeout else FromFailed" and "q \<equiv> view look ch (w_db w)"
    and "ok \<equiv> reloadable (queue = ''timeout'') (view look ch (w_db w))"
  shows "\<exists>t e w'. Reload R ch queue w = Some ((t, e), w') \<and> ((\<forall>n. w_net w n = Delivered) \<longrightarrow> e = None) \<and>
    (e = None \<longrightarrow> (\<exists>ps. let q' = view look ch (w_db w') in
       q_dead src q = q_dead src q' @ ps \<and> t = int (length (filter ok ps)) \<and>
       q_waiting q' = filter ok ps @ filter (\<lambda>i. i \<in> set ps \<longrightarrow> ok i) (q_waiting q) \<and>
       (\<forall>i \<in> set (filter ok ps). \<exists>now. q_msgs q' i = map_option (stamp StatusWaiting now) (q_msgs q i)) \<and>
       (q_dead src q' = [] \<or> 100 \<le> length ps \<and> (\<forall>i \<in> set (take 100 ps). \<not> ok i)) \<and>
       (length (filter (\<lambda>i. \<not> ok i) (q_dead src q)) < 100 \<longrightarrow> q_dead src q' = [])))"
proof -
  obtain t e w' where r: "Reload R ch queue w = Some ((t, e), w')" "(\<forall>n. w_net w n = Delivered) \<longrightarrow> e = None"
    "e = None \<longrightarrow> (\<exists>ps. reload_finished src (queue = ''timeout'') q ps (view look ch (w_db w')) \<and> t = int (length (filter ok ps)))"
    using redis_lua.Reload_result[OF assms(1-4)] unfolding src_def q_def ok_def by blast
  show ?thesis
  proof (rule exI[of _ t], rule exI[of _ e], rule exI[of _ w'], intro conjI impI)
    assume "e = None"
    with r(3) obtain ps where f: "reload_finished src (queue = ''timeout'') q ps (view look ch (w_db w'))" and t: "t = int (length (filter ok ps))"
      by blast
    have ok: "reloadable (queue = ''timeout'') q = ok" by (simp add: ok_def q_def)
    note parts = f[unfolded reload_finished_def reloaded_def ok]
    have "\<forall>i \<in> set (filter ok ps). \<exists>now. q_msgs (view look ch (w_db w')) i = map_option (stamp StatusWaiting now) (q_msgs q i)"
      using parts by (auto split: if_splits)
    then show "\<exists>ps. let q' = view look ch (w_db w') in
       q_dead src q = q_dead src q' @ ps \<and> t = int (length (filter ok ps)) \<and>
       q_waiting q' = filter ok ps @ filter (\<lambda>i. i \<in> set ps \<longrightarrow> ok i) (q_waiting q) \<and>
       (\<forall>i \<in> set (filter ok ps). \<exists>now. q_msgs q' i = map_option (stamp StatusWaiting now) (q_msgs q i)) \<and>
       (q_dead src q' = [] \<or> 100 \<le> length ps \<and> (\<forall>i \<in> set (take 100 ps). \<not> ok i)) \<and>
       (length (filter (\<lambda>i. \<not> ok i) (q_dead src q)) < 100 \<longrightarrow> q_dead src q' = [])"
      using parts t reload_finished_drains[OF f, unfolded ok] unfolding Let_def by blast
  qed (use r in blast)+
qed

theorem Reload_drains_witness:
  "\<exists>w'. Reload mem_redis ''q'' '''' (demo_world (\<lambda>_. Delivered)
        (demo_dead 2 ''a'' (demo_push ''delayed'' 900 ''a'' mem_empty))) = Some ((2, None), w') \<and>
     q_waiting (demo_view (w_db w')) = [''a'', ''a''] \<and> q_failed (demo_view (w_db w')) = []"
proof -
  let ?s = "demo_dead 2 ''a'' (demo_push ''delayed'' 900 ''a'' mem_empty)"
  have s: "demo_ok ?s" by (intro demo_dead_ok demo_push_ok demo_empty)
  have q: "q_failed (demo_view ?s) = [''a'', ''a'']" "q_waiting (demo_view ?s) = []"
    "q_msgs (demo_view ?s) ''a'' = Some (demo_msg ''a'')"
    by (simp_all add: demo_simps demo_dead_ok numeral_2_eq_2)
  have ok: "reloadable False (demo_view ?s) ''a''" using q(3) by (simp add: reloadable_def)
  obtain t w' ps where r: "Reload mem_redis ''q'' '''' (demo_world (\<lambda>_. Delivered) ?s) = Some ((t, None), w')"
    "q_failed (demo_view ?s) = q_failed (demo_view (w_db w')) @ ps" "t = int (length (filter (reloadable False (demo_view ?s)) ps))"
    "q_waiting (demo_view (w_db w')) = filter (reloadable False (demo_view ?s)) ps @
      filter (\<lambda>i. i \<in> set ps \<longrightarrow> reloadable False (demo_view ?s) i) (q_waiting (demo_view ?s))"
    "length (filter (\<lambda>i. \<not> reloadable False (demo_view ?s) i) (q_failed (demo_view ?s))) < 100 \<longrightarrow> q_failed (demo_view (w_db w')) = []"
    using Reload_drains[OF demo_lua demo_world_ok[OF s, of "\<lambda>_. Delivered"], of "''''"] unfolding Let_def by auto
  have "q_failed (demo_view (w_db w')) = []" using r(5) q(1) ok by simp
  then have "ps = [''a'', ''a'']" using r(2) q(1) by simp
  then show ?thesis using r(1,3,4) q(2) ok \<open>q_failed (demo_view (w_db w')) = []\<close> by simp
qed

text \<open>\<^verbatim>\<open>Reload\<close> stops too early: if none of the hundred oldest entries of the source can be
  reloaded, it reports zero and no error and leaves all younger entries where they are, however
  many of them could be reloaded.\<close>

theorem Reload_stops_early:
  fixes queue :: string
  assumes "redis_lua R look conv safe" and "world_ok safe look ch w" and "quiet w"
    and "queue \<in> {'''', ''failed'', ''timeout''}" and "w_net w (w_tick w) = Delivered"
  defines "src \<equiv> if queue = ''timeout'' then FromTimeout else FromFailed"
  assumes "q_dead src (view look ch (w_db w)) = young @ old" and "length old = 100"
    and "\<forall>i \<in> set old. \<not> reloadable (queue = ''timeout'') (view look ch (w_db w)) i"
  shows "\<exists>w'. Reload R ch queue w = Some ((0, None), w') \<and> q_dead src (view look ch (w_db w')) = young"
proof -
  let ?q = "view look ch (w_db w)" and ?skip = "if queue = ''timeout'' then ''1'' else ''0''"
  have skip: "(?skip = ''1'') = (queue = ''timeout'')" by simp
  have ok: "chan_ok safe look ch (w_db w)" and clk: "clock_ok (secs w)"
    using assms(2) world_ok_clock[OF assms(2)] by (simp_all add: world_ok_def)
  obtain q' where b: "q_reload_batch src (?skip = ''1'') (secs w) 100 0 ?q = (0, q')" "q_dead src q' = young"
    using q_reload_batch_none[OF assms(7,9), of "secs w" 0] assms(8) unfolding skip by auto
  obtain s where "reloadScript R (dead_key (NewKeys ch) src) (k_Waiting (NewKeys ch)) (k_MessagePrefix (NewKeys ch))
      (secs w) ?skip (db_at w) = (Inr 0, s)" "view look ch s = q'"
    using redis_lua.reloadScript_refines[OF assms(1) ok clk, of src ?skip] b(1) assms(3) by auto
  then have "reload_all R (NewKeys ch) (dead_key (NewKeys ch) src) ?skip 0 w = Some ((0, None), after_call w s)"
    using assms(5) by (subst reload_all.simps) (simp add: client_call_eq reply_of_def asIntResult_def)
  then show ?thesis using reload_source_cases[OF assms(4)] b(2) \<open>view look ch s = q'\<close> assms(5)
    by (auto simp: Reload_def src_def executed_def)
qed

theorem Reload_stops_early_witness:
  "\<exists>w'. Reload mem_redis ''q'' ''failed'' (demo_world (\<lambda>_. Delivered)
        (demo_dead 1 ''a'' (demo_dead 100 ''gone'' (demo_push ''delayed'' 900 ''a'' mem_empty)))) = Some ((0, None), w') \<and>
     q_failed (demo_view (w_db w')) = [''a'']"
proof -
  let ?s = "demo_dead 1 ''a'' (demo_dead 100 ''gone'' (demo_push ''delayed'' 900 ''a'' mem_empty))"
  have s: "demo_ok ?s" by (intro demo_dead_ok demo_push_ok demo_empty)
  have q: "q_failed (demo_view ?s) = [''a''] @ replicate 100 ''gone''" "q_msgs (demo_view ?s) ''gone'' = None"
    by (simp_all add: demo_simps demo_dead_ok)
  then show ?thesis using Reload_stops_early[OF demo_lua demo_world_ok[OF s, of "\<lambda>_. Delivered"], of "''failed''" "[''a'']"
      "replicate 100 ''gone''"] by (simp add: reloadable_def)
qed


section \<open>Flushing and counting\<close>

text \<open>\<^verbatim>\<open>Flush\<close> empties exactly the named bucket (the failed list for the empty name) when its call
  executed, and rejects an unknown name without a call.\<close>

theorem Flush_empties:
  fixes queue :: string
  assumes "redis_lua R look conv safe" and "world_ok safe look ch w"
  defines "name \<equiv> if queue = '''' then ''failed'' else queue"
  shows "if name \<in> {''waiting'', ''reserved'', ''timeout'', ''delayed'', ''failed''}
    then \<exists>w'. Flush R ch queue w = (reply_of w (Inr ()), w') \<and> world_ok safe look ch w' \<and>
           view look ch (w_db w') = (let q = view look ch (db_at w) in if executed w then q_flush name q else q)
    else Flush R ch queue w = (Inl (ErrText (''queue '' @ queue @ '' is not supported'')), w)"
proof (cases "name \<in> {''waiting'', ''reserved'', ''timeout'', ''delayed'', ''failed''}")
  case True
  then have "\<nexists>e. Keys_Get (NewKeys ch) name = Inl e" by (simp add: Keys_Get_names)
  then obtain s where "Flush R ch queue w = (reply_of w (Inr ()), after_call w s)" "chan_ok safe look ch s"
    "view look ch s = q_flush name (view look ch (db_at w))"
    using redis_lua.Flush_refines[OF assms(1,2), of queue] unfolding name_def by blast
  then have "\<exists>w'. Flush R ch queue w = (reply_of w (Inr ()), w') \<and> world_ok safe look ch w' \<and>
      view look ch (w_db w') = (let q = view look ch (db_at w) in if executed w then q_flush name q else q)"
    using world_ok_after[OF assms(2)] by (intro exI[of _ "after_call w s"]) (simp add: Let_def)
  then show ?thesis using True by (simp only: if_True)
next
  case False
  then have "queue \<noteq> ''''" by (auto simp: name_def)
  then have "Flush R ch queue w = (Inl (ErrText (''queue '' @ queue @ '' is not supported'')), w)"
    using False by (simp add: Flush_def Keys_Get_names name_def)
  then show ?thesis using False by (simp only: if_False)
qed

theorem Flush_empties_witness:
  "\<exists>w'. Flush mem_redis ''q'' '''' (demo_world (\<lambda>_. Delivered) (demo_dead 2 ''a'' mem_empty)) = (Inr (), w') \<and>
     q_failed (demo_view (w_db w')) = []"
proof -
  have w: "world_ok mem_safe m_obj ''q'' (demo_world (\<lambda>_. Delivered) (demo_dead 2 ''a'' mem_empty))"
    by (intro demo_world_ok demo_dead_ok demo_empty)
  show ?thesis using Flush_empties[OF demo_lua w, of "''''"]
    by (auto simp: Let_def reply_of_def executed_def q_flush_def)
qed

text \<open>\<^verbatim>\<open>Info\<close> changes nothing, and when it reports no error its five numbers are the lengths of the
  five buckets (with no other client in between).\<close>

theorem Info_counts:
  assumes "redis_lua R look conv safe" and "world_ok safe look ch w" and "quiet w"
  shows "\<exists>r w'. Driver_Info R ch w = (r, w') \<and> w_db w' = w_db w \<and>
    (\<forall>info. r = Inr info \<longrightarrow> (let q = view look ch (w_db w) in
      info = \<lparr>i_Waiting = int (length (q_waiting q)), i_Reserved = int (length (q_reserved q)),
        i_Delayed = int (length (q_delayed q)), i_Timeout = int (length (q_timeout q)),
        i_Failed = int (length (q_failed q))\<rparr>))"
  using redis_lua.Info_refines[OF assms] assms(3) by auto

theorem Info_counts_witness:
  "\<exists>r w'. Driver_Info mem_redis ''q'' (demo_world (\<lambda>_. Delivered) (demo_dead 2 ''a'' mem_empty)) = (r, w') \<and>
     (\<forall>info. r = Inr info \<longrightarrow> i_Failed info = 2)"
proof -
  have s: "demo_ok (demo_dead 2 ''a'' mem_empty)" by (intro demo_dead_ok demo_empty)
  show ?thesis using Info_counts[OF demo_lua demo_world_ok[OF s, of "\<lambda>_. Delivered"]]
    by (auto simp: Let_def demo_dead_ok demo_simps)
qed


section \<open>Expiry and identifiers\<close>

lemma client_call_db:
  assumes "executed w"
  shows "w_db (snd (client_call f w)) = snd (f (db_at w))"
  using assms by (auto simp: client_call_def Let_def executed_def split: fault.splits prod.split)

lemma commit_db:
  assumes "executed w"
  shows "w_db (snd (Ack R ch i w)) = snd (ackScript R (k_Reserved (NewKeys ch)) (Keys_Message (NewKeys ch) i) i (secs w) (db_at w))"
    "w_db (snd (Drop R ch i w)) = snd (dropScript R (k_Reserved (NewKeys ch)) (Keys_Message (NewKeys ch) i) i (secs w) (db_at w))"
    "w_db (snd (Fail R ch i w)) = snd (failScript R (k_Reserved (NewKeys ch)) (k_Failed (NewKeys ch))
        (Keys_Message (NewKeys ch) i) i (secs w) (db_at w))"
    "w_db (snd (Requeue R ch i w)) = snd (requeueScript R (k_Reserved (NewKeys ch)) (k_Waiting (NewKeys ch))
        (Keys_Message (NewKeys ch) i) i (secs w) (db_at w))"
  unfolding client_call_db[OF assms, symmetric]
  by (simp_all add: Ack_def Drop_def Fail_def Requeue_def Let_def split: prod.split sum.split)

text \<open>C22. A commit keeps the remaining lifetime of the message to within a second while at least a
  second remains; but when the server rounds the remainder to zero seconds, the commit makes the
  message permanent.\<close>

theorem commit_expiry:
  assumes "redis_lua R look conv safe" and "world_ok safe look ch w" and "executed w"
    and "op \<in> {Ack R, Fail R, Drop R, Requeue R}" and "q_msgs (view look ch (db_at w)) i = Some m"
  shows "let k = Keys_Message (NewKeys ch) i; s = db_at w; s' = w_db (snd (op ch i w)) in
    (1000 \<le> PTTL R k s \<longrightarrow> \<bar>PTTL R k s' - PTTL R k s\<bar> < 1000) \<and> (TTL R k s = 0 \<longrightarrow> PTTL R k s' = -1)"
proof -
  let ?k = "Keys_Message (NewKeys ch) i" and ?s = "db_at w"
  have ok: "chan_ok safe look ch ?s" and clk: "clock_ok (secs w)"
    using world_ok_db_at[OF assms(2)] world_ok_clock[OF assms(2)] by simp_all
  have p: "PTTL R ?k (w_db (snd (op ch i w))) = (if TTL R ?k ?s > 0 then 1000 * TTL R ?k ?s else -1)"
    using assms(4) redis_lua.commit_PTTL[OF assms(1) ok clk assms(5)] commit_db[OF assms(3), of R ch i] by auto
  have srv: "redis_server R look" using assms(1) by (simp add: redis_lua_def)
  then show ?thesis using p redis_server.TTL_seconds[OF srv, of ?k ?s]
    by (auto simp: Let_def)
qed

theorem commit_expiry_witness:
  "PTTL mem_redis (Keys_Message (NewKeys ''q'') ''a'') (w_db (snd (Ack mem_redis ''q'' ''a'' (demo_world (\<lambda>_. Delivered)
      (PEXPIRE mem_redis (Keys_Message (NewKeys ''q'') ''a'') 400 (demo_push ''delayed'' 900 ''a'' mem_empty)))))) = -1"
proof -
  let ?k = "Keys_Message (NewKeys ''q'') ''a''" and ?pre = "demo_push ''delayed'' 900 ''a'' mem_empty"
  let ?s = "PEXPIRE mem_redis ?k 400 ?pre" and ?w = "demo_world (\<lambda>_. Delivered) (PEXPIRE mem_redis ?k 400 ?pre)"
  have s0: "demo_ok ?pre" by (intro demo_push_ok demo_empty)
  have m0: "q_msgs (demo_view ?pre) ''a'' = Some (demo_msg ''a'')" by (simp add: demo_simps)
  have s: "demo_ok ?s"
    using s0 mem_lua.EXPIRE_entity(4)[of 400 "''q''" ?k ?pre] by (simp del: mem_redis_simps)
  have m: "q_msgs (demo_view ?s) ''a'' = Some (demo_msg ''a'')"
    using m0 mem_lua.EXPIRE_entity(2)[of 400 "''q''" ?k ?pre] by (simp del: mem_redis_simps)
  have "m_obj ?pre ?k \<noteq> None"
    using m0 by (cases "m_obj ?pre ?k") (simp_all add: view_def entity_message_def Let_def)
  then have "TTL mem_redis ?k ?s = 0" by (simp add: mem_defs split: option.splits)
  then show ?thesis
    using commit_expiry[OF demo_lua demo_world_ok(1)[OF s], of "\<lambda>_. Delivered" "Ack mem_redis" "''a''" "demo_msg ''a''"] m
    by (simp add: Let_def executed_def del: mem_redis_simps)
qed

lemma seq_next_greater: "es < seq_next mx es"
  by (cases es) (auto simp: seq_next_def less_prod_def)

lemma seq_iterate_greater: "es < (seq_next mx ^^ Suc k) es"
proof (induction k)
  case (Suc k)
  then show ?case using seq_next_greater[of "(seq_next mx ^^ Suc k) es" mx] by (simp add: order.strict_trans)
qed (simp add: seq_next_greater)

lemma id_text_inject: "id_text ch a = id_text ch b \<longleftrightarrow> a = b"
proof
  assume "id_text ch a = id_text ch b"
  then have eq: "show_int (fst a) @ CHR '':'' # show_int (snd a) = show_int (fst b) @ CHR '':'' # show_int (snd b)"
    by (simp add: id_text_def)
  moreover have "takeWhile (\<lambda>c. c \<noteq> CHR '':'') (show_int x @ CHR '':'' # y) = show_int x" for x y
    using show_int_no_colon[of x] by (auto simp: takeWhile_append)
  ultimately have "show_int (fst a) = show_int (fst b)" by metis
  then show "a = b" using eq by (simp add: show_int_inject prod_eq_iff)
qed simp

text \<open>C23. \<^verbatim>\<open>GenerateID\<close> returns the digest of the channel name and the successor of the channel's
  stored epoch and number, stores that successor, and no later identifier of the channel digests
  the same text, also when the number wraps to a new epoch.\<close>

theorem GenerateID_fresh:
  assumes "redis_lua R look conv safe" and "world_ok safe look ch w"
    and "seq_ok maxMessageSequence look ch (db_at w)" and "fst (seq_state look ch (db_at w)) + 1 < 10 ^ 14"
  shows "\<exists>w'. let es = seq_next maxMessageSequence (seq_state look ch (db_at w)) in
    GenerateID R ch w = (reply_of w (Inr (md5_hex (id_text ch es))), w') \<and>
    seq_state look ch (w_db w') = (if executed w then es else seq_state look ch (db_at w)) \<and>
    view look ch (w_db w') = view look ch (db_at w) \<and>
    (\<forall>k. id_text ch ((seq_next maxMessageSequence ^^ Suc k) es) \<noteq> id_text ch es)"
proof -
  have "(seq_next mx ^^ Suc k) es \<noteq> es" for mx es k using seq_iterate_greater[of es k mx] by (metis less_irrefl)
  then show ?thesis using redis_lua.GenerateID_refines[OF assms]
    by (auto simp: Let_def message_id_def id_text_inject simp del: funpow.simps)
qed

theorem GenerateID_fresh_witness:
  "\<exists>w'. GenerateID mem_redis ''q'' (demo_world (\<lambda>_. Delivered) mem_empty) = (Inr (md5_hex ''q:0:1''), w') \<and>
     seq_state m_obj ''q'' (w_db w') = (0, 1)"
proof -
  let ?w = "demo_world (\<lambda>_. Delivered) mem_empty"
  have w: "world_ok mem_safe m_obj ''q'' ?w" by (intro demo_world_ok demo_empty)
  have seq: "seq_state m_obj ''q'' (db_at ?w) = (0, 0)" by (simp add: seq_state_def Let_def mem_empty_def)
  have ok: "seq_ok maxMessageSequence m_obj ''q'' (db_at ?w)" "fst (seq_state m_obj ''q'' (db_at ?w)) + 1 < 10 ^ 14"
    using seq by (simp_all add: seq_ok_def Let_def maxMessageSequence_def mem_empty_def)
  have t: "id_text ''q'' (0, 1) = ''q:0:1''" by code_simp
  show ?thesis using GenerateID_fresh[OF demo_lua w ok] seq t
    by (auto simp: Let_def reply_of_def executed_def seq_next_def maxMessageSequence_def)
qed

end
