(* ===== verification/Queue_Invariant.thy ===== *)
theory Queue_Invariant
  imports Driver
begin

text \<open>
  The transitions of the abstract queue as a step relation, and its invariants: no message is lost,
  no id is in two places, and the status of a message says where it is.  In a disciplined step
  (flag \<open>g\<close>) ids are published once and only reserved ids are committed; without the flag any client
  may commit anything, as one does whose reservation has expired.
\<close>

section \<open>Steps\<close>

definition q_ids :: "qstate \<Rightarrow> string list" where
  "q_ids q = q_waiting q @ map snd (q_reserved q) @ map snd (q_delayed q) @ q_timeout q @ q_failed q"

definition mode_status :: "string \<Rightarrow> MessageStatus" where
  "mode_status mode = (if mode = ''waiting'' then StatusWaiting else StatusDelayed)"

abbreviation reserved_ids :: "qstate \<Rightarrow> string set" where
  "reserved_ids q \<equiv> zset_members (q_reserved q)"

abbreviation delayed_ids :: "qstate \<Rightarrow> string set" where
  "delayed_ids q \<equiv> zset_members (q_delayed q)"

inductive q_step :: "bool \<Rightarrow> qstate \<Rightarrow> qstate \<Rightarrow> bool" for g :: bool where
  publish: "Status m = mode_status mode \<Longrightarrow> g \<longrightarrow> i \<notin> set (q_ids q) \<Longrightarrow> q_step g q (q_push i m mode score q)"
| claim: "q_step g q (snd (q_pop now dl q))"
| ack: "g \<longrightarrow> i \<in> reserved_ids q \<Longrightarrow> q_step g q (q_ack i now q)"
| drop: "g \<longrightarrow> i \<in> reserved_ids q \<Longrightarrow> q_step g q (q_drop i now q)"
| fail: "g \<longrightarrow> i \<in> reserved_ids q \<Longrightarrow> q_step g q (q_fail i now q)"
| requeue: "g \<longrightarrow> i \<in> reserved_ids q \<Longrightarrow> q_step g q (q_requeue i now q)"
| retry: "Status m = mode_status mode \<Longrightarrow> q_step g q (snd (q_retry i m mode score q))"
| cancel: "q_step g q (snd (q_cancel i now q))"
| forward: "g \<longrightarrow> i \<in> delayed_ids q \<Longrightarrow> q_step g q (q_forward1 now i q)"
| expire: "g \<longrightarrow> i \<in> reserved_ids q \<Longrightarrow> q_step g q (q_expire1 i q)"
| reload: "q_dead src q \<noteq> [] \<Longrightarrow> q_step g q (q_reload1 src skip now q)"
| vanish: "q_step g q (q\<lparr>q_msgs := (q_msgs q)(i := None)\<rparr>)"

abbreviation q_steps :: "bool \<Rightarrow> qstate \<Rightarrow> qstate \<Rightarrow> bool" where
  "q_steps g \<equiv> (q_step g)\<^sup>*\<^sup>*"

inductive_cases q_stepE: "q_step g q q'"


section \<open>Invariants\<close>

text \<open>A message that is not done, dropped or canceled is in some bucket, the ids in \<open>F\<close> excepted.\<close>

definition tracked :: "string set \<Rightarrow> qstate \<Rightarrow> bool" where
  "tracked F q \<longleftrightarrow> (\<forall>i m. q_msgs q i = Some m \<longrightarrow> \<not> stale m \<longrightarrow> i \<in> set (q_ids q) \<union> F)"

definition exclusive :: "qstate \<Rightarrow> bool" where
  "exclusive q \<longleftrightarrow> distinct (q_ids q)"

text \<open>An expired reservation keeps the status \<^verbatim>\<open>reserved\<close>.\<close>

definition placed :: "qstate \<Rightarrow> bool" where
  "placed q \<longleftrightarrow> (\<forall>i m. q_msgs q i = Some m \<longrightarrow>
     (i \<in> set (q_waiting q) \<longrightarrow> Status m = StatusWaiting) \<and>
     (i \<in> delayed_ids q \<longrightarrow> Status m = StatusDelayed) \<and>
     (i \<in> reserved_ids q \<union> set (q_timeout q) \<longrightarrow> Status m = StatusReserved) \<and>
     (i \<in> set (q_failed q) \<longrightarrow> Status m = StatusFailed))"

lemma set_q_ids: "set (q_ids q) = set (q_waiting q) \<union> reserved_ids q \<union> delayed_ids q \<union> set (q_timeout q) \<union> set (q_failed q)"
  by (auto simp: q_ids_def zset_members_def)

lemma exclusive_unfold:
  "exclusive q \<longleftrightarrow> distinct (q_waiting q) \<and> distinct (map snd (q_reserved q)) \<and> distinct (map snd (q_delayed q)) \<and>
     distinct (q_timeout q) \<and> distinct (q_failed q) \<and>
     set (q_waiting q) \<inter> (reserved_ids q \<union> delayed_ids q \<union> set (q_timeout q) \<union> set (q_failed q)) = {} \<and>
     reserved_ids q \<inter> (delayed_ids q \<union> set (q_timeout q) \<union> set (q_failed q)) = {} \<and>
     delayed_ids q \<inter> (set (q_timeout q) \<union> set (q_failed q)) = {} \<and> set (q_timeout q) \<inter> set (q_failed q) = {}"
  by (auto simp: exclusive_def q_ids_def zset_members_def)

lemma distinct_zset_rem [simp]: "distinct (map snd z) \<Longrightarrow> distinct (map snd (zset_rem i z))"
  by (simp add: zset_rem_def distinct_map_filter)

lemma distinct_zset_add [simp]: "distinct (map snd z) \<Longrightarrow> distinct (map snd (zset_add sc i z))"
  by (auto simp: zset_add_def zset_rem_def distinct_map_filter distinct_insort_snd)

lemma q_pop_cases:
  obtains (none) "fst (q_pop now dl q) = None" "snd (q_pop now dl q) = q\<lparr>q_waiting := []\<rparr>" "\<forall>x \<in> set (q_waiting q). q_msgs q x = None"
  | (some) i ws ds m where "fst (q_pop now dl q) = Some i" "q_waiting q = ws @ i # ds" "\<forall>x \<in> set ds. q_msgs q x = None" "q_msgs q i = Some m"
      "snd (q_pop now dl q) = q_mark i StatusReserved now (q\<lparr>q_waiting := ws, q_reserved := zset_add dl i (q_reserved q)\<rparr>)"
proof (cases "oldest_live (q_msgs q) (rev (q_waiting q))")
  case None
  have "oldest_live msgs xs = None \<Longrightarrow> \<forall>x \<in> set xs. msgs x = None" for msgs :: "string \<rightharpoonup> Message" and xs
    by (induction xs) (auto split: if_splits)
  from this[OF None] show ?thesis using none None by (simp add: q_pop_def)
next
  case (Some r)
  obtain i rest where r: "r = (i, rest)" by force
  from oldest_live_Some[OF Some[unfolded r]] obtain dead m where d: "q_msgs q i = Some m" "rev (q_waiting q) = dead @ i # rest"
    "\<forall>x \<in> set dead. q_msgs q x = None" by auto
  then have "q_waiting q = rev rest @ i # rev dead" by (metis append.assoc append_Cons append_Nil rev.simps(2) rev_append rev_rev_ident)
  then show ?thesis using some[of i "rev rest" "rev dead" m] d Some r by (simp add: q_pop_def)
qed


section \<open>Nothing is lost\<close>

lemma stale_stamp [simp]: "stale (stamp st now m) \<longleftrightarrow> st \<in> {StatusDone, StatusDropped, StatusCanceled}"
  by (simp add: stale_def)

lemmas q_commit_defs = q_ack_def q_drop_def q_fail_def q_requeue_def

lemma tracked_commit:
  assumes "tracked F q"
  shows "tracked F (q_ack i now q)" "tracked F (q_drop i now q)" "tracked F (q_fail i now q)" "tracked F (q_requeue i now q)"
  using assms by (auto simp: tracked_def set_q_ids q_commit_defs)

lemma tracked_push: "tracked F q \<Longrightarrow> tracked F (q_push i m mode score q)"
  by (auto simp: tracked_def set_q_ids q_push_def q_enqueue_def)

lemma tracked_push_after:
  assumes "\<forall>j m. q_msgs q j = Some m \<longrightarrow> \<not> stale m \<longrightarrow> j \<noteq> i \<longrightarrow> j \<in> set (q_ids q) \<union> F"
  shows "tracked F (q_push i m mode score q)"
  using assms by (auto simp: tracked_def set_q_ids q_push_def q_enqueue_def)

lemma tracked_retry: "tracked F q \<Longrightarrow> tracked F (snd (q_retry i m mode score q))"
  by (auto simp: q_retry_def intro!: tracked_push_after) (auto simp: tracked_def set_q_ids q_forget_def)

lemma tracked_pop:
  assumes "tracked F q"
  shows "tracked F (snd (q_pop now dl q))"
proof (cases rule: q_pop_cases[of now dl q])
  case none
  then have "j \<notin> set (q_waiting q)" if "q_msgs q j = Some m" for j m using that by auto
  then show ?thesis using none(2) assms by (auto simp: tracked_def set_q_ids)
next
  case (some i ws ds m)
  then have "j \<notin> set ds" if "q_msgs q j = Some m" for j m using that by auto
  then show ?thesis using some(2,5) assms by (auto simp: tracked_def set_q_ids)
qed

lemma tracked_reload1:
  assumes "tracked F q" and "q_dead src q \<noteq> []"
  shows "tracked F (q_reload1 src skip now q)"
proof -
  obtain ds i where d: "q_dead src q = ds @ [i]" using assms(2) by (metis rev_exhaust)
  then have moved: "j = i \<or> j \<in> set (q_waiting q) - {i} \<union> reserved_ids q \<union> delayed_ids q \<union>
      set (q_timeout (q_set_dead src ds q)) \<union> set (q_failed (q_set_dead src ds q)) \<union> F"
    if "q_msgs q j = Some m" "\<not> stale m" for j m
    using assms(1) that by (cases src) (force simp: tracked_def set_q_ids)+
  have q1: "q_reload1 src skip now q = (if reloadable skip q i
      then q_mark i StatusWaiting now ((q_set_dead src ds q)\<lparr>q_waiting := i # q_waiting q\<rparr>)
      else (q_set_dead src ds q)\<lparr>q_waiting := removeAll i (q_waiting q)\<rparr>)"
    using d by (simp add: q_reload1_def)
  show ?thesis unfolding q1 tracked_def set_q_ids using moved
    by (fastforce simp: reloadable_def split: option.splits if_splits)
qed

lemma q_step_tracked: "q_step g q q' \<Longrightarrow> tracked F q \<Longrightarrow> tracked F q'"
proof (induction rule: q_step.induct)
  case (cancel q i now)
  then show ?case by (auto simp: tracked_def set_q_ids q_cancel_def)
next
  case (forward i q now)
  then show ?case by (auto simp: tracked_def set_q_ids q_forward1_def Let_def)
next
  case (expire i q)
  then show ?case by (auto simp: tracked_def set_q_ids q_expire1_def)
next
  case (vanish q i)
  then show ?case by (auto simp: tracked_def set_q_ids)
qed (simp_all add: tracked_commit tracked_push tracked_retry tracked_pop tracked_reload1)

lemma q_steps_tracked: "q_steps g q q' \<Longrightarrow> tracked F q \<Longrightarrow> tracked F q'"
  by (induction rule: rtranclp_induct) (auto intro: q_step_tracked)


section \<open>Every id in one place\<close>

lemma exclusive_push: "exclusive q \<Longrightarrow> i \<notin> set (q_ids q) \<Longrightarrow> exclusive (q_push i m mode score q)"
  by (auto simp: exclusive_unfold set_q_ids q_push_def q_enqueue_def)

lemma placed_push: "placed q \<Longrightarrow> i \<notin> set (q_ids q) \<Longrightarrow> Status m = mode_status mode \<Longrightarrow> placed (q_push i m mode score q)"
  by (auto simp: placed_def set_q_ids q_push_def q_enqueue_def mode_status_def)

lemma exclusive_unreserve: "exclusive q \<Longrightarrow> exclusive (q_unreserve i q)"
  by (auto simp: exclusive_unfold)

lemma unreserve_absent:
  "exclusive q \<Longrightarrow> i \<in> reserved_ids q \<Longrightarrow> i \<notin> set (q_ids (q_unreserve i q))"
  by (auto simp: exclusive_unfold set_q_ids)

lemma placed_unreserve: "placed q \<Longrightarrow> placed (q_unreserve i q)"
  by (auto simp: placed_def)

lemma exclusive_forget: "exclusive q \<Longrightarrow> exclusive (q_forget i q)"
  by (auto simp: exclusive_unfold q_forget_def distinct_removeAll)

lemma placed_forget: "placed q \<Longrightarrow> placed (q_forget i q)"
  by (auto simp: placed_def q_forget_def)

lemma forget_absent: "i \<notin> reserved_ids q \<Longrightarrow> i \<notin> set (q_ids (q_forget i q))"
  by (auto simp: set_q_ids q_forget_def)

lemma exclusive_mark [simp]: "exclusive (q_mark i st now q) \<longleftrightarrow> exclusive q"
  by (simp add: exclusive_unfold)

text \<open>Adding an id that is nowhere to a bucket, with the matching status.\<close>

lemma placed_mark_absent: "placed q \<Longrightarrow> i \<notin> set (q_ids q) \<Longrightarrow> placed (q_mark i st now q)"
  by (auto simp: placed_def set_q_ids)

lemma add_waiting:
  assumes "exclusive q" and "placed q" and "i \<notin> set (q_ids q)"
  shows "exclusive (q_mark i StatusWaiting now (q\<lparr>q_waiting := i # q_waiting q\<rparr>))"
    "placed (q_mark i StatusWaiting now (q\<lparr>q_waiting := i # q_waiting q\<rparr>))"
  using assms by (auto simp: exclusive_unfold placed_def set_q_ids)

lemma add_failed:
  assumes "exclusive q" and "placed q" and "i \<notin> set (q_ids q)"
  shows "exclusive (q_mark i StatusFailed now (q\<lparr>q_failed := i # q_failed q\<rparr>))"
    "placed (q_mark i StatusFailed now (q\<lparr>q_failed := i # q_failed q\<rparr>))"
  using assms by (auto simp: exclusive_unfold placed_def set_q_ids)

lemma add_reserved:
  assumes "exclusive q" and "placed q" and "i \<notin> set (q_ids q)"
  shows "exclusive (q_mark i StatusReserved now (q\<lparr>q_reserved := zset_add dl i (q_reserved q)\<rparr>))"
    "placed (q_mark i StatusReserved now (q\<lparr>q_reserved := zset_add dl i (q_reserved q)\<rparr>))"
  using assms by (auto simp: exclusive_unfold placed_def set_q_ids)

lemma add_timeout:
  assumes "exclusive q" and "placed q" and "i \<notin> set (q_ids q)" and "q_msgs q i = Some m" and "Status m = StatusReserved"
  shows "exclusive (q\<lparr>q_timeout := i # q_timeout q\<rparr>)" "placed (q\<lparr>q_timeout := i # q_timeout q\<rparr>)"
  using assms by (auto simp: exclusive_unfold placed_def set_q_ids)

text \<open>Removing ids from buckets.\<close>

definition q_within :: "qstate \<Rightarrow> qstate \<Rightarrow> bool" where
  "q_within q' q \<longleftrightarrow> q_msgs q' = q_msgs q \<and> set (q_waiting q') \<subseteq> set (q_waiting q) \<and> reserved_ids q' \<subseteq> reserved_ids q \<and>
     delayed_ids q' \<subseteq> delayed_ids q \<and> set (q_timeout q') \<subseteq> set (q_timeout q) \<and> set (q_failed q') \<subseteq> set (q_failed q) \<and>
     (exclusive q \<longrightarrow> exclusive q')"

lemma placed_within: "q_within q' q \<Longrightarrow> placed q \<Longrightarrow> placed q'"
  by (auto simp: placed_def q_within_def)

lemma within_waiting: "set ws \<subseteq> set (q_waiting q) \<Longrightarrow> (distinct (q_waiting q) \<Longrightarrow> distinct ws) \<Longrightarrow> q_within (q\<lparr>q_waiting := ws\<rparr>) q"
  by (auto simp: q_within_def exclusive_unfold)

lemma within_delayed: "q_within (q\<lparr>q_delayed := zset_rem i (q_delayed q)\<rparr>) q"
  by (auto simp: q_within_def exclusive_unfold)

lemma within_dead: "q_dead src q = ds @ [i] \<Longrightarrow> q_within (q_set_dead src ds q) q"
  by (cases src) (auto simp: q_within_def exclusive_unfold)

lemma within_trans: "q_within a b \<Longrightarrow> q_within b c \<Longrightarrow> q_within a c"
  by (auto simp: q_within_def)

lemma within_good: "q_within q' q \<Longrightarrow> exclusive q \<Longrightarrow> placed q \<Longrightarrow> exclusive q' \<and> placed q'"
  using placed_within by (auto simp: q_within_def)

definition good :: "qstate \<Rightarrow> bool" where
  "good q \<longleftrightarrow> exclusive q \<and> placed q"

lemma good_pop:
  assumes "good q"
  shows "good (snd (q_pop now dl q))"
proof (cases rule: q_pop_cases[of now dl q])
  case none
  have "q_within (q\<lparr>q_waiting := []\<rparr>) q" by (rule within_waiting) auto
  then show ?thesis using assms none within_good by (auto simp: good_def)
next
  case (some i ws ds m)
  have w: "q_within (q\<lparr>q_waiting := ws\<rparr>) q" by (rule within_waiting) (auto simp: some(2))
  have g: "exclusive (q\<lparr>q_waiting := ws\<rparr>)" "placed (q\<lparr>q_waiting := ws\<rparr>)" using within_good[OF w] assms by (auto simp: good_def)
  have "i \<notin> set (q_ids (q\<lparr>q_waiting := ws\<rparr>))" using assms some(2) by (auto simp: good_def exclusive_unfold set_q_ids)
  from add_reserved[OF g this, of now dl] show ?thesis using some(5) by (simp add: good_def)
qed

lemma good_commit:
  assumes "good q" and "i \<in> reserved_ids q"
  shows "good (q_ack i now q)" "good (q_drop i now q)" "good (q_fail i now q)" "good (q_requeue i now q)"
proof -
  let ?q = "q_unreserve i q"
  have g: "exclusive ?q" "placed ?q" "i \<notin> set (q_ids ?q)"
    using assms exclusive_unreserve placed_unreserve unreserve_absent by (auto simp: good_def)
  show "good (q_ack i now q)" "good (q_drop i now q)"
    using g placed_mark_absent by (auto simp: good_def q_ack_def q_drop_def)
  show "good (q_fail i now q)" "good (q_requeue i now q)"
    using g add_failed[OF g] add_waiting[OF g] by (auto simp: good_def q_fail_def q_requeue_def)
qed

lemma good_retry:
  assumes "good q" and "Status m = mode_status mode"
  shows "good (snd (q_retry i m mode score q))"
proof (cases "i \<in> reserved_ids q")
  case True
  then show ?thesis using assms exclusive_unreserve placed_unreserve unreserve_absent[of q i]
    by (auto simp: good_def q_retry_def intro: exclusive_push placed_push)
next
  case False
  then show ?thesis using assms exclusive_forget placed_forget forget_absent[OF False]
    by (auto simp: good_def q_retry_def intro: exclusive_push placed_push)
qed

lemma retried_Status [simp]: "Status (retried wall d m) = mode_status (retry_mode d)"
  by (simp add: retried_def mode_status_def retry_mode_def Let_def SetStatus_def)

lemma good_cancel:
  assumes "good q"
  shows "good (snd (q_cancel i now q))"
proof (cases "i \<in> delayed_ids q")
  case True
  let ?q = "q\<lparr>q_delayed := zset_rem i (q_delayed q)\<rparr>"
  have "exclusive ?q" "placed ?q" using within_good[OF within_delayed] assms by (auto simp: good_def)
  moreover have "i \<notin> set (q_ids ?q)" using assms True by (auto simp: good_def exclusive_unfold set_q_ids)
  ultimately show ?thesis using True placed_mark_absent by (auto simp: good_def q_cancel_def)
qed (use assms in \<open>auto simp: q_cancel_def\<close>)

lemma good_forward1:
  assumes "good q" and "i \<in> delayed_ids q"
  shows "good (q_forward1 now i q)"
proof -
  let ?q = "q\<lparr>q_delayed := zset_rem i (q_delayed q)\<rparr>"
  have g: "exclusive ?q" "placed ?q" using within_good[OF within_delayed] assms by (auto simp: good_def)
  have a: "i \<notin> set (q_ids ?q)" using assms by (auto simp: good_def exclusive_unfold set_q_ids)
  then have "removeAll i (q_waiting q) = q_waiting q" by (auto simp: set_q_ids intro: removeAll_id)
  then show ?thesis using g add_waiting[OF g a] by (auto simp: good_def q_forward1_def Let_def)
qed

lemma good_expire1:
  assumes "good q" and "i \<in> reserved_ids q"
  shows "good (q_expire1 i q)"
proof -
  have g: "exclusive (q_unreserve i q)" "placed (q_unreserve i q)" "i \<notin> set (q_ids (q_unreserve i q))"
    using assms exclusive_unreserve placed_unreserve unreserve_absent by (auto simp: good_def)
  show ?thesis
  proof (cases "q_msgs q i")
    case (Some m)
    then have "Status m = StatusReserved" using assms by (auto simp: good_def placed_def)
    then show ?thesis using add_timeout[OF g, of m] Some by (simp add: good_def q_expire1_def)
  qed (use g in \<open>simp add: good_def q_expire1_def\<close>)
qed

lemma good_reload1:
  assumes "good q" and "q_dead src q \<noteq> []"
  shows "good (q_reload1 src skip now q)"
proof -
  obtain ds i where d: "q_dead src q = ds @ [i]" using assms(2) by (metis rev_exhaust)
  let ?q = "q_set_dead src ds q"
  have g: "exclusive ?q" "placed ?q" using within_good[OF within_dead[OF d]] assms by (auto simp: good_def)
  have a: "i \<notin> set (q_ids ?q)" using assms d by (cases src) (auto simp: good_def exclusive_unfold set_q_ids)
  have w: "q_within (?q\<lparr>q_waiting := removeAll i (q_waiting q)\<rparr>) ?q"
    by (rule within_waiting) (auto simp: distinct_removeAll)
  show ?thesis using d add_waiting[OF g a] within_good[OF w g] by (auto simp: good_def q_reload1_def Let_def)
qed

lemma q_step_good: "q_step g q q' \<Longrightarrow> g \<Longrightarrow> good q \<Longrightarrow> good q'"
proof (induction rule: q_step.induct)
  case (publish m mode i q score)
  then show ?case by (auto simp: good_def intro: exclusive_push placed_push)
next
  case (vanish q i)
  then show ?case by (auto simp: good_def exclusive_unfold placed_def)
qed (simp_all add: good_pop good_commit good_retry good_cancel good_forward1 good_expire1 good_reload1)

lemma q_steps_good: "q_steps True q q' \<Longrightarrow> good q \<Longrightarrow> good q'"
  by (induction rule: rtranclp_induct) (auto intro: q_step_good)

text \<open>Emptying a bucket is no step of its own: it may lose what it removes, but it keeps everything else where it is.\<close>

lemma q_flush_cases:
  "q_flush name q \<in> {q, q\<lparr>q_waiting := []\<rparr>, q\<lparr>q_reserved := []\<rparr>, q\<lparr>q_timeout := []\<rparr>, q\<lparr>q_delayed := []\<rparr>, q\<lparr>q_failed := []\<rparr>}"
  by (simp add: q_flush_def)

lemma q_flush_msgs [simp]: "q_msgs (q_flush name q) = q_msgs q"
  by (simp add: q_flush_def)

lemma flush_tracked: "tracked F q \<Longrightarrow> tracked (F \<union> (set (q_ids q) - set (q_ids (q_flush name q)))) (q_flush name q)"
  by (auto simp: tracked_def)

lemma flush_good: "good q \<Longrightarrow> good (q_flush name q)"
  using q_flush_cases[of name q] unfolding good_def exclusive_unfold placed_def
  by (elim insertE emptyE) (simp_all add: zset_members_def Int_Un_distrib)

lemma q_empty_ok: "tracked F q_empty" "good q_empty"
  by (simp_all add: q_empty_def tracked_def good_def exclusive_unfold placed_def zset_members_def)

end
