(* ===== verification/Delivery.thy ===== *)
theory Delivery
  imports Demo Queue_Invariant
begin

text \<open>
  Any number of clients of one channel: arbitrary sequences of driver method calls, each with any
  outcome of its client calls, interleaved with whatever else moves the queue by its own steps (the
  expiry of entities among them).  The invariants of \<open>Queue_Invariant\<close> hold throughout, up to the
  ids that a call of \<^verbatim>\<open>Flush\<close> removed.  Methods that only read (\<^verbatim>\<open>Get\<close>, \<^verbatim>\<open>Info\<close>, \<^verbatim>\<open>Ping\<close>) are left out.
\<close>

section \<open>Sequences of method calls\<close>

datatype call =
    Call_Push Message int int
  | Call_Pop int int "error option"
  | Call_Ack string
  | Call_Drop string
  | Call_Fail string
  | Call_Requeue string
  | Call_Retry string int
  | Call_Cancel string
  | Call_ForwardMessages
  | Call_Reload string
  | Call_Flush string

fun perform :: "'s redis \<Rightarrow> string \<Rightarrow> call \<Rightarrow> 's world \<Rightarrow> 's world option" where
  "perform R ch (Call_Push m d ttl) w = Some (snd (snd (Push R ch (Some m) d ttl w)))"
| "perform R ch (Call_Pop pt ht ctx) w = map_option snd (Pop R ch pt ht ctx w)"
| "perform R ch (Call_Ack i) w = Some (snd (Ack R ch i w))"
| "perform R ch (Call_Drop i) w = Some (snd (Drop R ch i w))"
| "perform R ch (Call_Fail i) w = Some (snd (Fail R ch i w))"
| "perform R ch (Call_Requeue i) w = Some (snd (Requeue R ch i w))"
| "perform R ch (Call_Retry i d) w = Some (snd (Retry R ch i d w))"
| "perform R ch (Call_Cancel i) w = Some (snd (Cancel R ch i w))"
| "perform R ch Call_ForwardMessages w = Some (snd (ForwardMessages R ch w))"
| "perform R ch (Call_Reload name) w = map_option snd (Reload R ch name w)"
| "perform R ch (Call_Flush name) w = Some (snd (Flush R ch name w))"

text \<open>A published message is one the backend can store and the channel's id counter is in order.  A
  disciplined client (flag \<open>g\<close>) commits only what is reserved, and new ids do not collide.\<close>

definition allowed :: "(json \<Rightarrow> bool) \<Rightarrow> ('s \<Rightarrow> string \<Rightarrow> robj option) \<Rightarrow> bool \<Rightarrow> string \<Rightarrow> call \<Rightarrow> 's world \<Rightarrow> bool" where
  "allowed safe look g ch c w = (let q = view look ch (w_db w) in case c of
      Call_Push m d ttl \<Rightarrow> storable safe m \<and> seq_ok maxMessageSequence look ch (w_db w) \<and>
        fst (seq_state look ch (w_db w)) + 1 < 10 ^ 14 \<and>
        (g \<longrightarrow> message_id ch (seq_next maxMessageSequence (seq_state look ch (w_db w))) \<notin> set (q_ids q))
    | Call_Ack i \<Rightarrow> g \<longrightarrow> i \<in> reserved_ids q
    | Call_Drop i \<Rightarrow> g \<longrightarrow> i \<in> reserved_ids q
    | Call_Fail i \<Rightarrow> g \<longrightarrow> i \<in> reserved_ids q
    | Call_Requeue i \<Rightarrow> g \<longrightarrow> i \<in> reserved_ids q
    | _ \<Rightarrow> True)"

text \<open>The client reports \<^verbatim>\<open>redis.Nil\<close> only for an absent key, never for a failed call.\<close>

definition honest :: "'s world \<Rightarrow> bool" where
  "honest w \<longleftrightarrow> (\<forall>n e. w_net w n \<in> {Refused e, ReplyLost e} \<longrightarrow> \<not> errors_Is e ErrRedisNil)"

text \<open>What has happened to a channel between two worlds, with the ids that calls of \<^verbatim>\<open>Flush\<close> have removed from its buckets.\<close>

definition flushed :: "('s \<Rightarrow> string \<Rightarrow> robj option) \<Rightarrow> string \<Rightarrow> call \<Rightarrow> 's world \<Rightarrow> 's world \<Rightarrow> string set" where
  "flushed look ch c w w' = (case c of
      Call_Flush name \<Rightarrow> set (q_ids (view look ch (w_db w))) - set (q_ids (view look ch (w_db w'))) | _ \<Rightarrow> {})"

inductive serves :: "'s redis \<Rightarrow> (json \<Rightarrow> bool) \<Rightarrow> ('s \<Rightarrow> string \<Rightarrow> robj option) \<Rightarrow> bool \<Rightarrow> string \<Rightarrow> 's world \<Rightarrow> string set \<Rightarrow> 's world \<Rightarrow> bool"
  for R safe look g ch w where
  start: "serves R safe look g ch w {} w"
| called: "serves R safe look g ch w F w1 \<Longrightarrow> allowed safe look g ch c w1 \<Longrightarrow> perform R ch c w1 = Some w2 \<Longrightarrow>
     serves R safe look g ch w (F \<union> flushed look ch c w1 w2) w2"
| elsewhere: "serves R safe look g ch w F w1 \<Longrightarrow> chan_ok safe look ch s \<Longrightarrow>
     q_steps g (view look ch (w_db w1)) (view look ch s) \<Longrightarrow> serves R safe look g ch w F (w1\<lparr>w_db := s\<rparr>)"


section \<open>Every method moves the queue by its steps\<close>

lemma forward_steps:
  assumes "distinct xs" and "g \<longrightarrow> set xs \<subseteq> delayed_ids q"
  shows "q_steps g q (fold (q_forward1 now) xs q)"
  using assms
proof (induction xs arbitrary: q)
  case (Cons i xs)
  have "delayed_ids (q_forward1 now i q) = delayed_ids q - {i}" by (simp add: q_forward1_def Let_def)
  then have "q_steps g (q_forward1 now i q) (fold (q_forward1 now) xs (q_forward1 now i q))"
    using Cons by (intro Cons.IH) auto
  moreover have "q_step g q (q_forward1 now i q)" using Cons.prems(2) by (auto intro: q_step.forward)
  ultimately show ?case by (simp add: converse_rtranclp_into_rtranclp)
qed simp

lemma expire_steps:
  assumes "distinct xs" and "g \<longrightarrow> set xs \<subseteq> reserved_ids q"
  shows "q_steps g q (fold q_expire1 xs q)"
  using assms
proof (induction xs arbitrary: q)
  case (Cons i xs)
  have "reserved_ids (q_expire1 i q) = reserved_ids q - {i}" by (simp add: q_expire1_def)
  then have "q_steps g (q_expire1 i q) (fold q_expire1 xs (q_expire1 i q))"
    using Cons by (intro Cons.IH) auto
  moreover have "q_step g q (q_expire1 i q)" using Cons.prems(2) by (auto intro: q_step.expire)
  ultimately show ?case by (simp add: converse_rtranclp_into_rtranclp)
qed simp

lemma reload_steps: "q_steps g q (snd (q_reload_batch src skip now n c q))"
proof (induction n arbitrary: c q)
  case (Suc n)
  show ?case
  proof (cases "q_dead src q = []")
    case False
    have "q_step g q (q_reload1 src skip now q)" using False by (rule q_step.reload)
    then show ?thesis using Suc False by (auto intro: converse_rtranclp_into_rtranclp)
  qed simp
qed simp

lemma zset_due_wf:
  assumes "zset_wf z"
  shows "distinct (zset_due mx n z)" "set (zset_due mx n z) \<subseteq> zset_members z"
  using assms set_take_subset[of n "map snd (filter (\<lambda>(sc, _). sc \<le> mx) z)"]
  by (auto simp: zset_due_def zset_wf_def zset_members_def intro!: distinct_take distinct_map_filter)

lemma q_moved_step: "q_moved i d q0 q q' \<Longrightarrow> q_step g q q'"
  unfolding q_moved_def using q_step.retry[OF retried_Status, of g q i] by (metis snd_conv)

lemma view_zsets:
  assumes "chan_ok safe look ch s"
  shows "zset_wf (q_reserved (view look ch s))" "zset_wf (q_delayed (view look ch s))"
  using assms by (simp_all add: chan_ok_def view_def Let_def as_zset_holds)

context redis_lua begin

text \<open>The new world is well formed, has the same faults ahead, and the queue has moved by its steps.\<close>

abbreviation moved :: "bool \<Rightarrow> string \<Rightarrow> 's world \<Rightarrow> 's world \<Rightarrow> bool" where
  "moved g ch w w' \<equiv> wok ch w' \<and> quiet w' \<and> w_net w' = w_net w \<and> q_steps g (qv ch (w_db w)) (qv ch (w_db w'))"

lemma moved_call:
  assumes "wok ch w" and "quiet w" and "ok ch s" and "q_steps g (qv ch (w_db w)) (qv ch s)"
  shows "moved g ch w (after_call w s)"
  using assms world_ok_after[OF assms(1,3)] by auto

lemma moved_trans: "moved g ch w w1 \<Longrightarrow> moved g ch w1 w2 \<Longrightarrow> moved g ch w w2"
  by (metis rtranclp_trans)

lemma moved_refl: "wok ch w \<Longrightarrow> quiet w \<Longrightarrow> moved g ch w w"
  by simp

lemma moved_commit:
  assumes "wok ch w" and "quiet w" and "\<exists>s. op w = (r, after_call w s) \<and> ok ch s \<and> qv ch s = f (now_q ch w)"
    and "q_step g (qv ch (w_db w)) (f (qv ch (w_db w)))"
  shows "moved g ch w (snd (op w))"
proof -
  obtain s where s: "op w = (r, after_call w s)" "ok ch s" "qv ch s = f (qv ch (w_db w))"
    using assms(2,3) by auto
  have "moved g ch w (after_call w s)" by (rule moved_call[OF assms(1,2) s(2)]) (use assms(4) s(3) in simp)
  then show ?thesis using s(1) by simp
qed

lemma Push_moves:
  assumes "wok ch w" and "quiet w" and "allowed safe look g ch (Call_Push m d ttl) w"
  shows "moved g ch w (snd (snd (Push R ch (Some m) d ttl w)))"
proof -
  define i where "i = message_id ch (seq_next maxMessageSequence (seq_state look ch (w_db w)))"
  have a: "storable safe m" "seq_ok maxMessageSequence look ch (w_db w)" "fst (seq_state look ch (w_db w)) + 1 < 10 ^ 14"
    "g \<longrightarrow> i \<notin> set (q_ids (qv ch (w_db w)))"
    using assms(3) by (simp_all add: allowed_def i_def Let_def)
  show ?thesis
  proof (cases "w_net w (w_tick w)")
    case Delivered
    obtain s1 s where push: "Push R ch (Some m) d ttl w = (reply_of (after_call w s1) (Inr ()),
        Some (pushed (wall_now (after_call w s1)) d i m), after_call (after_call w s1) s)"
      and s1: "qv ch s1 = now_q ch w" "ok ch s1" and s: "ok ch s" "qv ch s = q_push i
        (stored (pushed (wall_now (after_call w s1)) d i m)) (if d = 0 then ''waiting'' else ''delayed'')
        (if d = 0 then 0 else int64 (secs (after_call w s1) + d)) (now_q ch (after_call w s1))"
      using Push_refines[OF assms(1) _ _ a(1) Delivered, of d ttl] a(2,3) assms(2)
      unfolding Let_def i_def by auto
    have m1: "moved g ch w (after_call w s1)" by (rule moved_call[OF assms(1,2) s1(2)]) (use s1(1) assms(2) in simp)
    have db: "w_db (after_call w s1) = s1" using Delivered by (simp add: executed_def)
    have st: "Status (stored (pushed wall d i m)) = mode_status (if d = 0 then ''waiting'' else ''delayed'')" for wall
      by (simp add: stored_def pushed_def mode_status_def)
    have eq: "now_q ch (after_call w s1) = qv ch (w_db w)" "qv ch (w_db (after_call w s1)) = qv ch (w_db w)"
      using assms(2) db s1(1) by (simp_all del: after_call_proj)
    have "q_step g (qv ch (w_db w)) (qv ch s)" unfolding s(2) eq by (rule q_step.publish[OF st a(4)])
    then have "q_steps g (qv ch (w_db (after_call w s1))) (qv ch s)" unfolding eq by (rule r_into_rtranclp)
    from moved_trans[OF m1 moved_call[OF _ _ s(1) this]] m1 show ?thesis using push by simp
  next
    case (Refused e)
    obtain s1 where "GenerateID R ch w = (Inl e, after_call w s1)" "ok ch s1" "qv ch s1 = now_q ch w"
      using GenerateID_refines[OF assms(1)] a(2,3) assms(2) Refused by (auto simp: reply_of_def)
    then show ?thesis using moved_call[OF assms(1,2)] assms(2) by (simp add: Push_def Let_def)
  next
    case (ReplyLost e)
    obtain s1 where "GenerateID R ch w = (Inl e, after_call w s1)" "ok ch s1" "qv ch s1 = now_q ch w"
      using GenerateID_refines[OF assms(1)] a(2,3) assms(2) ReplyLost by (auto simp: reply_of_def)
    then show ?thesis using moved_call[OF assms(1,2)] assms(2) by (simp add: Push_def Let_def)
  qed
qed

lemma Retry_moves_steps:
  assumes "wok ch w" and "quiet w"
  shows "moved g ch w (snd (Retry R ch i d w))"
proof -
  obtain r w' where run: "Retry R ch i d w = (r, w')" by force
  from Retry_step[OF assms(1) run] assms(2) have w': "wok ch w'" "quiet w'"
    and rc: "retry_commit i d (qv ch (w_db w)) (qv ch (w_db w)) r (qv ch (w_db w'))" by auto
  have "w_net w' = w_net w" using run
    by (auto simp: Retry_def loadMessage_def client_call_def Let_def split: if_splits sum.splits prod.splits fault.splits)
  moreover have "q_steps g (qv ch (w_db w)) (qv ch (w_db w'))"
    using rc q_moved_step[of i d "qv ch (w_db w)" "qv ch (w_db w)" "qv ch (w_db w')" g]
    by (auto simp: retry_commit_def split: sum.splits bool.splits)
  ultimately show ?thesis using run w' by simp
qed

lemma ForwardMessages_moves:
  assumes "wok ch w" and "quiet w"
  shows "moved g ch w (snd (ForwardMessages R ch w))"
proof -
  obtain s1 where s1: "moveScript R (k_Delayed (NewKeys ch)) (k_Waiting (NewKeys ch)) (k_MessagePrefix (NewKeys ch))
      (secs w + 1) StatusWaiting (db_at w)
        = (Inr (int (length (zset_due (secs w + 1) 100 (q_delayed (now_q ch w))))), s1)"
      "ok ch s1" "qv ch s1 = q_forward (secs w + 1) (now_q ch w)"
    using moveScript_refines[OF world_ok_db_at[OF assms(1)], of "secs w + 1"] world_ok_clock[OF assms(1)] by blast
  let ?w1 = "after_call w s1"
  note z = zset_due_wf[OF view_zsets(2)[OF world_ok_db_at[OF assms(1)]]]
  have m1: "moved g ch w ?w1"
    by (rule moved_call[OF assms s1(2)]) (use z s1(3) assms(2) in \<open>simp add: q_forward_def forward_steps\<close>)
  then have w1: "wok ch ?w1" "quiet ?w1" by simp_all
  obtain s2 where s2: "moveTimeoutScript R (k_Reserved (NewKeys ch)) (k_Timeout (NewKeys ch))
      (k_MessagePrefix (NewKeys ch)) (secs w) (db_at ?w1)
        = (Inr (int (length (filter (\<lambda>i. q_msgs (now_q ch ?w1) i \<noteq> None) (zset_due (secs w) 100 (q_reserved (now_q ch ?w1)))))), s2)"
      "ok ch s2" "qv ch s2 = q_expire (secs w) (now_q ch ?w1)"
    using moveTimeoutScript_refines[OF world_ok_db_at[OF w1(1)], of "secs w"] by blast
  note z2 = zset_due_wf[OF view_zsets(1)[OF world_ok_db_at[OF w1(1)]]]
  have "moved g ch ?w1 (after_call ?w1 s2)"
    by (rule moved_call[OF w1 s2(2)]) (use z2 s2(3) w1(2) in \<open>simp add: q_expire_def expire_steps del: after_call_proj\<close>)
  from moved_trans[OF m1 this] m1 have both: "moved g ch w (after_call ?w1 s2)" "moved g ch w ?w1" by blast+
  have "snd (ForwardMessages R ch w) \<in> {?w1, after_call ?w1 s2}"
    using s1(1) s2(1) by (simp add: ForwardMessages_def Let_def client_call_eq split: sum.split)
  then show ?thesis using both by auto
qed

lemma Reload_moves:
  assumes "wok ch w" and "quiet w"
  shows "\<exists>w'. map_option snd (Reload R ch name w) = Some w' \<and> moved g ch w w'"
proof (cases "reload_source (NewKeys ch) name")
  case (Inl e)
  then show ?thesis using assms by (simp add: Reload_def)
next
  case (Inr r)
  obtain src skip where r: "r = (dead_key (NewKeys ch) src, skip)"
    using Inr by (auto simp: reload_source_def Keys_Get_def intro: that[of FromTimeout] that[of FromFailed] split: if_splits)
  let ?P = "\<lambda>_ q. q_steps g (qv ch (w_db w)) q"
  have "?P (t + int k) q'" if "?P t q" "q_reload_batch src (skip = ''1'') now 100 0 q = (k, q')" for now q k q' and t :: int
    using that reload_steps[of g q src "skip = ''1''" now 100 0] by (simp add: rtranclp_trans)
  then show ?thesis
    using reload_all_returns[OF assms, of ?P 0 src skip] Inr r by (auto simp: Reload_def)
qed

lemma Pop_moves:
  assumes "wok ch w" and "quiet w" and "honest w"
  shows "\<exists>w'. map_option snd (Pop R ch pt ht ctx w) = Some w' \<and> moved g ch w w'"
  using Pop_step[OF assms(1), of pt ht ctx] assms(2,3) q_step.claim[of g "qv ch (w_db w)" "secs w" "pop_deadline ht w"]
  by (auto simp: honest_def)

lemma Flush_moves:
  fixes b :: string
  assumes "wok ch w" and "quiet w"
  defines "w' \<equiv> snd (Flush R ch b w)"
  shows "wok ch w' \<and> quiet w' \<and> w_net w' = w_net w \<and> (\<exists>name. qv ch (w_db w') \<in> {qv ch (w_db w), q_flush name (qv ch (w_db w))})"
proof -
  let ?name = "if b = '''' then ''failed'' else b"
  from Flush_refines[OF assms(1), of b] consider "w' = w"
    | s where "w' = after_call w s" "ok ch s" "qv ch s = q_flush ?name (qv ch (w_db w))"
    using assms(2) unfolding w'_def by fastforce
  then show ?thesis
  proof cases
    case 2
    then have "qv ch (w_db w') \<in> {qv ch (w_db w), q_flush ?name (qv ch (w_db w))}" using assms(2) by simp
    then show ?thesis using 2 world_ok_after[OF assms(1) 2(2)] assms(2) by auto
  qed (use assms in auto)
qed

lemma perform_moves:
  assumes w: "wok ch w" "quiet w" and "honest w" and a: "allowed safe look g ch c w" and "\<nexists>name. c = Call_Flush name"
  shows "\<exists>w'. perform R ch c w = Some w' \<and> moved g ch w w'"
proof (cases c)
  case (Call_Push m d ttl)
  then show ?thesis using Push_moves[OF w] a by simp
next
  case (Call_Pop pt ht ctx)
  then show ?thesis using Pop_moves[OF w assms(3)] by simp
next
  case (Call_Ack i)
  then show ?thesis using a moved_commit[where op = "Ack R ch i" and f = "q_ack i (secs w)" and g = g, OF w Ack_refines[OF w(1)]]
    by (simp add: allowed_def Let_def q_step.ack)
next
  case (Call_Drop i)
  then show ?thesis using a moved_commit[where op = "Drop R ch i" and f = "q_drop i (secs w)" and g = g, OF w Drop_refines[OF w(1)]]
    by (simp add: allowed_def Let_def q_step.drop)
next
  case (Call_Fail i)
  then show ?thesis using a moved_commit[where op = "Fail R ch i" and f = "q_fail i (secs w)" and g = g, OF w Fail_refines[OF w(1)]]
    by (simp add: allowed_def Let_def q_step.fail)
next
  case (Call_Requeue i)
  then show ?thesis using a moved_commit[where op = "Requeue R ch i" and f = "q_requeue i (secs w)" and g = g, OF w Requeue_refines[OF w(1)]]
    by (simp add: allowed_def Let_def q_step.requeue)
next
  case (Call_Retry i d)
  then show ?thesis using Retry_moves_steps[OF w] by simp
next
  case (Call_Cancel i)
  show ?thesis
  proof (cases "i = ''''")
    case True
    then show ?thesis using Call_Cancel w by (simp add: Cancel_def)
  next
    case False
    have "moved g ch w (snd (Cancel R ch i w))"
      by (rule moved_commit[where op = "Cancel R ch i" and f = "\<lambda>q. snd (q_cancel i (secs w) q)", OF w Cancel_refines[OF w(1) False]]) (rule q_step.cancel)
    then show ?thesis using Call_Cancel by simp
  qed
next
  case Call_ForwardMessages
  then show ?thesis using ForwardMessages_moves[OF w] by simp
next
  case (Call_Reload name)
  then show ?thesis using Reload_moves[OF w] by simp
qed (use assms(5) in simp)

lemma serves_keeps:
  assumes "serves R safe look g ch w F w'" and "wok ch w" and "quiet w" and "honest w"
  shows "wok ch w' \<and> quiet w' \<and> w_net w' = w_net w \<and> (tracked G (qv ch (w_db w)) \<longrightarrow> tracked (G \<union> F) (qv ch (w_db w'))) \<and>
    (g \<longrightarrow> good (qv ch (w_db w)) \<longrightarrow> good (qv ch (w_db w')))"
  using assms(1)
proof induction
  case (called F w1 c w2)
  then have w1: "wok ch w1" "quiet w1" "honest w1" using assms(4) by (simp_all add: honest_def)
  show ?case
  proof (cases "\<exists>name. c = Call_Flush name")
    case True
    then obtain name where c: "c = Call_Flush name" by blast
    then have w2: "w2 = snd (Flush R ch name w1)" using called.hyps(3) by simp
    note fl = Flush_moves[OF w1(1,2), of name, folded w2]
    then obtain b where "qv ch (w_db w2) = qv ch (w_db w1) \<or> qv ch (w_db w2) = q_flush b (qv ch (w_db w1))" by blast
    then have "tracked (G \<union> F) (qv ch (w_db w1)) \<longrightarrow> tracked (G \<union> F \<union> flushed look ch c w1 w2) (qv ch (w_db w2))"
      "good (qv ch (w_db w1)) \<longrightarrow> good (qv ch (w_db w2))"
      using flush_tracked[of "G \<union> F" "qv ch (w_db w1)" b] flush_good by (auto simp: flushed_def c)
    then show ?thesis using fl called.IH by (auto simp: Un_assoc)
  next
    case False
    then have "moved g ch w1 w2" using perform_moves[OF w1 called.hyps(2)] called.hyps(3) by simp
    moreover have "flushed look ch c w1 w2 = {}" using False by (cases c) (simp_all add: flushed_def)
    ultimately show ?thesis using called.IH q_steps_tracked q_steps_good by auto
  qed
next
  case (elsewhere F w1 s)
  then show ?case using q_steps_tracked q_steps_good by (auto simp: world_ok_def clocks_ok_def quiet_def)
qed (use assms in simp)

end

section \<open>Guarantees\<close>

text \<open>C9. No message is lost: whatever methods any clients call in whatever order, one call after the other, with any outcome of
  their calls, and whatever commits come late, every stored message that is not done, dropped or
  canceled stays in one of the five buckets, unless a call of \<^verbatim>\<open>Flush\<close> removed it from its bucket; and no method call ever hangs.
  What is pushed can be stored and the id counter is in order, and a failed call is not reported as an absent key.\<close>

theorem no_message_lost:
  assumes "redis_lua R look conv safe" and "world_ok safe look ch w" and "quiet w" and "honest w"
    and "tracked {} (view look ch (w_db w))" and "serves R safe look g ch w F w'"
  shows "tracked F (view look ch (w_db w')) \<and> (\<forall>c. allowed safe look g ch c w' \<longrightarrow> perform R ch c w' \<noteq> None)"
proof -
  note w' = redis_lua.serves_keeps[OF assms(1,6,2-4), of "{}"]
  then have "honest w'" using assms(4) by (simp add: honest_def)
  then have "perform R ch c w' \<noteq> None" if "allowed safe look g ch c w'" for c
    using redis_lua.perform_moves[OF assms(1) _ _ _ that] w' by (cases c) fastforce+
  then show ?thesis using w' assms(5) by simp
qed

text \<open>C11. When clients commit only what they hold and new ids do not collide with ids in use, every id is in at most one
  place of one bucket, and the stored status agrees with it: waiting, delayed and failed in these buckets, and reserved both for a
  claimed message and for one on the timeout list, whose status the forwarder leaves as it is.\<close>

theorem one_place:
  assumes "redis_lua R look conv safe" and "world_ok safe look ch w" and "quiet w" and "honest w"
    and "exclusive (view look ch (w_db w))" and "placed (view look ch (w_db w))" and "serves R safe look True ch w F w'"
  shows "exclusive (view look ch (w_db w')) \<and> placed (view look ch (w_db w'))"
  using redis_lua.serves_keeps[OF assms(1,7,2-4)] assms(5,6) by (simp add: good_def)

text \<open>C12. A commit that comes after its reservation expired breaks this: a late \<^verbatim>\<open>Requeue\<close> leaves the id on
  the timeout list and puts it on the waiting list too, a late \<^verbatim>\<open>Fail\<close> puts it on the failed list
  too, so that a later reload delivers the message again.\<close>

theorem late_commit_duplicates:
  assumes "redis_lua R look conv safe" and "world_ok safe look ch w" and "executed w"
    and "i \<in> set (q_timeout (view look ch (db_at w)))" and "q_msgs (view look ch (db_at w)) i \<noteq> None"
  shows "i \<in> set (q_timeout (view look ch (w_db (snd (Requeue R ch i w))))) \<inter> set (q_waiting (view look ch (w_db (snd (Requeue R ch i w)))))
    \<and> i \<in> set (q_timeout (view look ch (w_db (snd (Fail R ch i w))))) \<inter> set (q_failed (view look ch (w_db (snd (Fail R ch i w)))))"
  using redis_lua.Requeue_refines[OF assms(1,2), of i] redis_lua.Fail_refines[OF assms(1,2), of i] assms(3-5)
  by (auto simp: q_requeue_def q_fail_def)

text \<open>One message waiting, and the same message on the timeout list.\<close>

abbreviation demo_waiting :: "mem world" where
  "demo_waiting \<equiv> demo_world (\<lambda>_. Delivered) (demo_push ''waiting'' 0 ''a'' mem_empty)"

lemma demo_waiting_ok: "world_ok mem_safe m_obj ''q'' demo_waiting" "quiet demo_waiting" "honest demo_waiting"
  by (intro demo_world_ok demo_push_ok demo_empty)+ (simp add: honest_def demo_world_def)

lemma demo_waiting_view: "demo_view (w_db demo_waiting) = q_empty\<lparr>q_waiting := [''a''], q_msgs := [''a'' \<mapsto> demo_msg ''a'']\<rparr>"
  by (simp add: demo_simps)

lemma demo_waiting_good: "tracked {} (demo_view (w_db demo_waiting))" "exclusive (demo_view (w_db demo_waiting))"
    "placed (demo_view (w_db demo_waiting))"
  unfolding demo_waiting_view by (auto simp: tracked_def set_q_ids exclusive_unfold placed_def demo_msg_def q_empty_def zset_members_def)

theorem no_message_lost_witness:
  "\<exists>w1 w2. perform mem_redis ''q'' (Call_Pop 0 0 None) demo_waiting = Some w1 \<and>
     perform mem_redis ''q'' (Call_Requeue ''a'') w1 = Some w2 \<and> tracked {} (demo_view (w_db w2))"
proof -
  note lost = no_message_lost[OF demo_lua demo_waiting_ok demo_waiting_good(1), where g = False]
  have ok: "allowed mem_safe m_obj False ''q'' (Call_Pop 0 0 None) w" "allowed mem_safe m_obj False ''q'' (Call_Requeue ''a'') w" for w
    by (simp_all add: allowed_def)
  obtain w1 where w1: "perform mem_redis ''q'' (Call_Pop 0 0 None) demo_waiting = Some w1"
    using lost[OF serves.start] ok by blast
  have s1: "serves mem_redis mem_safe m_obj False ''q'' demo_waiting {} w1"
    using serves.called[OF serves.start ok(1) w1] by (simp add: flushed_def)
  obtain w2 where w2: "perform mem_redis ''q'' (Call_Requeue ''a'') w1 = Some w2" using lost[OF s1] ok by blast
  then show ?thesis using w1 lost[OF serves.called[OF s1 ok(2) w2]] by (auto simp: flushed_def)
qed

theorem one_place_witness:
  "\<exists>w1. perform mem_redis ''q'' (Call_Pop 0 0 None) demo_waiting = Some w1 \<and> exclusive (demo_view (w_db w1)) \<and>
     placed (demo_view (w_db w1))"
proof -
  have ok: "allowed mem_safe m_obj True ''q'' (Call_Pop 0 0 None) demo_waiting" by (simp add: allowed_def)
  obtain w1 where w1: "perform mem_redis ''q'' (Call_Pop 0 0 None) demo_waiting = Some w1"
    using mem_lua.Pop_moves[OF demo_waiting_ok] by fastforce
  then show ?thesis
    using one_place[OF demo_lua demo_waiting_ok demo_waiting_good(2,3) serves.called[OF serves.start ok w1]] by blast
qed

definition demo_timed_out :: mem where
  "demo_timed_out = LPUSH mem_redis (k_Timeout (NewKeys ''q'')) ''a'' (demo_push ''delayed'' 0 ''a'' mem_empty)"

theorem late_commit_duplicates_witness:
  "''a'' \<in> set (q_waiting (demo_view (w_db (snd (Requeue mem_redis ''q'' ''a'' (demo_world (\<lambda>_. Delivered) demo_timed_out))))))"
proof -
  have ok: "demo_ok demo_timed_out" "''a'' \<in> set (q_timeout (demo_view demo_timed_out))" "q_msgs (demo_view demo_timed_out) ''a'' \<noteq> None"
    using mem_lua.LPUSH_buckets[of "''q''" "demo_push ''delayed'' 0 ''a'' mem_empty" "''a''"]
    by (simp_all add: demo_timed_out_def demo_simps)
  show ?thesis
    using late_commit_duplicates[OF demo_lua demo_world_ok(1)[OF ok(1)], of "\<lambda>_. Delivered" "''a''"] ok by (simp add: executed_def)
qed

end
