(* ===== verification/Recovery.thy ===== *)
theory Recovery
  imports Delivery Reloading
begin

text \<open>
  What the forwarder and an operator achieve over several calls: repeated rounds of \<^verbatim>\<open>ForwardMessages\<close>
  catch up with any backlog of due messages and expired reservations, a hundred at a time, and a
  message whose consumer died is delivered again after \<^verbatim>\<open>Reload\<close>, whatever else the channel holds.
\<close>

section \<open>Sorted sets lose a prefix\<close>

definition due_count :: "int \<Rightarrow> zset \<Rightarrow> nat" where
  "due_count t z = length (filter (\<lambda>(sc, _). sc \<le> t) z)"

lemma due_prefix:
  assumes "sorted z"
  shows "filter (\<lambda>(sc, _). sc \<le> t) z = take (due_count t z) z"
  using assms
proof (induction z)
  case (Cons x z)
  show ?case
  proof (cases "fst x \<le> t")
    case True
    then show ?thesis using Cons by (simp add: due_count_def case_prod_beta)
  next
    case False
    then have "\<forall>y \<in> set z. \<not> fst y \<le> t" using Cons.prems by (force simp: less_eq_prod_def)
    then have "filter (\<lambda>(sc, _). sc \<le> t) (x # z) = []" using False by (auto simp: filter_empty_conv)
    then show ?thesis by (simp add: due_count_def)
  qed
qed (simp add: due_count_def)

lemma rem_prefix: "distinct (map snd z) \<Longrightarrow> fold zset_rem (map snd (take n z)) z = drop n z"
proof (induction z arbitrary: n)
  case (Cons x z)
  have "zset_rem (snd x) (x # z) = z"
    using Cons.prems by (force simp: zset_rem_def filter_id_conv)
  then show ?case using Cons by (cases n) simp_all
qed simp

lemma rem_due:
  assumes "zset_wf z"
  shows "fold zset_rem (zset_due now limit z) z = drop (min limit (due_count now z)) z"
proof -
  have "zset_due now limit z = map snd (take (min limit (due_count now z)) z)"
    using assms due_prefix[of z now] by (simp add: zset_due_def zset_wf_def take_map)
  then show ?thesis using assms rem_prefix[of z] by (simp add: zset_wf_def)
qed

lemma due_count_drop:
  assumes "sorted z"
  shows "due_count t (drop n z) = due_count t z - n"
  using assms
proof (induction n arbitrary: z)
  case (Suc n)
  show ?case
  proof (cases z)
    case (Cons x zs)
    have "due_count t z - Suc n = due_count t zs - n"
    proof (cases "fst x \<le> t")
      case False
      then have "\<forall>y \<in> set zs. \<not> fst y \<le> t" using Suc.prems Cons by (force simp: less_eq_prod_def)
      then have "filter (\<lambda>(sc, _). sc \<le> t) zs = []" "filter (\<lambda>(sc, _). sc \<le> t) z = []" using False Cons by (auto simp: filter_empty_conv)
      then show ?thesis by (simp add: due_count_def)
    qed (simp add: Cons due_count_def case_prod_beta)
    then show ?thesis using Suc.IH[of zs] Suc.prems Cons by simp
  qed (simp add: due_count_def)
qed simp

lemma due_count_mono: "t \<le> t' \<Longrightarrow> due_count t z \<le> due_count t' z"
  by (induction z) (auto simp: due_count_def)

lemma due_count_0: "due_count t z = 0 \<longleftrightarrow> (\<forall>(sc, i) \<in> set z. t < sc)"
  by (auto simp: due_count_def filter_empty_conv)


section \<open>One round\<close>

lemma forward_fold:
  "q_delayed (fold (q_forward1 now) xs q) = fold zset_rem xs (q_delayed q)"
  "q_reserved (fold (q_forward1 now) xs q) = q_reserved q"
  "q_timeout (fold (q_forward1 now) xs q) = q_timeout q"
  "(q_msgs (fold (q_forward1 now) xs q) i = None) = (q_msgs q i = None)"
  by (induction xs arbitrary: q) (simp_all add: q_forward1_def Let_def q_mark_def)

lemma forward_fold_waiting:
  assumes "q_msgs q i \<noteq> None" and "i \<in> set (q_waiting q) \<or> i \<in> set xs"
  shows "i \<in> set (q_waiting (fold (q_forward1 now) xs q))"
  using assms
proof (induction xs arbitrary: q)
  case (Cons x xs)
  have "q_msgs (q_forward1 now x q) i \<noteq> None" using Cons.prems(1) by (simp add: q_forward1_def Let_def q_mark_def)
  moreover have "i \<in> set (q_waiting (q_forward1 now x q)) \<or> i \<in> set xs"
    using Cons.prems by (auto simp: q_forward1_def Let_def)
  ultimately show ?case using Cons.IH by simp
qed simp

lemma expire_fold:
  "q_reserved (fold q_expire1 xs q) = fold zset_rem xs (q_reserved q)"
  "q_delayed (fold q_expire1 xs q) = q_delayed q" "q_waiting (fold q_expire1 xs q) = q_waiting q"
  "q_msgs (fold q_expire1 xs q) = q_msgs q"
  by (induction xs arbitrary: q) (simp_all add: q_expire1_def q_unreserve_def)

lemma expire_fold_timeout:
  assumes "q_msgs q i \<noteq> None" and "i \<in> set (q_timeout q) \<or> i \<in> set xs"
  shows "i \<in> set (q_timeout (fold q_expire1 xs q))"
  using assms
proof (induction xs arbitrary: q)
  case (Cons x xs)
  have "i \<in> set (q_timeout (q_expire1 x q)) \<or> i \<in> set xs" "q_msgs (q_expire1 x q) i \<noteq> None"
    using Cons.prems by (auto simp: q_expire1_def)
  then show ?case using Cons.IH by simp
qed simp

text \<open>One round of the forwarder on the abstract queue.\<close>

definition q_round :: "int \<Rightarrow> qstate \<Rightarrow> qstate" where
  "q_round now q = q_expire now (q_forward (now + 1) q)"

lemma drop_or_due:
  assumes "zset_wf z" and "(sc, i) \<in> set z"
  shows "(sc, i) \<in> set (drop (min limit (due_count now z)) z) \<or> i \<in> set (zset_due now limit z)"
proof -
  let ?k = "min limit (due_count now z)"
  have "zset_due now limit z = map snd (take ?k z)"
    using assms(1) due_prefix[of z now] by (simp add: zset_due_def zset_wf_def take_map)
  moreover have "(sc, i) \<in> set (take ?k z) \<or> (sc, i) \<in> set (drop ?k z)"
    using assms(2) append_take_drop_id[of ?k z] by (metis Un_iff set_append)
  ultimately show ?thesis by force
qed

lemma q_round_zsets:
  assumes "zset_wf (q_delayed q)" and "zset_wf (q_reserved q)"
  shows "q_delayed (q_round now q) = drop (min 100 (due_count (now + 1) (q_delayed q))) (q_delayed q)"
    "q_reserved (q_round now q) = drop (min 100 (due_count now (q_reserved q))) (q_reserved q)"
  using assms by (simp_all add: q_round_def q_expire_def q_forward_def forward_fold expire_fold rem_due)

lemma q_round_keeps:
  assumes "q_msgs q i \<noteq> None"
  shows "q_msgs (q_round now q) i \<noteq> None" "i \<in> set (q_waiting q) \<Longrightarrow> i \<in> set (q_waiting (q_round now q))"
    "i \<in> set (q_timeout q) \<Longrightarrow> i \<in> set (q_timeout (q_round now q))"
  using assms forward_fold_waiting[of q i] expire_fold_timeout[of "fold (q_forward1 (now + 1)) (zset_due (now + 1) 100 (q_delayed q)) q" i]
  by (simp_all add: q_round_def q_expire_def q_forward_def forward_fold expire_fold del: not_None_eq)

lemma q_round_moves:
  assumes "zset_wf (q_delayed q)" and "zset_wf (q_reserved q)" and "q_msgs q i \<noteq> None"
  shows "(sc, i) \<in> set (q_delayed q) \<Longrightarrow> (sc, i) \<in> set (q_delayed (q_round now q)) \<or> i \<in> set (q_waiting (q_round now q))"
    "(dl, i) \<in> set (q_reserved q) \<Longrightarrow> (dl, i) \<in> set (q_reserved (q_round now q)) \<or> i \<in> set (q_timeout (q_round now q))"
proof -
  let ?q1 = "q_forward (now + 1) q"
  show "(sc, i) \<in> set (q_delayed q) \<Longrightarrow> (sc, i) \<in> set (q_delayed (q_round now q)) \<or> i \<in> set (q_waiting (q_round now q))"
    using drop_or_due[OF assms(1), of sc i 100 "now + 1"] q_round_zsets(1)[OF assms(1,2), of now] forward_fold_waiting[OF assms(3)]
    by (auto simp: q_round_def q_expire_def q_forward_def expire_fold)
  have "q_msgs ?q1 i \<noteq> None" "q_reserved ?q1 = q_reserved q" using assms(3) by (simp_all add: q_forward_def forward_fold del: not_None_eq)
  then show "(dl, i) \<in> set (q_reserved q) \<Longrightarrow> (dl, i) \<in> set (q_reserved (q_round now q)) \<or> i \<in> set (q_timeout (q_round now q))"
    using drop_or_due[OF assms(2), of dl i 100 now] q_round_zsets(2)[OF assms(1,2), of now] expire_fold_timeout[of ?q1 i]
    by (auto simp: q_round_def q_expire_def)
qed

lemma q_round_backlog:
  assumes "zset_wf (q_delayed q)" and "zset_wf (q_reserved q)" and "t \<le> now"
  shows "due_count (t + 1) (q_delayed (q_round now q)) = due_count (t + 1) (q_delayed q) - 100"
    "due_count t (q_reserved (q_round now q)) = due_count t (q_reserved q) - 100"
  using assms due_count_mono[of "t + 1" "now + 1" "q_delayed q"] due_count_mono[of t now "q_reserved q"]
  by (auto simp: q_round_zsets due_count_drop zset_wf_def min_def)

lemma q_round_early:
  assumes "zset_wf (q_delayed q)" and "zset_wf (q_reserved q)" and "(sc, i) \<in> set (q_delayed q)" and "now + 1 < sc"
  shows "(sc, i) \<in> set (q_delayed (q_round now q))"
proof -
  have "sorted (q_delayed q)" using assms(1) by (simp add: zset_wf_def)
  from due_prefix[OF this, of "now + 1"]
  have "set (take (due_count (now + 1) (q_delayed q)) (q_delayed q)) = {x \<in> set (q_delayed q). case x of (sc, _) \<Rightarrow> sc \<le> now + 1}"
    by (metis set_filter)
  then have "(sc, i) \<notin> set (take (due_count (now + 1) (q_delayed q)) (q_delayed q))" using assms(4) by simp
  then have "(sc, i) \<in> set (drop (due_count (now + 1) (q_delayed q)) (q_delayed q))"
    using assms(3) append_take_drop_id[of "due_count (now + 1) (q_delayed q)" "q_delayed q"] by (metis Un_iff set_append)
  then show ?thesis unfolding q_round_zsets[OF assms(1,2)] using set_drop_subset_set_drop[of "min 100 (due_count (now + 1) (q_delayed q))"]
    by (meson min.cobounded2 subsetD)
qed


text \<open>What \<open>n\<close> rounds have done for the message \<open>i\<close>, delayed until \<open>sc\<close> or reserved until \<open>dl\<close>, and for the backlog
  of time \<open>t\<close>; \<open>e\<close>: it is not due yet.\<close>

definition caught :: "int \<Rightarrow> string \<Rightarrow> int \<Rightarrow> int \<Rightarrow> bool \<Rightarrow> qstate \<Rightarrow> nat \<Rightarrow> qstate \<Rightarrow> bool" where
  "caught t i sc dl e q n q' \<longleftrightarrow> q_msgs q' i \<noteq> None \<and>
     due_count (t + 1) (q_delayed q') = due_count (t + 1) (q_delayed q) - 100 * n \<and>
     due_count t (q_reserved q') = due_count t (q_reserved q) - 100 * n \<and>
     ((sc, i) \<in> set (q_delayed q) \<longrightarrow> (sc, i) \<in> set (q_delayed q') \<or> i \<in> set (q_waiting q')) \<and>
     ((dl, i) \<in> set (q_reserved q) \<longrightarrow> (dl, i) \<in> set (q_reserved q') \<or> i \<in> set (q_timeout q')) \<and>
     (e \<longrightarrow> (sc, i) \<in> set (q_delayed q) \<longrightarrow> (sc, i) \<in> set (q_delayed q'))"

lemma caught_init: "q_msgs q i \<noteq> None \<Longrightarrow> caught t i sc dl e q 0 q"
  by (simp add: caught_def)

lemma caught_round:
  assumes c: "caught t i sc dl e q n q'" and z: "zset_wf (q_delayed q')" "zset_wf (q_reserved q')" and now: "t \<le> now" "e \<longrightarrow> now + 1 < sc"
  shows "caught t i sc dl e q (Suc n) (q_round now q')"
proof -
  have m: "q_msgs q' i \<noteq> None" using c unfolding caught_def by (rule conjunct1)
  have "due_count (t + 1) (q_delayed (q_round now q')) = due_count (t + 1) (q_delayed q) - 100 * Suc n"
    "due_count t (q_reserved (q_round now q')) = due_count t (q_reserved q) - 100 * Suc n"
    using c q_round_backlog[OF z now(1)] by (simp_all add: caught_def)
  moreover have "(sc, i) \<in> set (q_delayed q) \<longrightarrow> (sc, i) \<in> set (q_delayed (q_round now q')) \<or> i \<in> set (q_waiting (q_round now q'))"
    using c q_round_moves(1)[OF z m, of sc now] q_round_keeps(2)[OF m, of now] unfolding caught_def by blast
  moreover have "(dl, i) \<in> set (q_reserved q) \<longrightarrow> (dl, i) \<in> set (q_reserved (q_round now q')) \<or> i \<in> set (q_timeout (q_round now q'))"
    using c q_round_moves(2)[OF z m, of dl now] q_round_keeps(3)[OF m, of now] unfolding caught_def by blast
  moreover have "e \<longrightarrow> (sc, i) \<in> set (q_delayed q) \<longrightarrow> (sc, i) \<in> set (q_delayed (q_round now q'))"
    using c q_round_early[OF z, of sc i now] now(2) unfolding caught_def by blast
  ultimately show ?thesis using q_round_keeps(1)[OF m, of now] unfolding caught_def by blast
qed


section \<open>Rounds of the forwarder\<close>

definition forward_rounds :: "'s redis \<Rightarrow> string \<Rightarrow> nat \<Rightarrow> 's world \<Rightarrow> 's world" where
  "forward_rounds R ch n w = ((\<lambda>w. snd (ForwardMessages R ch w)) ^^ n) w"

context redis_lua begin

lemma Forward_delivered:
  assumes "wok ch w" and "quiet w" and "\<forall>n. w_net w n = Delivered"
  shows "\<exists>d t w'. ForwardMessages R ch w = ((d, t, None), w') \<and> wok ch w' \<and> quiet w' \<and> w_net w' = w_net w \<and> w_clock w' = w_clock w \<and>
    d = int (length (zset_due (secs w + 1) 100 (q_delayed (qv ch (w_db w))))) \<and>
    t = int (length (filter (\<lambda>i. q_msgs (q_forward (secs w + 1) (qv ch (w_db w))) i \<noteq> None)
      (zset_due (secs w) 100 (q_reserved (q_forward (secs w + 1) (qv ch (w_db w))))))) \<and>
    qv ch (w_db w') = q_round (secs w) (qv ch (w_db w))"
proof -
  obtain s1 s2 d t where
    f: "ForwardMessages R ch w = (case reply_of (after_call w s1) (Inr t) of
         Inl e \<Rightarrow> ((d, 0, Some e), after_call (after_call w s1) s2)
       | Inr t \<Rightarrow> ((d, t, None), after_call (after_call w s1) s2))"
    and d: "d = int (length (zset_due (secs w + 1) 100 (q_delayed (now_q ch w))))"
    and s1: "ok ch s1" "qv ch s1 = q_forward (secs w + 1) (now_q ch w)"
    and t: "t = int (length (filter (\<lambda>i. q_msgs (now_q ch (after_call w s1)) i \<noteq> None)
                 (zset_due (secs w) 100 (q_reserved (now_q ch (after_call w s1))))))"
    and s2: "ok ch s2" "qv ch s2 = q_expire (secs w) (now_q ch (after_call w s1))"
    using ForwardMessages_refines[OF assms(1)] assms(3) unfolding Let_def by blast
  have "db_at w = w_db w" "db_at (after_call w s1) = s1" using assms(2,3) by (simp_all add: executed_def)
  then show ?thesis using f d t s1(2) s2(2) assms(2,3) world_ok_after[OF world_ok_after[OF assms(1) s1(1)] s2(1)]
    by (simp add: reply_of_def executed_def q_round_def)
qed

lemma rounds_caught:
  assumes "wok ch w" and "quiet w" and "\<forall>n. w_net w n = Delivered" and "\<forall>n. t \<le> Unix (w_clock w n)"
    and "e \<longrightarrow> (\<forall>n. Unix (w_clock w n) + 1 < sc)" and "q_msgs (qv ch (w_db w)) i \<noteq> None"
  shows "wok ch (forward_rounds R ch n w) \<and> quiet (forward_rounds R ch n w) \<and> w_net (forward_rounds R ch n w) = w_net w \<and>
    w_clock (forward_rounds R ch n w) = w_clock w \<and> caught t i sc dl e (qv ch (w_db w)) n (qv ch (w_db (forward_rounds R ch n w)))"
proof (induction n)
  case 0
  then show ?case using assms(1-3,6) by (simp add: forward_rounds_def caught_init del: not_None_eq)
next
  case (Suc n)
  let ?u = "forward_rounds R ch n w"
  have u: "wok ch ?u" "quiet ?u" "\<forall>n. w_net ?u n = Delivered" "w_clock ?u = w_clock w" "w_net ?u = w_net w" using Suc assms(3) by auto
  obtain v where v: "snd (ForwardMessages R ch ?u) = v" "wok ch v" "quiet v" "w_net v = w_net ?u" "w_clock v = w_clock ?u"
    "qv ch (w_db v) = q_round (secs ?u) (qv ch (w_db ?u))" using Forward_delivered[OF u(1-3)] by auto
  have z: "zset_wf (q_delayed (qv ch (w_db ?u)))" "zset_wf (q_reserved (qv ch (w_db ?u)))"
    using view_zsets[of safe look ch "w_db ?u"] u(1) by (simp_all add: world_ok_def)
  have "t \<le> secs ?u" "e \<longrightarrow> secs ?u + 1 < sc" using assms(4,5) u(4) by (simp_all add: clock_now_def)
  then have "caught t i sc dl e (qv ch (w_db w)) (Suc n) (qv ch (w_db v))" unfolding v(6) using caught_round[OF _ z] Suc by blast
  moreover have "forward_rounds R ch (Suc n) w = v" using v(1) by (simp add: forward_rounds_def)
  ultimately show ?case using v u by simp
qed

end

text \<open>C7. The forwarder catches up with any backlog: while the clock shows at least \<open>t\<close>, after \<open>n\<close> undisturbed rounds
  of \<^verbatim>\<open>ForwardMessages\<close>, where a hundred times \<open>n\<close> covers the messages due by \<open>t\<close>, every message that was
  due (up to one second early) is waiting and every message whose reservation had expired is on the timeout list; and
  a message due more than a second after every clock reading is still delayed.\<close>

theorem forwarding_catches_up:
  assumes "redis_lua R look conv safe" and "world_ok safe look ch w" and "quiet w" and "\<forall>n. w_net w n = Delivered"
    and "\<forall>n. t \<le> Unix (w_clock w n)" and "q_msgs (view look ch (w_db w)) i \<noteq> None"
    and "due_count (t + 1) (q_delayed (view look ch (w_db w))) \<le> 100 * n" and "due_count t (q_reserved (view look ch (w_db w))) \<le> 100 * n"
  defines "q \<equiv> view look ch (w_db w)" and "q' \<equiv> view look ch (w_db (forward_rounds R ch n w))"
  shows "((sc, i) \<in> set (q_delayed q) \<and> sc \<le> t + 1 \<longrightarrow> i \<in> set (q_waiting q')) \<and>
    ((dl, i) \<in> set (q_reserved q) \<and> dl \<le> t \<longrightarrow> i \<in> set (q_timeout q')) \<and>
    ((sc, i) \<in> set (q_delayed q) \<and> (\<forall>n. Unix (w_clock w n) + 1 < sc) \<longrightarrow> (sc, i) \<in> set (q_delayed q'))"
proof -
  let ?e = "\<forall>n. Unix (w_clock w n) + 1 < sc"
  have r: "caught t i sc dl ?e q n q'"
    unfolding q_def q'_def using redis_lua.rounds_caught[OF assms(1-5) _ assms(6), of ?e sc n dl] by blast
  then have "due_count (t + 1) (q_delayed q') = 0" "due_count t (q_reserved q') = 0"
    using assms(7,8) by (simp_all add: caught_def q_def)
  then have "sc \<le> t + 1 \<longrightarrow> (sc, i) \<notin> set (q_delayed q')" "dl \<le> t \<longrightarrow> (dl, i) \<notin> set (q_reserved q')" by (auto simp: due_count_0)
  then show ?thesis using r unfolding caught_def by blast
qed

section \<open>Recovery from a crash\<close>

text \<open>The message \<open>m\<close> is still stored under \<open>i\<close>, up to its status and time of change, and not in a final status.\<close>

definition kept :: "string \<Rightarrow> Message \<Rightarrow> qstate \<Rightarrow> bool" where
  "kept i m q \<longleftrightarrow> (\<exists>m'. q_msgs q i = Some m' \<and> Payload m' = Payload m \<and> Attempts m' = Attempts m \<and> \<not> stale m')"

lemma kept_forward1: "kept i m q \<Longrightarrow> kept i m (q_forward1 now x q)"
  by (auto simp: kept_def q_forward1_def Let_def stale_def status_defs)

lemma kept_forward: "kept i m q \<Longrightarrow> kept i m (fold (q_forward1 now) xs q)"
  by (induction xs arbitrary: q) (simp_all add: kept_forward1)

lemma kept_round: "kept i m q \<Longrightarrow> kept i m (q_round now q)"
  using kept_forward[of i m q] by (simp add: q_round_def q_expire_def q_forward_def expire_fold kept_def)

lemma unstored_round: "q_msgs q i = None \<Longrightarrow> q_msgs (q_round now q) i = None"
  by (simp add: q_round_def q_expire_def q_forward_def expire_fold forward_fold)

lemma kept_reloaded:
  assumes "reloaded src skip q ps q'" and "kept i m q"
  shows "kept i m q'"
proof -
  have "if i \<in> set ps \<and> reloadable skip q i then \<exists>now. q_msgs q' i = map_option (stamp StatusWaiting now) (q_msgs q i)
      else q_msgs q' i = q_msgs q i" using assms(1) by (simp add: reloaded_def)
  then show ?thesis using assms(2) by (auto simp: kept_def stale_def status_defs split: if_splits)
qed

text \<open>Claims by \<^verbatim>\<open>Pop\<close>, one after the other.\<close>

definition pop_rounds :: "'s redis \<Rightarrow> string \<Rightarrow> int \<Rightarrow> int \<Rightarrow> nat \<Rightarrow> 's world \<Rightarrow> 's world" where
  "pop_rounds R ch pt ht k w = ((\<lambda>w. snd (the (Pop R ch pt ht None w))) ^^ k) w"

context redis_lua begin

lemma rounds_keep:
  assumes "wok ch w" and "quiet w" and "\<forall>n. w_net w n = Delivered" and "Q (qv ch (w_db w))" and step: "\<And>now q. Q q \<Longrightarrow> Q (q_round now q)"
  shows "wok ch (forward_rounds R ch n w) \<and> quiet (forward_rounds R ch n w) \<and> w_net (forward_rounds R ch n w) = w_net w \<and>
    Q (qv ch (w_db (forward_rounds R ch n w)))"
proof (induction n)
  case 0
  then show ?case using assms(1-4) by (simp add: forward_rounds_def)
next
  case (Suc n)
  let ?u = "forward_rounds R ch n w"
  have u: "wok ch ?u" "quiet ?u" "\<forall>n. w_net ?u n = Delivered" "w_net ?u = w_net w" using Suc assms(3) by auto
  obtain v where v: "snd (ForwardMessages R ch ?u) = v" "wok ch v" "quiet v" "w_net v = w_net ?u"
    "qv ch (w_db v) = q_round (secs ?u) (qv ch (w_db ?u))" using Forward_delivered[OF u(1-3)] by auto
  have "forward_rounds R ch (Suc n) w = v" using v(1) by (simp add: forward_rounds_def)
  then show ?case using v u(4) Suc step[of "qv ch (w_db ?u)" "secs ?u"] by simp
qed

text \<open>A waiting message is delivered after at most the ones before it.\<close>

lemma pops_reach:
  assumes "wok ch w" and "quiet w" and "\<forall>n. w_net w n = Delivered" and "q_waiting (qv ch (w_db w)) = ys @ i # zs"
    and "kept i m (qv ch (w_db w))" and "q_msgs (qv ch (w_db w)) '''' = None"
  shows "\<exists>k m2 w'. k \<le> length zs \<and> Pop R ch pt ht None (pop_rounds R ch pt ht k w) = Some (Inr (i, Some m2), w') \<and>
    Payload m2 = Payload m \<and> Attempts m2 = Attempts m \<and> Status m2 = StatusReserved"
  using assms
proof (induction "length zs" arbitrary: zs w rule: less_induct)
  case less
  let ?q = "qv ch (w_db w)"
  obtain m' where m': "q_msgs ?q i = Some m'" "Payload m' = Payload m" "Attempts m' = Attempts m" using less.prems(5) by (auto simp: kept_def)
  then have i: "i \<noteq> ''''" using less.prems(6) by auto
  have d: "w_net w (w_tick w) = Delivered" "w_net w (Suc (w_tick w)) = Delivered" using less.prems(3) by simp_all
  have st: "Status (fill_defaults wall (stamp StatusReserved (secs w) m')) = StatusReserved" for wall
    by (simp add: fill_defaults_def Let_def status_defs)
  show ?case
  proof (cases "\<exists>j \<in> set zs. q_msgs ?q j \<noteq> None")
    case False
    then have "\<forall>x \<in> set zs. q_msgs ?q x = None" by blast
    from Pop_delivered[OF less.prems(1,2) d less.prems(4) i m'(1) this, of pt ht None] st show ?thesis
      using m'(2,3) by (intro exI[of _ 0]) (auto simp: pop_rounds_def)
  next
    case True
    then obtain zs' j dead where zs: "zs = zs' @ j # dead" and j: "q_msgs ?q j \<noteq> None" and dead: "\<forall>x \<in> set dead. q_msgs ?q x = None"
      using split_list_last_prop[OF True] by blast
    have wt: "q_waiting ?q = (ys @ i # zs') @ j # dead" using less.prems(4) zs by simp
    obtain mj where mj: "q_msgs ?q j = Some mj" using j by blast
    have "j \<noteq> ''''" using mj less.prems(6) by auto
    from Pop_delivered[OF less.prems(1,2) d wt this mj dead, of pt ht None]
    obtain w1 wall where pop: "Pop R ch pt ht None w = Some (Inr (j, Some (fill_defaults wall (stamp StatusReserved (secs w) mj))), w1)"
      and w1: "wok ch w1" "quiet w1" "w_net w1 = w_net w"
      and q1: "qv ch (w_db w1) = (q_mark j StatusReserved (secs w) ?q)
        \<lparr>q_waiting := ys @ i # zs', q_reserved := zset_add (pop_deadline ht w) j (q_reserved ?q)\<rparr>" by blast
    show ?thesis
    proof (cases "j = i")
      case True
      then show ?thesis using pop m' mj st by (intro exI[of _ 0]) (auto simp: pop_rounds_def)
    next
      case False
      have k1: "kept i m (qv ch (w_db w1))" "q_msgs (qv ch (w_db w1)) '''' = None" "q_waiting (qv ch (w_db w1)) = ys @ i # zs'"
        using less.prems(5,6) False \<open>j \<noteq> ''''\<close> unfolding q1 by (simp_all add: kept_def)
      have "length zs' < length zs" "\<forall>n. w_net w1 n = Delivered" using zs w1(3) less.prems(3) by simp_all
      from less.hyps[OF this(1) w1(1,2) this(2) k1(3,1,2)] obtain k m2 w' where k: "k \<le> length zs'"
        "Pop R ch pt ht None (pop_rounds R ch pt ht k w1) = Some (Inr (i, Some m2), w')"
        "Payload m2 = Payload m" "Attempts m2 = Attempts m" "Status m2 = StatusReserved" by blast
      have "pop_rounds R ch pt ht (Suc k) w = pop_rounds R ch pt ht k w1" using pop by (simp add: pop_rounds_def funpow_Suc_right del: funpow.simps)
      then show ?thesis using k zs by (intro exI[of _ "Suc k"]) auto
    qed
  qed
qed

end

text \<open>C10. A message survives the death of its consumer, whatever else the channel holds.  Let a message be reserved until \<open>dl\<close> and never committed.  Once
  the clock has passed the deadline, enough undisturbed rounds of the forwarder (a hundred times their number covers what is due) put it on the
  timeout list; a \<^verbatim>\<open>Reload\<close> of that list, on which fewer than a hundred entries have no entity or a final status, makes it
  waiting again; and repeated \<^verbatim>\<open>Pop\<close> delivers it, after at most the messages that wait before it, with the same id and payload and no attempt
  used up.  All calls are delivered and no other client uses the channel meanwhile.\<close>

theorem crash_recovery:
  assumes "redis_lua R look conv safe" and "world_ok safe look ch w" and "quiet w" and "\<forall>n. w_net w n = Delivered"
    and "\<forall>n. t \<le> Unix (w_clock w n)" and "(dl, i) \<in> set (q_reserved (view look ch (w_db w)))" and "dl \<le> t"
    and "q_msgs (view look ch (w_db w)) i = Some m" and "Status m = StatusReserved" and "q_msgs (view look ch (w_db w)) '''' = None"
    and "due_count (t + 1) (q_delayed (view look ch (w_db w))) \<le> 100 * n" and "due_count t (q_reserved (view look ch (w_db w))) \<le> 100 * n"
  defines "q1 \<equiv> view look ch (w_db (forward_rounds R ch n w))"
  assumes "length (filter (\<lambda>j. \<not> reloadable True q1 j) (q_timeout q1)) < 100"
  shows "i \<in> set (q_timeout q1) \<and> (\<exists>c w2 k m2 w3. Reload R ch ''timeout'' (forward_rounds R ch n w) = Some ((c, None), w2) \<and>
    i \<in> set (q_waiting (view look ch (w_db w2))) \<and> k < length (q_waiting (view look ch (w_db w2))) \<and>
    Pop R ch pt ht None (pop_rounds R ch pt ht k w2) = Some (Inr (i, Some m2), w3) \<and>
    Payload m2 = Payload m \<and> Attempts m2 = Attempts m \<and> Status m2 = StatusReserved)"
proof -
  let ?w1 = "forward_rounds R ch n w"
  have k0: "kept i m (view look ch (w_db w)) \<and> q_msgs (view look ch (w_db w)) '''' = None"
    using assms(8-10) by (simp add: kept_def stale_def status_defs)
  have w1: "world_ok safe look ch ?w1" "quiet ?w1" "\<forall>n. w_net ?w1 n = Delivered" "w_net ?w1 = w_net w" and k1: "kept i m q1" "q_msgs q1 '''' = None"
    using redis_lua.rounds_keep[OF assms(1-4), of "\<lambda>q. kept i m q \<and> q_msgs q '''' = None" n] k0 kept_round unstored_round assms(4)
    unfolding q1_def by auto
  have "caught t i 0 dl False (view look ch (w_db w)) n q1"
    unfolding q1_def using redis_lua.rounds_caught[OF assms(1-5), of False 0 i n dl] assms(8) by blast
  then have "due_count t (q_reserved q1) = 0" "(dl, i) \<in> set (q_reserved q1) \<or> i \<in> set (q_timeout q1)"
    using assms(6,12) by (simp_all add: caught_def)
  then have timeout: "i \<in> set (q_timeout q1)" using assms(7) by (auto simp: due_count_0)
  obtain c w2 ps where r: "Reload R ch ''timeout'' ?w1 = Some ((c, None), w2)" and w2: "world_ok safe look ch w2" "quiet w2" "w_net w2 = w_net ?w1"
    and f: "reload_finished FromTimeout True q1 ps (view look ch (w_db w2))"
    using redis_lua.Reload_result[OF assms(1) w1(1,2), of "''timeout''"] w1(3) unfolding q1_def by auto
  note re = f[unfolded reload_finished_def, THEN conjunct1]
  have "q_dead FromTimeout (view look ch (w_db w2)) = []" using reload_finished_drains[OF f] assms(14) by simp
  then have "i \<in> set ps" using re timeout by (simp add: reloaded_def)
  moreover have "reloadable True q1 i" using k1(1) by (auto simp: kept_def reloadable_def)
  ultimately have wt: "i \<in> set (q_waiting (view look ch (w_db w2)))" using re by (simp add: reloaded_def)
  then obtain ys zs where split: "q_waiting (view look ch (w_db w2)) = ys @ i # zs" by (meson split_list)
  have "\<not> reloadable True q1 ''''" using k1(2) by (simp add: reloadable_def)
  then have k2: "kept i m (view look ch (w_db w2))" "q_msgs (view look ch (w_db w2)) '''' = None"
    using kept_reloaded[OF re k1(1)] re k1(2) by (simp_all add: reloaded_def)
  have "\<forall>n. w_net w2 n = Delivered" using w2(3) w1(3) by simp
  from redis_lua.pops_reach[OF assms(1) w2(1,2) this split k2, of pt ht] obtain k m2 w3 where "k \<le> length zs"
    "Pop R ch pt ht None (pop_rounds R ch pt ht k w2) = Some (Inr (i, Some m2), w3)"
    "Payload m2 = Payload m" "Attempts m2 = Attempts m" "Status m2 = StatusReserved" by blast
  then show ?thesis using r wt timeout split by (intro conjI exI[of _ c] exI[of _ w2] exI[of _ k]) auto
qed

section \<open>Concrete worlds\<close>

theorem forwarding_catches_up_witness:
  "''a'' \<in> set (q_waiting (demo_view (w_db (forward_rounds mem_redis ''q'' 1
     (demo_world (\<lambda>_. Delivered) (demo_push ''delayed'' 101 ''a'' (demo_push ''delayed'' 200 ''b'' mem_empty)))))))"
proof -
  let ?s = "demo_push ''delayed'' 101 ''a'' (demo_push ''delayed'' 200 ''b'' mem_empty)"
  have s: "demo_ok ?s" by (intro demo_push_ok demo_empty)
  have v: "q_delayed (demo_view ?s) = [(101, ''a''), (200, ''b'')]" "q_reserved (demo_view ?s) = []" "q_msgs (demo_view ?s) ''a'' \<noteq> None"
    by (simp_all add: demo_simps zset_add_def zset_rem_def)
  have c: "\<forall>n. 100 \<le> Unix (w_clock (demo_world (\<lambda>_. Delivered) ?s) n)" by (simp add: demo_world_def Unix_def)
  show ?thesis
    using forwarding_catches_up[OF demo_lua demo_world_ok[OF s, of "\<lambda>_. Delivered"] _ c, of "''a''" 1 101 0] v
    by (simp add: due_count_def)
qed

theorem crash_recovery_witness:
  "\<exists>m1 w1 c w2 k m2 w3. Pop mem_redis ''q'' 0 (60 * second_ns) None (demo_world (\<lambda>_. Delivered)
       (demo_push ''waiting'' 0 ''b'' (demo_push ''waiting'' 0 ''a'' mem_empty))) = Some (Inr (''a'', Some m1), w1) \<and>
     Reload mem_redis ''q'' ''timeout'' (forward_rounds mem_redis ''q'' 1 (w1\<lparr>w_clock := \<lambda>_. 280 * 10 ^ 9\<rparr>)) = Some ((c, None), w2) \<and>
     Pop mem_redis ''q'' 0 0 None (pop_rounds mem_redis ''q'' 0 0 k w2) = Some (Inr (''a'', Some m2), w3) \<and> Attempts m2 = 0"
proof -
  let ?s = "demo_push ''waiting'' 0 ''b'' (demo_push ''waiting'' 0 ''a'' mem_empty)" and ?q = "view m_obj ''q''"
  have s: "demo_ok ?s" by (intro demo_push_ok demo_empty)
  note w = demo_world_ok[OF s, of "\<lambda>_. Delivered"]
  have v: "q_waiting (demo_view ?s) = [''b''] @ ''a'' # []" "q_reserved (demo_view ?s) = []" "q_delayed (demo_view ?s) = []"
    "q_timeout (demo_view ?s) = []" "q_msgs (demo_view ?s) = [''a'' \<mapsto> demo_msg ''a'', ''b'' \<mapsto> demo_msg ''b'']" by (simp_all add: demo_simps)
  obtain w1 m1 where p: "Pop mem_redis ''q'' 0 (60 * second_ns) None (demo_world (\<lambda>_. Delivered) ?s) = Some (Inr (''a'', Some m1), w1)"
    and w1: "world_ok mem_safe m_obj ''q'' w1" "quiet w1" "w_net w1 = (\<lambda>_. Delivered)"
    and q1: "demo_view (w_db w1) = (q_mark ''a'' StatusReserved 100 (demo_view ?s))\<lparr>q_waiting := [''b''], q_reserved := [(160, ''a'')]\<rparr>"
    using mem_lua.Pop_delivered[OF w, of "[''b'']" "''a''" "[]" "demo_msg ''a''" 0 "60 * second_ns" None] v
    by (auto simp: pop_deadline_def Unix_def zset_add_def zset_rem_def)
  let ?w = "w1\<lparr>w_clock := \<lambda>_. 280 * 10 ^ 9\<rparr>"
  have w': "world_ok mem_safe m_obj ''q'' ?w" "quiet ?w" "\<forall>n. w_net ?w n = Delivered" "\<forall>n. 280 \<le> Unix (w_clock ?w n)"
    using w1 by (simp_all add: world_ok_def clocks_ok_def quiet_def Unix_def)
  have q': "(160, ''a'') \<in> set (q_reserved (?q (w_db ?w)))" "(160::int) \<le> 280" "q_msgs (?q (w_db ?w)) ''a'' = Some (stamp StatusReserved 100 (demo_msg ''a''))"
    "Status (stamp StatusReserved 100 (demo_msg ''a'')) = StatusReserved" "q_msgs (?q (w_db ?w)) '''' = None"
    "due_count (280 + 1) (q_delayed (?q (w_db ?w))) \<le> 100 * 1" "due_count 280 (q_reserved (?q (w_db ?w))) \<le> 100 * 1"
    using v(3,5) by (simp_all add: q1 due_count_def)
  obtain w2 where f: "snd (ForwardMessages mem_redis ''q'' ?w) = w2" "?q (w_db w2) = q_round (secs ?w) (?q (w_db ?w))"
    using mem_lua.Forward_delivered[OF w'(1-3)] by auto
  have "length (q_timeout (q_round 280 (?q (w_db ?w)))) < 100"
    using v by (simp add: q1 q_round_def q_expire_def q_forward_def zset_due_def q_expire1_def)
  moreover have "secs ?w = 280" by (simp add: clock_now_def Unix_def)
  ultimately have "length (q_timeout (?q (w_db (forward_rounds mem_redis ''q'' 1 ?w)))) < 100" using f by (simp add: forward_rounds_def)
  then have l: "length (filter (\<lambda>j. \<not> reloadable True (?q (w_db (forward_rounds mem_redis ''q'' 1 ?w))) j)
      (q_timeout (?q (w_db (forward_rounds mem_redis ''q'' 1 ?w))))) < 100" using length_filter_le le_less_trans by blast
  have "Attempts (stamp StatusReserved 100 (demo_msg ''a'')) = 0" by (simp add: demo_msg_def zero_message_def)
  then show ?thesis using crash_recovery[OF demo_lua w' q' l, of 0 0] p by metis
qed

end
