(* ===== verification/Isolation.thy ===== *)
theory Isolation
  imports Delivery "HOL-Library.Sublist"
begin

text \<open>
  Channels do not interfere: whatever method is called on a channel, it changes no key outside the channel's own area, and
  the areas of two channels are disjoint, unless the name of one begins with that of the other followed by
  \<^verbatim>\<open>}:message:\<close>.  The only thing used of the server is that a command changes
  no key that is not among its arguments (locale \<open>redis_frame\<close>), so nothing is assumed of what the keys hold.
\<close>

section \<open>The area of a channel\<close>

text \<open>Its buckets and counters, and the keys of all possible message ids.\<close>

definition channel_area :: "string \<Rightarrow> string set" where
  "channel_area ch = set (bucket_keys ch) \<union> range (Keys_Message (NewKeys ch))"

lemma channel_area_simps:
  "k \<notin> channel_area ch \<longleftrightarrow> k \<noteq> k_Waiting (NewKeys ch) \<and> k \<noteq> k_Reserved (NewKeys ch) \<and> k \<noteq> k_Timeout (NewKeys ch) \<and>
     k \<noteq> k_Delayed (NewKeys ch) \<and> k \<noteq> k_Failed (NewKeys ch) \<and> k \<noteq> k_SequenceKey (NewKeys ch) \<and> k \<noteq> k_SequenceEpoch (NewKeys ch) \<and>
     (\<forall>i. k \<noteq> Keys_Message (NewKeys ch) i)"
  by (auto simp: channel_area_def bucket_keys_def Let_def)

text \<open>A key after the name of its channel: the name of a bucket or a counter, without closing brace, or \<^verbatim>\<open>message:\<close> and an id.\<close>

lemma channel_area_suffix:
  assumes "k \<in> channel_area ch"
  shows "\<exists>u. k = CHR ''{'' # ch @ ''}:'' @ u \<and> (CHR ''}'' \<notin> set u \<or> (\<exists>i. u = ''message:'' @ i))"
  using assms by (auto simp: channel_area_def bucket_keys_def Let_def NewKeys_def Keys_Message_def)

lemma name_continues:
  assumes "ch @ ''}:'' @ u = ch' @ ''}:'' @ v" and "length ch < length ch'" and "CHR ''}'' \<notin> set u \<or> (\<exists>i. u = ''message:'' @ i)"
  shows "prefix (ch @ ''}:message:'') ch'"
proof -
  obtain r where r: "ch' = ch @ r" "''}:'' @ u = r @ ''}:'' @ v"
    using assms(1,2) by (auto simp: append_eq_append_conv2)
  then obtain r' where r': "r = CHR ''}'' # r'" "CHR '':'' # u = r' @ CHR ''}'' # CHR '':'' # v" using assms(2) by (cases r) auto
  have brace: "CHR ''}'' \<in> set (CHR '':'' # u)" unfolding r'(2) by simp
  then obtain i where "u = ''message:'' @ i" using assms(3) by auto
  then have "'':message:'' @ i = r' @ CHR ''}'' # CHR '':'' # v" using r'(2) by simp
  then have "prefix '':message:'' r'"
    by (auto simp: append_eq_append_conv2 prefix_def Cons_eq_append_conv)
  then show ?thesis unfolding r(1) r'(1) by (simp add: prefix_def)
qed

text \<open>Channels that are told apart.\<close>

definition apart :: "string \<Rightarrow> string \<Rightarrow> bool" where
  "apart ch ch' \<longleftrightarrow> ch \<noteq> ch' \<and> \<not> prefix (ch @ ''}:message:'') ch' \<and> \<not> prefix (ch' @ ''}:message:'') ch"

lemma channel_areas_disjoint:
  assumes "apart ch ch'"
  shows "channel_area ch \<inter> channel_area ch' = {}"
proof -
  have False if k: "k \<in> channel_area ch" "k \<in> channel_area ch'" for k
  proof -
    obtain u v where u: "CHR ''}'' \<notin> set u \<or> (\<exists>i. u = ''message:'' @ i)" and v: "CHR ''}'' \<notin> set v \<or> (\<exists>i. v = ''message:'' @ i)"
      and e: "ch @ ''}:'' @ u = ch' @ ''}:'' @ v"
      using channel_area_suffix[OF k(1)] channel_area_suffix[OF k(2)] by auto
    consider "length ch < length ch'" | "length ch' < length ch" | "length ch = length ch'" by linarith
    then show False
    proof cases
      case 1
      then show ?thesis using name_continues[OF e _ u] assms by (simp add: apart_def)
    next
      case 2
      then show ?thesis using name_continues[OF e[symmetric] _ v] assms by (simp add: apart_def)
    next
      case 3
      then show ?thesis using e assms by (simp add: apart_def)
    qed
  qed
  then show ?thesis by blast
qed

text \<open>Otherwise the areas can meet: an id that no driver generates, but that \<^verbatim>\<open>Get\<close>, \<^verbatim>\<open>Cancel\<close> and the
  others accept, then names the entity of another channel.\<close>

theorem braces_clash: "Keys_Message (NewKeys ''a'') ''x}:message:y'' = Keys_Message (NewKeys ''a}:message:x'') ''y''"
  by (simp add: NewKeys_def Keys_Message_def)

text \<open>Calls on several channels, one after the other.\<close>

fun performs :: "'s redis \<Rightarrow> (string \<times> call) list \<Rightarrow> 's world \<Rightarrow> 's world option" where
  "performs R [] w = Some w"
| "performs R ((ch, c) # cs) w = (case perform R ch c w of None \<Rightarrow> None | Some w1 \<Rightarrow> performs R cs w1)"


section \<open>What a command can change\<close>

locale redis_frame =
  fixes R :: "'s redis"
    and look :: "'s \<Rightarrow> string \<Rightarrow> robj option"
  assumes SET_frame: "k' \<noteq> k \<Longrightarrow> look (SET R k v s) k' = look s k'"
    and DEL_frame: "k' \<noteq> k \<Longrightarrow> look (DEL R k s) k' = look s k'"
    and EXPIRE_frame: "k' \<noteq> k \<Longrightarrow> look (EXPIRE R k n s) k' = look s k'"
    and PEXPIRE_frame: "k' \<noteq> k \<Longrightarrow> look (PEXPIRE R k n s) k' = look s k'"
    and INCR_frame: "k' \<noteq> k \<Longrightarrow> look (snd (INCR R k s)) k' = look s k'"
    and LPUSH_frame: "k' \<noteq> k \<Longrightarrow> look (LPUSH R k x s) k' = look s k'"
    and RPOP_frame: "k' \<noteq> k \<Longrightarrow> look (snd (RPOP R k s)) k' = look s k'"
    and RPOPLPUSH_frame: "k' \<noteq> k \<Longrightarrow> k' \<noteq> d \<Longrightarrow> look (snd (RPOPLPUSH R k d s)) k' = look s k'"
    and LREM_frame: "k' \<noteq> k \<Longrightarrow> look (snd (LREM R k x s)) k' = look s k'"
    and ZADD_frame: "k' \<noteq> k \<Longrightarrow> look (ZADD R k sc x s) k' = look s k'"
    and ZREM_frame: "k' \<noteq> k \<Longrightarrow> look (snd (ZREM R k x s)) k' = look s k'"
begin

lemmas command_frames = SET_frame DEL_frame EXPIRE_frame PEXPIRE_frame INCR_frame LPUSH_frame RPOP_frame RPOPLPUSH_frame
  LREM_frame ZADD_frame ZREM_frame


section \<open>What a script can change\<close>

lemma set_keep_ttl_frame: "k \<noteq> msgKey \<Longrightarrow> look (set_keep_ttl R msgKey raw s) k = look s k"
  by (simp add: set_keep_ttl_def Let_def command_frames)

lemma restamp_frame: "restamp R msgKey t st now s = (r, s') \<Longrightarrow> k \<noteq> msgKey \<Longrightarrow> look s' k = look s k"
  by (auto simp: restamp_def set_keep_ttl_frame split: option.splits)

lemma commit_frames:
  "k \<notin> {reserved, msgKey} \<Longrightarrow> look (snd (ackScript R reserved msgKey i now s)) k = look s k"
  "k \<notin> {reserved, msgKey} \<Longrightarrow> look (snd (dropScript R reserved msgKey i now s)) k = look s k"
  "k \<notin> {reserved, failed, msgKey} \<Longrightarrow> look (snd (failScript R reserved failed msgKey i now s)) k = look s k"
  "k \<notin> {reserved, waiting, msgKey} \<Longrightarrow> look (snd (requeueScript R reserved waiting msgKey i now s)) k = look s k"
  by (auto simp: ackScript_def dropScript_def failScript_def requeueScript_def Let_def command_frames
      split: option.split sum.split prod.split dest!: restamp_frame[where k = k])

lemma pushScript_frame:
  "k \<notin> {waiting, delayed, msgKey} \<Longrightarrow> look (snd (pushScript R waiting delayed msgKey i raw mode score ttl s)) k = look s k"
  by (simp add: pushScript_def Let_def command_frames)

lemma retry_frame:
  assumes "k \<notin> {waiting, reserved, delayed, timeout, failed, msgKey}"
  shows "look (snd (retryByIDScript R waiting reserved delayed timeout failed msgKey i score raw mode s)) k = look s k"
  using assms by (simp add: retryByIDScript_def retry_enqueue_def split_beta Let_def command_frames set_keep_ttl_frame)

lemma cancel_frame:
  assumes "k \<notin> {delayed, msgKey}"
  shows "look (snd (cancelByIDScript R waiting reserved delayed msgKey i now s)) k = look s k"
  using assms by (simp add: cancelByIDScript_def split_beta Let_def command_frames split: option.split)

lemma move_ids_frame:
  assumes "k \<notin> {src, dst}" and "k \<notin> range (\<lambda>i. p @ i)"
  shows "look (snd (move_ids R src dst p now st ids s)) k = look s k"
  using assms(1)
proof (induction ids arbitrary: s)
  case (Cons i ids)
  have "k \<noteq> p @ i" using assms(2) by blast
  then show ?case using Cons
    by (auto simp: Let_def command_frames split: option.split sum.split prod.split dest!: restamp_frame[where k = k])
qed simp

lemma move_timeout_ids_frame:
  assumes "k \<notin> {src, dst}"
  shows "look (snd (move_timeout_ids R src dst p ids n s)) k = look s k"
  using assms by (induction ids arbitrary: n s) (simp_all add: Let_def command_frames)

lemma move_frames:
  "k \<notin> {src, dst} \<Longrightarrow> k \<notin> range (\<lambda>i. p @ i) \<Longrightarrow> look (snd (moveScript R src dst p now st s)) k = look s k"
  "k \<notin> {src, dst} \<Longrightarrow> look (snd (moveTimeoutScript R src dst p now s)) k = look s k"
  using move_ids_frame[of k src dst p now st "ZRANGEBYSCORE R src now 100 s" s]
    move_timeout_ids_frame[of k src dst p "ZRANGEBYSCORE R src now 100 s" 0 s]
  by (auto simp: moveScript_def moveTimeoutScript_def Let_def split: prod.split sum.split)

lemma popScript_frame:
  assumes "popScript R waiting reserved p now dl s = Some y" and "k \<notin> {waiting, reserved}" and "k \<notin> range (\<lambda>i. p @ i)"
  shows "look (snd y) k = look s k"
proof -
  let ?P = "\<lambda>R' waiting reserved p now dl s y. R' = R \<longrightarrow> k \<notin> {waiting, reserved} \<longrightarrow> k \<notin> range (\<lambda>i. p @ i) \<longrightarrow>
    look (snd y) k = look s k"
  have "?P R waiting reserved p now dl s y"
  proof (rule popScript.raw_induct[of ?P, OF _ assms(1)], intro impI)
    fix f :: "'s redis \<Rightarrow> string \<Rightarrow> string \<Rightarrow> string \<Rightarrow> int \<Rightarrow> int \<Rightarrow> 's \<Rightarrow> ((error + string option) \<times> 's) option"
      and R' :: "'s redis" and waiting reserved p :: string and now dl :: int and s y
    assume IH: "\<And>R' waiting reserved p now dl s y. f R' waiting reserved p now dl s = Some y \<Longrightarrow> ?P R' waiting reserved p now dl s y"
      and body: "(case RPOP R' waiting s of (reply, s1) \<Rightarrow> (case reply of
           None \<Rightarrow> Some (Inr None, s1)
         | Some i \<Rightarrow> (case GET R' (p @ i) s1 of
                None \<Rightarrow> f R' waiting reserved p now dl s1
              | Some raw \<Rightarrow> (case decode_table R' raw of
                     None \<Rightarrow> f R' waiting reserved p now dl (DEL R' (p @ i) s1)
                   | Some t \<Rightarrow> (case restamp R' (p @ i) t ''reserved'' now s1 of
                          (Inl e, s2) \<Rightarrow> Some (Inl e, s2)
                        | (Inr _, s2) \<Rightarrow> Some (Inr (Some i), ZADD R' reserved dl i s2)))))) = Some y"
      and R': "R' = R" and k: "k \<notin> {waiting, reserved}" "k \<notin> range (\<lambda>i. p @ i)"
    obtain reply s1 where rp: "RPOP R waiting s = (reply, s1)" by force
    then have s1: "look s1 k = look s k" using RPOP_frame[of k waiting s] k by simp
    have step: "look (snd y) k = look s2 k" if "f R waiting reserved p now dl s2 = Some y" for s2
      using IH[OF that] k by blast
    have key: "k \<noteq> p @ i" for i using k(2) by blast
    show "look (snd y) k = look s k"
      using body[unfolded R' rp] s1 step key k restamp_frame[where k = k]
      by (auto simp: command_frames split: option.splits sum.splits prod.splits)
  qed
  then show ?thesis using assms by blast
qed

lemma reload_loop_frame:
  assumes "k \<notin> {source, waiting}" and "k \<notin> range (\<lambda>i. p @ i)"
  shows "look (snd (reload_loop R source waiting p now skip n c s)) k = look s k"
  using assms(1)
proof (induction n arbitrary: c s)
  case (Suc n)
  obtain reply s1 where rp: "RPOPLPUSH R source waiting s = (reply, s1)" by force
  have key: "k \<noteq> p @ i" for i using assms(2) by blast
  have "look s1 k = look s k" using RPOPLPUSH_frame[of k source waiting s] rp Suc.prems by simp
  then show ?case using Suc rp key restamp_frame[where k = k]
    by (auto simp: Let_def command_frames split: option.split sum.split prod.split)
qed simp

lemma nextSeqScript_frame: "k \<notin> {seqKey, epochKey} \<Longrightarrow> look (snd (nextSeqScript R seqKey epochKey mx s)) k = look s k"
  by (simp add: nextSeqScript_def Let_def split_beta command_frames split: option.split)


section \<open>What a method can change\<close>

definition keeps :: "string \<Rightarrow> 's world \<Rightarrow> 's world \<Rightarrow> bool" where
  "keeps k w w' \<longleftrightarrow> (quiet w \<longrightarrow> quiet w' \<and> look (w_db w') k = look (w_db w) k)"

lemma keeps_refl: "keeps k w w"
  by (simp add: keeps_def)

lemma keeps_trans: "keeps k w w1 \<Longrightarrow> keeps k w1 w2 \<Longrightarrow> keeps k w w2"
  by (simp add: keeps_def)

lemma client_call_keeps:
  assumes "client_call f w = (r, w')" and "\<And>s. look (snd (f s)) k = look s k"
  shows "keeps k w w'"
  using assms(1) assms(2)[of "w_db w"] by (auto simp: keeps_def client_call_def Let_def quiet_def db_at_def split: fault.splits prod.splits)

lemma client_call_opt_keeps:
  assumes "client_call_opt f w = Some (r, w')" and "\<And>s y. f s = Some y \<Longrightarrow> look (snd y) k = look s k"
  shows "keeps k w w'"
  using assms(1) assms(2)[of "w_db w"]
  by (fastforce simp: keeps_def client_call_opt_def Let_def quiet_def db_at_def split: fault.splits option.splits prod.splits)

lemma commits_keep:
  assumes "k \<notin> channel_area ch"
  shows "keeps k w (snd (Ack R ch i w))" "keeps k w (snd (Drop R ch i w))" "keeps k w (snd (Fail R ch i w))" "keeps k w (snd (Requeue R ch i w))"
  using assms
  by (auto simp: Ack_def Drop_def Fail_def Requeue_def Let_def channel_area_simps commit_frames
      split: prod.split sum.split elim!: client_call_keeps)

lemma loadMessage_keeps: "loadMessage R ch i w = (r, w') \<Longrightarrow> keeps k w w'"
  by (auto simp: loadMessage_def Let_def split: prod.splits sum.splits elim!: client_call_keeps)

lemma GenerateID_keeps:
  assumes "k \<notin> channel_area ch" and "GenerateID R ch w = (r, w1)"
  shows "keeps k w w1"
proof -
  obtain x w2 where c: "client_call (nextSeqScript R (k_SequenceKey (NewKeys ch)) (k_SequenceEpoch (NewKeys ch)) maxMessageSequence) w = (x, w2)"
    by force
  have "keeps k w w2" using client_call_keeps[OF c, of k] assms(1) by (simp add: channel_area_simps nextSeqScript_frame)
  then show ?thesis using assms(2) c by (auto simp: GenerateID_def Let_def split: sum.splits prod.splits)
qed

lemma Push_keeps:
  assumes "k \<notin> channel_area ch"
  shows "keeps k w (snd (snd (Push R ch (Some m) d ttl w)))"
proof -
  obtain r w1 where g: "GenerateID R ch w = (r, w1)" by force
  note w1 = GenerateID_keeps[OF assms g]
  have push: "keeps k w w'" if "client_call (pushScript R (k_Waiting (NewKeys ch)) (k_Delayed (NewKeys ch)) (Keys_Message (NewKeys ch) i)
      i raw mode score t) w1 = (x, w')" for i raw mode score t x w'
    using client_call_keeps[OF that, of k] assms keeps_trans[OF w1] by (simp add: channel_area_simps pushScript_frame)
  show ?thesis
  proof (cases r)
    case (Inr i)
    then show ?thesis using g w1 push by (auto simp: Push_def Let_def split: prod.splits sum.splits)
  qed (use g w1 in \<open>simp add: Push_def Let_def\<close>)
qed

lemma Retry_keeps:
  assumes "k \<notin> channel_area ch"
  shows "keeps k w (snd (Retry R ch i d w))"
proof -
  obtain r w1 where g: "loadMessage R ch i w = (r, w1)" by force
  note w1 = loadMessage_keeps[OF g, of k]
  have call: "keeps k w (snd (client_call (retryByIDScript R (k_Waiting (NewKeys ch)) (k_Reserved (NewKeys ch)) (k_Delayed (NewKeys ch))
      (k_Timeout (NewKeys ch)) (k_Failed (NewKeys ch)) (Keys_Message (NewKeys ch) i) i score raw mode) w1))" (is "keeps k w (snd ?c)") for score raw mode
    using client_call_keeps[of _ w1 "fst ?c" "snd ?c" k] assms keeps_trans[OF w1] by (simp add: channel_area_simps retry_frame)
  have snds: "snd (case y of (Inl e, v) \<Rightarrow> (Inl e, v) | (Inr r, v) \<Rightarrow> (Inr (h r), v)) = snd y" for y :: "(error + int) \<times> 's world" and h :: "int \<Rightarrow> bool"
    by (simp split: prod.split sum.split)
  show ?thesis
  proof (cases "i = ''''")
    case False
    show ?thesis
    proof (cases r)
      case (Inr m)
      show ?thesis unfolding Retry_def Let_def using False g w1 Inr
        by (simp add: snds call del: prod.case split: sum.split)
    qed (use False g w1 in \<open>simp add: Retry_def Let_def\<close>)
  qed (simp add: Retry_def keeps_refl)
qed

lemma Cancel_keeps:
  assumes "k \<notin> channel_area ch"
  shows "keeps k w (snd (Cancel R ch i w))"
  using assms by (auto simp: Cancel_def Let_def channel_area_simps cancel_frame keeps_refl split: prod.split sum.split elim!: client_call_keeps)

lemma area_message: "k \<notin> channel_area ch \<Longrightarrow> k \<notin> range (\<lambda>i. k_MessagePrefix (NewKeys ch) @ i)"
  unfolding channel_area_def Keys_Message_def by blast

lemma Pop_keeps:
  assumes "k \<notin> channel_area ch" and run: "Pop R ch pt ht ctx w = Some (x, w')"
  shows "keeps k w w'"
proof -
  let ?K = "NewKeys ch"
  obtain now dl r w1 where c: "client_call_opt (popScript R (k_Waiting ?K) (k_Reserved ?K) (k_MessagePrefix ?K) now dl) w = Some (r, w1)"
    and rest: "w' = w1 \<or> (\<exists>i y w2. loadMessage R ch i w1 = (y, w2) \<and>
      (w' = w2 \<or> w' = snd (client_call (\<lambda>s. (Inr (), snd (ZREM R (k_Reserved ?K) i s))) w2)))"
    using run unfolding Pop_def Let_def by (fastforce split: option.splits prod.splits sum.splits if_splits)
  have w1: "keeps k w w1"
    using client_call_opt_keeps[OF c, of k] popScript_frame[of "k_Waiting ?K" "k_Reserved ?K" "k_MessagePrefix ?K"] area_message[OF assms(1)] assms(1)
    by (simp add: channel_area_simps)
  have z: "keeps k w2 (snd (client_call (\<lambda>s. (Inr (), snd (ZREM R (k_Reserved ?K) i s))) w2))" for i w2
    using client_call_keeps[of "\<lambda>s. (Inr (), snd (ZREM R (k_Reserved ?K) i s))" w2] assms(1)
    by (metis ZREM_frame channel_area_simps prod.collapse snd_conv)
  from rest show ?thesis
  proof
    assume "\<exists>i y w2. loadMessage R ch i w1 = (y, w2) \<and> (w' = w2 \<or> w' = snd (client_call (\<lambda>s. (Inr (), snd (ZREM R (k_Reserved ?K) i s))) w2))"
    then obtain i y w2 where l: "loadMessage R ch i w1 = (y, w2)"
      and w': "w' = w2 \<or> w' = snd (client_call (\<lambda>s. (Inr (), snd (ZREM R (k_Reserved ?K) i s))) w2)" by blast
    have "keeps k w w2" by (rule keeps_trans[OF w1 loadMessage_keeps[OF l]])
    then show ?thesis using w' keeps_trans z by blast
  qed (use w1 in simp)
qed

lemma ForwardMessages_keeps:
  assumes "k \<notin> channel_area ch"
  shows "keeps k w (snd (ForwardMessages R ch w))"
proof -
  let ?K = "NewKeys ch"
  obtain r w1 where c1: "client_call (moveScript R (k_Delayed ?K) (k_Waiting ?K) (k_MessagePrefix ?K) (Unix (clock_now w) + 1) StatusWaiting) w = (r, w1)"
    by force
  obtain r2 w2 where c2: "client_call (moveTimeoutScript R (k_Reserved ?K) (k_Timeout ?K) (k_MessagePrefix ?K) (Unix (clock_now w))) w1 = (r2, w2)"
    by force
  have "keeps k w w1" "keeps k w1 w2"
    using client_call_keeps[OF c1, of k] client_call_keeps[OF c2, of k] area_message[OF assms] assms
    by (simp_all add: move_frames channel_area_simps)
  then have "keeps k w w1" "keeps k w w2" using keeps_trans by blast+
  moreover have "snd (ForwardMessages R ch w) \<in> {w1, w2}" using c1 c2 by (simp add: ForwardMessages_def Let_def split: sum.split)
  ultimately show ?thesis by auto
qed

lemma reload_all_keeps:
  assumes "reload_all R (NewKeys ch) source skip t w = Some y" and "k \<notin> channel_area ch" and "k \<noteq> source"
  shows "keeps k w (snd y)"
proof -
  let ?P = "\<lambda>R' K src skip t w y. R' = R \<longrightarrow> K = NewKeys ch \<longrightarrow> src = source \<longrightarrow> keeps k w (snd y)"
  have "?P R (NewKeys ch) source skip t w y"
  proof (rule reload_all.raw_induct[of ?P, OF _ assms(1)], intro impI)
    fix f :: "'s redis \<Rightarrow> Keys \<Rightarrow> string \<Rightarrow> string \<Rightarrow> int \<Rightarrow> 's world \<Rightarrow> ((int \<times> error option) \<times> 's world) option"
      and R' :: "'s redis" and K src skip t w y
    assume IH: "\<And>R' K src skip t w y. f R' K src skip t w = Some y \<Longrightarrow> ?P R' K src skip t w y"
      and body: "(case client_call (reloadScript R' src (k_Waiting K) (k_MessagePrefix K) (Unix (clock_now w)) skip) w of (r, w1) \<Rightarrow>
          (case r of Inl err \<Rightarrow> Some ((t, Some err), w1)
           | Inr res \<Rightarrow> (if asIntResult (ReplyInt res) \<le> 0 then Some ((t, None), w1)
                else f R' K src skip (t + asIntResult (ReplyInt res)) w1))) = Some y"
      and eq: "R' = R" "K = NewKeys ch" "src = source"
    obtain r w1 where c: "client_call (reloadScript R source (k_Waiting (NewKeys ch)) (k_MessagePrefix (NewKeys ch)) (Unix (clock_now w)) skip) w = (r, w1)"
      by force
    have w1: "keeps k w w1"
      using client_call_keeps[OF c, of k] area_message[OF assms(2)] assms(2,3) by (simp add: reloadScript_def reload_loop_frame channel_area_simps)
    show "keeps k w (snd y)"
    proof (cases "\<exists>t'. f R (NewKeys ch) source skip t' w1 = Some y")
      case True
      then show ?thesis using IH keeps_trans[OF w1] by blast
    next
      case False
      then show ?thesis using body[unfolded eq c] w1 by (auto split: sum.splits if_splits)
    qed
  qed
  then show ?thesis by blast
qed

lemma Reload_keeps:
  assumes "Reload R ch b w = Some (x, w')" and "k \<notin> channel_area ch"
  shows "keeps k w w'"
proof (cases "reload_source (NewKeys ch) b")
  case (Inl e)
  then show ?thesis using assms(1) by (auto simp: Reload_def keeps_refl)
next
  case (Inr y)
  obtain source skip where y: "y = (source, skip)" by force
  have "source \<in> {k_Failed (NewKeys ch), k_Timeout (NewKeys ch)}"
    using Inr y by (auto simp: reload_source_def Keys_Get_def split: if_splits)
  then show ?thesis using reload_all_keeps[of ch source skip 0 w "(x, w')" k] assms Inr y by (auto simp: Reload_def channel_area_simps)
qed

lemma Flush_keeps:
  assumes "k \<notin> channel_area ch"
  shows "keeps k w (snd (Flush R ch b w))"
proof (cases "if b \<noteq> '''' then Keys_Get (NewKeys ch) b else Inr (k_Failed (NewKeys ch))")
  case (Inl e)
  then show ?thesis by (simp add: Flush_def keeps_refl)
next
  case (Inr key)
  have "k \<noteq> key" using Inr assms by (auto simp: Keys_Get_def channel_area_simps split: if_splits)
  then have "keeps k w w'" if "client_call (\<lambda>s. (Inr (), DEL R key s)) w = (r, w')" for r w'
    using client_call_keeps[OF that] by (simp add: DEL_frame)
  then have "keeps k w (snd (client_call (\<lambda>s. (Inr (), DEL R key s)) w))" by (metis prod.collapse)
  then show ?thesis using Inr by (simp add: Flush_def Let_def)
qed

lemma perform_keeps:
  assumes "perform R ch c w = Some w'" and "k \<notin> channel_area ch"
  shows "keeps k w w'"
  using assms commits_keep[OF assms(2)] Push_keeps[OF assms(2)] Retry_keeps[OF assms(2)] Cancel_keeps[OF assms(2)] Pop_keeps[OF assms(2)]
    ForwardMessages_keeps[OF assms(2)] Reload_keeps[OF _ assms(2)] Flush_keeps[OF assms(2)]
  by (cases c) auto

text \<open>A run of calls on several channels.\<close>

lemma performs_keeps:
  assumes "performs R cs w = Some w'" and "\<And>ch c. (ch, c) \<in> set cs \<Longrightarrow> k \<notin> channel_area ch"
  shows "keeps k w w'"
  using assms
proof (induction cs arbitrary: w)
  case (Cons x cs)
  obtain ch c where x: "x = (ch, c)" by force
  with Cons.prems(1) obtain w1 where w1: "perform R ch c w = Some w1" "performs R cs w1 = Some w'" by (auto split: option.splits)
  have "keeps k w w1" "keeps k w1 w'" using perform_keeps[OF w1(1)] Cons.IH[OF w1(2)] Cons.prems(2) x by auto
  then show ?case by (rule keeps_trans)
qed (simp add: keeps_refl)

lemma performs_frame:
  assumes "performs R cs w = Some w'" and "quiet w" and "\<And>ch c. (ch, c) \<in> set cs \<Longrightarrow> apart ch ch'" and "k \<in> channel_area ch'"
  shows "look (w_db w') k = look (w_db w) k"
proof -
  have "k \<notin> channel_area ch" if "(ch, c) \<in> set cs" for ch c
    using channel_areas_disjoint[OF assms(3)[OF that]] assms(4) by blast
  then show ?thesis using performs_keeps[OF assms(1)] assms(2) by (simp add: keeps_def)
qed

end

lemma mem_put_frame [simp]: "k' \<noteq> k \<Longrightarrow> m_obj (mem_put k v s) k' = m_obj s k'"
  by (simp add: mem_put_def)

lemma mem_expiry_frame [simp]: "m_obj (mem_pexpire k n s) = m_obj s"
  by (simp add: mem_pexpire_def)

interpretation mem_frame: redis_frame mem_redis m_obj
  by unfold_locales (auto simp: mem_set_def mem_incr_def mem_rpop_def mem_rpoplpush_def mem_lrem_def mem_zrem_def Let_def)

lemma area_members:
  "k_Waiting (NewKeys ch) \<in> channel_area ch" "k_Reserved (NewKeys ch) \<in> channel_area ch" "k_Delayed (NewKeys ch) \<in> channel_area ch"
  "k_Timeout (NewKeys ch) \<in> channel_area ch" "k_Failed (NewKeys ch) \<in> channel_area ch" "k_SequenceKey (NewKeys ch) \<in> channel_area ch"
  "k_SequenceEpoch (NewKeys ch) \<in> channel_area ch" "Keys_Message (NewKeys ch) i \<in> channel_area ch"
  by (simp_all add: channel_area_def bucket_keys_def Let_def)

text \<open>The queue and the counters of a channel are read from its area alone.\<close>

lemma area_determines:
  assumes "\<And>k. k \<in> channel_area ch \<Longrightarrow> look s' k = look s k"
  shows "view look ch s' = view look ch s" "seq_state look ch s' = seq_state look ch s"
  by (simp_all add: view_def seq_state_def Let_def assms area_members)


section \<open>Channels do not interfere\<close>

text \<open>C26. Whatever producers, consumers and operators call on other channels, in any order and with any message ids, calls that fail
  or lose their reply included, a channel keeps its queue, its message entities and its sequence counters untouched.  The names differ and none
  begins with another followed by \<^verbatim>\<open>}:message:\<close>, nobody else uses the server meanwhile, and of the server it is used only that a
  command changes no key that is not among its arguments.\<close>

theorem channels_do_not_interfere:
  assumes "redis_frame R look" and "quiet w" and "performs R cs w = Some w'" and "\<forall>ch \<in> fst ` set cs. apart ch ch'"
  shows "view look ch' (w_db w') = view look ch' (w_db w) \<and> seq_state look ch' (w_db w') = seq_state look ch' (w_db w) \<and>
    (\<forall>k \<in> channel_area ch'. look (w_db w') k = look (w_db w) k)"
proof -
  have frame: "look (w_db w') k = look (w_db w) k" if "k \<in> channel_area ch'" for k
    using redis_frame.performs_frame[OF assms(1,3,2) _ that] assms(4) by force
  then show ?thesis using area_determines[of ch' look "w_db w'" "w_db w"] by blast
qed

theorem channels_do_not_interfere_witness:
  "\<exists>w'. performs mem_redis [(''{q}'', Call_Flush ''failed''), (''r'', Call_ForwardMessages), (''p'', Call_Cancel ''a'')] demo_waiting = Some w' \<and>
     q_waiting (demo_view (w_db w')) = [''a'']"
proof -
  have q: "quiet demo_waiting" "q_waiting (demo_view (w_db demo_waiting)) = [''a'']"
    by (simp_all only: demo_waiting_ok demo_waiting_view) (simp add: q_empty_def)
  have "performs mem_redis [(''{q}'', Call_Flush ''failed''), (''r'', Call_ForwardMessages), (''p'', Call_Cancel ''a'')] demo_waiting \<noteq> None"
    by simp
  then obtain w' where w': "performs mem_redis [(''{q}'', Call_Flush ''failed''), (''r'', Call_ForwardMessages), (''p'', Call_Cancel ''a'')] demo_waiting = Some w'"
    by blast
  show ?thesis using channels_do_not_interfere[OF mem_frame.redis_frame_axioms q(1) w', of "''q''"] q(2) w' by (simp add: apart_def)
qed

end
