(* ===== verification/Key_Cache.thy ===== *)
theory Key_Cache
  imports Redis_Driver
begin

text \<open>
  The driver's cache of key names (\<^verbatim>\<open>RedisDriver.getKeys\<close> in \<^verbatim>\<open>pkg/queue/redis_driver.go\<close>) under concurrent calls: a call
  is one \<^verbatim>\<open>Load\<close> of the shared \<^verbatim>\<open>sync.Map\<close> and, if that misses, one \<^verbatim>\<open>LoadOrStore\<close>; other calls run in between.
\<close>

text \<open>A call before its \<^verbatim>\<open>Load\<close>, before its \<^verbatim>\<open>LoadOrStore\<close> with the keys it has computed, and returned.\<close>

datatype keys_call = Loading string | Storing string Keys | Returned_keys string Keys

inductive keys_step :: "(string \<rightharpoonup> Keys) \<times> keys_call list \<Rightarrow> (string \<rightharpoonup> Keys) \<times> keys_call list \<Rightarrow> bool" where
  call: "keys_step (cache, cs) (cache, cs @ [Loading channel])"
| load_hit: "j < length cs \<Longrightarrow> cs ! j = Loading channel \<Longrightarrow> cache channel = Some cachedKeys \<Longrightarrow>
    keys_step (cache, cs) (cache, cs[j := Returned_keys channel cachedKeys])"
| load_miss: "j < length cs \<Longrightarrow> cs ! j = Loading channel \<Longrightarrow> cache channel = None \<Longrightarrow>
    keys_step (cache, cs) (cache, cs[j := Storing channel (NewKeys channel)])"
| store_loaded: "j < length cs \<Longrightarrow> cs ! j = Storing channel ks \<Longrightarrow> cache channel = Some cachedKeys \<Longrightarrow>
    keys_step (cache, cs) (cache, cs[j := Returned_keys channel cachedKeys])"
| store_stored: "j < length cs \<Longrightarrow> cs ! j = Storing channel ks \<Longrightarrow> cache channel = None \<Longrightarrow>
    keys_step (cache, cs) (cache(channel \<mapsto> ks), cs[j := Returned_keys channel ks])"



fun call_ok :: "keys_call \<Rightarrow> bool" where
  "call_ok (Loading ch) = True"
| "call_ok (Storing ch ks) = (ks = NewKeys ch)"
| "call_ok (Returned_keys ch ks) = (ks = NewKeys ch)"

lemma keys_step_ok:
  assumes "keys_step (cache, cs) (cache', cs')" and "cache_ok cache" and "\<forall>c \<in> set cs. call_ok c"
  shows "cache_ok cache' \<and> (\<forall>c \<in> set cs'. call_ok c)"
  using assms
proof (cases rule: keys_step.cases)
  case (store_stored j channel ks)
  have "call_ok (Storing channel ks)" using assms(3) store_stored(3,4) nth_mem by metis
  then show ?thesis using assms(2,3) store_stored by (auto simp: cache_ok_def dest!: set_update_subset_insert[THEN subsetD])
qed (auto simp: cache_ok_def dest!: set_update_subset_insert[THEN subsetD])

text \<open>A call that runs alone is \<open>getKeys\<close>.\<close>

lemma keys_steps_alone:
  "keys_step\<^sup>*\<^sup>* (cache, [Loading ch]) (snd (getKeys cache ch), [Returned_keys ch (fst (getKeys cache ch))])"
proof (cases "cache ch")
  case None
  have "keys_step (cache, [Loading ch]) (cache, [Storing ch (NewKeys ch)])" using keys_step.load_miss[of 0 "[Loading ch]" ch cache] None by simp
  moreover have "keys_step (cache, [Storing ch (NewKeys ch)]) (cache(ch \<mapsto> NewKeys ch), [Returned_keys ch (NewKeys ch)])"
    using keys_step.store_stored[of 0 "[Storing ch (NewKeys ch)]" ch "NewKeys ch" cache] None by simp
  ultimately show ?thesis using None by (simp add: getKeys_def)
next
  case (Some ks)
  then show ?thesis using keys_step.load_hit[of 0 "[Loading ch]" ch cache ks] by (auto simp: getKeys_def)
qed

text \<open>C27. The cache is invisible: however the calls of \<^verbatim>\<open>getKeys\<close> on one driver interleave, each returns what
  \<^verbatim>\<open>NewKeys\<close> computes for its channel, and so does the next call on the cache they leave behind.\<close>

theorem getKeys_equivalent:
  assumes "keys_step\<^sup>*\<^sup>* (rd_keyCache (NewRedisDriver real opts), []) (cache, cs)"
  shows "(Returned_keys ch ks \<in> set cs \<longrightarrow> ks = NewKeys ch) \<and> fst (getKeys cache ch') = NewKeys ch'"
proof -
  have "cache_ok cache \<and> (\<forall>c \<in> set cs. call_ok c)"
    using assms
  proof (induction "(cache, cs)" arbitrary: cache cs rule: rtranclp_induct)
    case base
    then show ?case using NewRedisDriver_cache by auto
  next
    case (step y)
    obtain c0 cs0 where y: "y = (c0, cs0)" by force
    then show ?case using step(3)[OF y] keys_step_ok[OF step(2)[unfolded y]] by simp
  qed
  then show ?thesis using getKeys_cached(1) by fastforce
qed

theorem getKeys_equivalent_witness:
  "\<exists>cache. keys_step\<^sup>*\<^sup>* (rd_keyCache (NewRedisDriver () []), []) (cache, [Returned_keys ''q'' (NewKeys ''q'')]) \<and>
     fst (getKeys cache ''q'') = NewKeys ''q''"
proof -
  let ?c = "rd_keyCache (NewRedisDriver () [])"
  have k: "fst (getKeys ?c ''q'') = NewKeys ''q''" by (rule getKeys_cached(1)[OF NewRedisDriver_cache])
  have "keys_step (?c, []) (?c, [Loading ''q''])" using keys_step.call[of ?c "[]" "''q''"] by simp
  then have r: "keys_step\<^sup>*\<^sup>* (?c, []) (snd (getKeys ?c ''q''), [Returned_keys ''q'' (NewKeys ''q'')])"
    using keys_steps_alone[of ?c "''q''"] unfolding k by (rule converse_rtranclp_into_rtranclp)
  then show ?thesis using getKeys_equivalent[OF r, of "''q''" _ "''q''"] by blast
qed

end
