(* ===== verification/Consumer.thy ===== *)
theory Consumer
  imports Demo
begin

text \<open>
  The consumer (\<^verbatim>\<open>pkg/queue/consumer.go\<close>, \<^verbatim>\<open>consumer_options.go\<close>): its options and construction, the
  processing of one message with its commit, error and panic paths, the classification of \<^verbatim>\<open>Pop\<close>
  errors and the aggregation of errors.  The polling loop is in \<open>Consumer_Run\<close>.  Handlers and hooks
  are user code: functions of the message and the world that may also change both, and may panic.
  Logging is left out.
\<close>

section \<open>Options\<close>

text \<open>What a handler call ends with: the two return values, or a panic.  A hook returns or panics.\<close>

datatype outcome = Returned Result "error option" | Panicked

type_synonym 'w handler = "Message \<Rightarrow> 'w \<Rightarrow> outcome \<times> Message \<times> 'w"

type_synonym 'w hook = "Message \<Rightarrow> 'w \<Rightarrow> bool \<times> Message \<times> 'w"

record 'w ConsumerHooks =
  OnAck :: "'w hook option"
  OnRetry :: "'w hook option"
  OnRequeue :: "'w hook option"
  OnFail :: "'w hook option"
  OnDrop :: "'w hook option"

definition no_hooks :: "'w ConsumerHooks" where
  "no_hooks = \<lparr>OnAck = None, OnRetry = None, OnRequeue = None, OnFail = None, OnDrop = None\<rparr>"

definition defaultConsumerMessageTTLSeconds :: int where
  "defaultConsumerMessageTTLSeconds = 10 * 24 * 60 * 60"

record 'w consumerOptions =
  o_concurrentLimit :: int
  o_autoRestart :: bool
  o_maxMessages :: int
  o_PopTimeout :: int
  o_handleTimeout :: int
  o_popRetryBackoff :: int
  o_popRetryMaxBackoff :: int
  o_retrySeconds :: "int list"
  o_messageTTL :: int
  o_hooks :: "'w ConsumerHooks"
  o_name :: string
  o_processID :: int

definition defaultConsumerOptions :: "'w consumerOptions" where
  "defaultConsumerOptions = \<lparr>o_concurrentLimit = 10, o_autoRestart = False, o_maxMessages = 0,
     o_PopTimeout = 1 * second_ns, o_handleTimeout = 180 * second_ns, o_popRetryBackoff = 1 * second_ns,
     o_popRetryMaxBackoff = 30 * second_ns, o_retrySeconds = [30, 90, 180, 300],
     o_messageTTL = defaultConsumerMessageTTLSeconds, o_hooks = no_hooks, o_name = '''', o_processID = 0\<rparr>"

text \<open>A \<^verbatim>\<open>ConsumerOption\<close> and the function it denotes.\<close>

datatype 'w ConsumerOption =
    WithConsumerConcurrentLimit int
  | WithConsumerAutoRestart bool
  | WithConsumerMaxMessages int
  | WithConsumerPopTimeout int
  | WithConsumerHandleTimeout int
  | WithConsumerPopRetryBackoff int
  | WithConsumerPopRetryMaxBackoff int
  | WithConsumerPopRetryDelay int
  | WithConsumerPopRetryMaxDelay int
  | WithConsumerErrorInterval int
  | WithConsumerErrorMaxInterval int
  | WithConsumerRetrySeconds "int list"
  | WithConsumerMessageTTL int
  | WithConsumerHooks "'w ConsumerHooks"
  | WithConsumerName string
  | WithConsumerProcessID int

fun apply_option :: "'w ConsumerOption \<Rightarrow> 'w consumerOptions \<Rightarrow> 'w consumerOptions" where
  "apply_option (WithConsumerConcurrentLimit limit) s = (if limit > 0 then s\<lparr>o_concurrentLimit := limit\<rparr> else s)"
| "apply_option (WithConsumerAutoRestart enabled) s = s\<lparr>o_autoRestart := enabled\<rparr>"
| "apply_option (WithConsumerMaxMessages n) s = (if n \<ge> 0 then s\<lparr>o_maxMessages := n\<rparr> else s)"
| "apply_option (WithConsumerPopTimeout t) s = (if t > 0 then s\<lparr>o_PopTimeout := t\<rparr> else s)"
| "apply_option (WithConsumerHandleTimeout t) s = (if t > 0 then s\<lparr>o_handleTimeout := t\<rparr> else s)"
| "apply_option (WithConsumerPopRetryBackoff t) s = (if t > 0 then s\<lparr>o_popRetryBackoff := t\<rparr> else s)"
| "apply_option (WithConsumerPopRetryMaxBackoff t) s = (if t > 0 then s\<lparr>o_popRetryMaxBackoff := t\<rparr> else s)"
| "apply_option (WithConsumerPopRetryDelay t) s = (if t > 0 then s\<lparr>o_popRetryBackoff := t\<rparr> else s)"
| "apply_option (WithConsumerPopRetryMaxDelay t) s = (if t > 0 then s\<lparr>o_popRetryMaxBackoff := t\<rparr> else s)"
| "apply_option (WithConsumerErrorInterval t) s = (if t > 0 then s\<lparr>o_popRetryBackoff := t\<rparr> else s)"
| "apply_option (WithConsumerErrorMaxInterval t) s = (if t > 0 then s\<lparr>o_popRetryMaxBackoff := t\<rparr> else s)"
| "apply_option (WithConsumerRetrySeconds r) s = (if length r > 0 then s\<lparr>o_retrySeconds := r\<rparr> else s)"
| "apply_option (WithConsumerMessageTTL n) s = (if n \<ge> 0 then s\<lparr>o_messageTTL := n\<rparr> else s)"
| "apply_option (WithConsumerHooks h) s = s\<lparr>o_hooks := h\<rparr>"
| "apply_option (WithConsumerName n) s = s\<lparr>o_name := n\<rparr>"
| "apply_option (WithConsumerProcessID p) s = s\<lparr>o_processID := p\<rparr>"


section \<open>The consumer\<close>

record 'w Consumer =
  c_driver :: "'w driver"
  c_channel :: string
  c_handler :: "'w handler"
  c_concurrentLimit :: int
  c_autoRestart :: bool
  c_maxMessages :: int
  c_PopTimeout :: int
  c_handleTimeout :: int
  c_popRetryBackoff :: int
  c_popRetryMaxBackoff :: int
  c_retrySeconds :: "int list"
  c_messageTTL :: int
  c_hooks :: "'w ConsumerHooks"
  c_name :: string
  c_processID :: int
  c_processed :: int
  c_acked :: int
  c_retried :: int
  c_requeued :: int
  c_failed :: int
  c_dropped :: int
  c_errors :: int
  c_concurrentErr :: "error option"

text \<open>\<^verbatim>\<open>NewConsumer\<close>: nil options are skipped.\<close>

definition consumer_settings :: "'w ConsumerOption option list \<Rightarrow> 'w consumerOptions" where
  "consumer_settings opts =
     (let s = fold (\<lambda>opt s. case opt of None \<Rightarrow> s | Some f \<Rightarrow> apply_option f s) opts defaultConsumerOptions
      in if o_popRetryMaxBackoff s < o_popRetryBackoff s then s\<lparr>o_popRetryMaxBackoff := o_popRetryBackoff s\<rparr> else s)"

definition NewConsumer :: "'w driver \<Rightarrow> string \<Rightarrow> 'w handler \<Rightarrow> 'w ConsumerOption option list \<Rightarrow> 'w Consumer" where
  "NewConsumer driver channel handler opts = (let s = consumer_settings opts in
     \<lparr>c_driver = driver, c_channel = channel, c_handler = handler,
      c_concurrentLimit = o_concurrentLimit s, c_autoRestart = o_autoRestart s, c_maxMessages = o_maxMessages s,
      c_PopTimeout = o_PopTimeout s, c_handleTimeout = o_handleTimeout s,
      c_popRetryBackoff = o_popRetryBackoff s, c_popRetryMaxBackoff = o_popRetryMaxBackoff s,
      c_retrySeconds = o_retrySeconds s, c_messageTTL = o_messageTTL s, c_hooks = o_hooks s,
      c_name = o_name s, c_processID = o_processID s,
      c_processed = 0, c_acked = 0, c_retried = 0, c_requeued = 0, c_failed = 0, c_dropped = 0,
      c_errors = 0, c_concurrentErr = None\<rparr>)"

record ConsumerStats =
  Processed :: int
  Acked :: int
  Retried :: int
  Requeued :: int
  Failed :: int
  Dropped :: int
  Errors :: int

definition Stats :: "'w Consumer \<Rightarrow> ConsumerStats" where
  "Stats c = \<lparr>Processed = c_processed c, Acked = c_acked c, Retried = c_retried c, Requeued = c_requeued c,
     Failed = c_failed c, Dropped = c_dropped c, Errors = c_errors c\<rparr>"


section \<open>Errors\<close>

record ConsumerRunError =
  First :: "error option"
  Count :: int

definition ConsumerRunError_Error :: "ConsumerRunError option \<Rightarrow> string" where
  "ConsumerRunError_Error e = (case e of
      None \<Rightarrow> ''''
    | Some e \<Rightarrow> (case First e of
        None \<Rightarrow> ''''
      | Some f \<Rightarrow> if Count e \<le> 1 then error_text f
                 else error_text f @ '' (and '' @ show_int (Count e - 1) @ '' more errors)''))"

definition incrErrors :: "error option \<Rightarrow> 'w Consumer \<Rightarrow> 'w Consumer" where
  "incrErrors err c = (case err of
      None \<Rightarrow> c
    | Some e \<Rightarrow> (let c1 = c\<lparr>c_errors := int64 (c_errors c + 1)\<rparr>
                in if c_concurrentErr c1 = None then c1\<lparr>c_concurrentErr := Some e\<rparr> else c1))"

definition recordErr :: "error option \<Rightarrow> 'w Consumer \<Rightarrow> 'w Consumer" where
  "recordErr err c = incrErrors err c"

definition runErr :: "'w Consumer \<Rightarrow> ConsumerRunError option" where
  "runErr c = (if c_errors c = 0 then None else Some \<lparr>First = c_concurrentErr c, Count = c_errors c\<rparr>)"

definition normalizeRedisError :: "error option \<Rightarrow> string" where
  "normalizeRedisError err = (case err of
      None \<Rightarrow> ''''
    | Some e \<Rightarrow> ToUpper (TrimPrefix (TrimSpace (error_text e)) ''ERR ''))"

definition isRetryablePopError :: "error option \<Rightarrow> bool" where
  "isRetryablePopError err = (case err of
      None \<Rightarrow> False
    | Some e \<Rightarrow>
        if errors_Is e ErrCanceled \<or> errors_Is e ErrDeadlineExceeded then False
        else if errors_Is e ErrEOF \<or> errors_Is e ErrUnexpectedEOF then True
        else if errors_As_timeout e then True
        else let msg = normalizeRedisError err in
          msg = ''MAX NUMBER OF CLIENTS REACHED''
          \<or> (\<exists>p \<in> set [''LOADING '', ''READONLY '', ''CLUSTERDOWN '', ''TRYAGAIN '', ''MASTERDOWN '', ''BUSY '',
                       ''CLIENT PAUSED '']. HasPrefix msg p)
          \<or> (\<exists>p \<in> set [''CONNECTION REFUSED'', ''CONNECTION RESET'', ''BROKEN PIPE'', ''I/O TIMEOUT'',
                       ''NO ROUTE TO HOST'', ''NETWORK IS UNREACHABLE'', ''USE OF CLOSED NETWORK CONNECTION'',
                       ''EOF'']. Contains msg p))"

text \<open>\<^verbatim>\<open>waitForPopRetryBackoff\<close>: \<open>ctxErr\<close> is the context's error now, \<open>ends\<close> the one it gets before the
  timer fires.\<close>

definition waitForPopRetryBackoff :: "error option \<Rightarrow> error option \<Rightarrow> int \<Rightarrow> error option" where
  "waitForPopRetryBackoff ctxErr ends delay = (if delay \<le> 0 then ctxErr else ends)"


section \<open>Processing one message\<close>

text \<open>How a piece of the processing ends: it returns an error or nil, or it panics.\<close>

datatype exit = Ret "error option" | Panics

definition run_hook :: "'w hook option \<Rightarrow> 'w Consumer \<Rightarrow> Message \<Rightarrow> 'w \<Rightarrow> exit \<times> 'w Consumer \<times> Message \<times> 'w" where
  "run_hook h c m w = (case h of
      None \<Rightarrow> (Ret None, c, m, w)
    | Some f \<Rightarrow> (case f m w of (p, m1, w1) \<Rightarrow> (if p then Panics else Ret None, c, m1, w1)))"

definition not_found :: "string \<Rightarrow> error" where
  "not_found messageID = ErrText (''retry target message not found: '' @ messageID)"

text \<open>\<open>wall\<close> is \<^verbatim>\<open>time.Now().Unix()\<close>, which \<^verbatim>\<open>SetStatus\<close> reads.\<close>

definition handleError :: "('w \<Rightarrow> int) \<Rightarrow> 'w Consumer \<Rightarrow> string \<Rightarrow> Message \<Rightarrow> 'w
    \<Rightarrow> exit \<times> 'w Consumer \<times> Message \<times> 'w" where
  "handleError wall c messageID message w =
     (case AttemptsAllowed message of (allowed, m1) \<Rightarrow>
        if allowed then
          (let delaySeconds = RetrySeconds (c_retrySeconds c) (Attempts m1)
           in case D_Retry (c_driver c) (c_channel c) messageID delaySeconds w of
                (Inl err, w1) \<Rightarrow> (Ret (Some err), c, m1, w1)
              | (Inr ok, w1) \<Rightarrow>
                  (if \<not> ok then (Ret (Some (not_found messageID)), c, m1, w1)
                   else let m2 = (if delaySeconds \<le> 0 then SetStatus (wall w1) StatusWaiting m1
                                  else SetStatus (wall w1) StatusDelayed m1);
                            c1 = c\<lparr>c_retried := int64 (c_retried c + 1)\<rparr>
                        in run_hook (OnRetry (c_hooks c)) c1 m2 w1))
        else
          (case D_Fail (c_driver c) (c_channel c) messageID w of
             (Inl err, w1) \<Rightarrow> (Ret (Some err), c, m1, w1)
           | (Inr _, w1) \<Rightarrow>
               (let m2 = SetStatus (wall w1) StatusFailed m1;
                    c1 = c\<lparr>c_failed := int64 (c_failed c + 1)\<rparr>
                in run_hook (OnFail (c_hooks c)) c1 m2 w1)))"

text \<open>The cases of the switch in \<^verbatim>\<open>handleOne\<close>.\<close>

definition handleRequeue :: "('w \<Rightarrow> int) \<Rightarrow> 'w Consumer \<Rightarrow> string \<Rightarrow> Message \<Rightarrow> 'w
    \<Rightarrow> exit \<times> 'w Consumer \<times> Message \<times> 'w" where
  "handleRequeue wall c messageID message w =
     (case D_Requeue (c_driver c) (c_channel c) messageID w of
        (Inl err, w1) \<Rightarrow> (Ret (Some err), c, message, w1)
      | (Inr _, w1) \<Rightarrow>
          (let m1 = SetStatus (wall w1) StatusWaiting message;
               c1 = c\<lparr>c_requeued := int64 (c_requeued c + 1)\<rparr>
           in run_hook (OnRequeue (c_hooks c)) c1 m1 w1))"

definition handleRetry :: "('w \<Rightarrow> int) \<Rightarrow> 'w Consumer \<Rightarrow> string \<Rightarrow> Message \<Rightarrow> 'w
    \<Rightarrow> exit \<times> 'w Consumer \<times> Message \<times> 'w" where
  "handleRetry wall c messageID message w =
     (case AttemptsAllowed message of (allowed, m1) \<Rightarrow>
        if allowed then
          (let delaySeconds = RetrySeconds (c_retrySeconds c) (Attempts m1)
           in case D_Retry (c_driver c) (c_channel c) messageID delaySeconds w of
                (Inl err, w1) \<Rightarrow> (Ret (Some err), c, m1, w1)
              | (Inr ok, w1) \<Rightarrow>
                  (if \<not> ok then (Ret (Some (not_found messageID)), c, m1, w1)
                   else let m2 = (if delaySeconds \<le> 0 then SetStatus (wall w1) StatusWaiting m1
                                  else SetStatus (wall w1) StatusDelayed m1);
                            c1 = c\<lparr>c_retried := int64 (c_retried c + 1)\<rparr>
                        in run_hook (OnRetry (c_hooks c)) c1 m2 w1))
        else
          (case D_Fail (c_driver c) (c_channel c) messageID w of
             (Inl err, w1) \<Rightarrow> (Ret (Some err), c, m1, w1)
           | (Inr _, w1) \<Rightarrow>
               (let m2 = SetStatus (wall w1) StatusFailed m1;
                    c1 = c\<lparr>c_failed := int64 (c_failed c + 1)\<rparr>
                in run_hook (OnFail (c_hooks c)) c1 m2 w1)))"

definition handleDrop :: "('w \<Rightarrow> int) \<Rightarrow> 'w Consumer \<Rightarrow> string \<Rightarrow> Message \<Rightarrow> 'w
    \<Rightarrow> exit \<times> 'w Consumer \<times> Message \<times> 'w" where
  "handleDrop wall c messageID message w =
     (case D_Drop (c_driver c) (c_channel c) messageID w of
        (Inl err, w1) \<Rightarrow> (Ret (Some err), c, message, w1)
      | (Inr _, w1) \<Rightarrow>
          (let m1 = SetStatus (wall w1) StatusDropped message;
               c1 = c\<lparr>c_dropped := int64 (c_dropped c + 1)\<rparr>
           in run_hook (OnDrop (c_hooks c)) c1 m1 w1))"

definition handleAck :: "('w \<Rightarrow> int) \<Rightarrow> 'w Consumer \<Rightarrow> string \<Rightarrow> Message \<Rightarrow> 'w
    \<Rightarrow> exit \<times> 'w Consumer \<times> Message \<times> 'w" where
  "handleAck wall c messageID message w =
     (case D_Ack (c_driver c) (c_channel c) messageID w of
        (Inl err, w1) \<Rightarrow> (Ret (Some err), c, message, w1)
      | (Inr _, w1) \<Rightarrow>
          (let m1 = SetStatus (wall w1) StatusDone message;
               c1 = c\<lparr>c_acked := int64 (c_acked c + 1)\<rparr>
           in run_hook (OnAck (c_hooks c)) c1 m1 w1))"

text \<open>What \<^verbatim>\<open>handleOne\<close> does once the handler has come back, and the function with its deferred
  \<^verbatim>\<open>recover\<close>: a panic is answered with \<^verbatim>\<open>handleError\<close>, whose error is only logged; a panic of that
  call is not recovered.\<close>

definition handle_outcome :: "('w \<Rightarrow> int) \<Rightarrow> 'w Consumer \<Rightarrow> string \<Rightarrow> outcome \<Rightarrow> Message \<Rightarrow> 'w
    \<Rightarrow> exit \<times> 'w Consumer \<times> Message \<times> 'w" where
  "handle_outcome wall c messageID out m w =
     (case out of
        Panicked \<Rightarrow> (Panics, c, m, w)
      | Returned result err \<Rightarrow>
          (case err of
             Some _ \<Rightarrow> handleError wall c messageID m w
           | None \<Rightarrow>
               if result = REQUEUE then handleRequeue wall c messageID m w
               else if result = RETRY then handleRetry wall c messageID m w
               else if result = DROP then handleDrop wall c messageID m w
               else handleAck wall c messageID m w))"

definition commitOne :: "('w \<Rightarrow> int) \<Rightarrow> 'w Consumer \<Rightarrow> string \<Rightarrow> outcome \<Rightarrow> Message \<Rightarrow> 'w
    \<Rightarrow> exit \<times> 'w Consumer \<times> Message \<times> 'w" where
  "commitOne wall c messageID out m w =
     (case handle_outcome wall c messageID out m w of (r, c1, m1, w1) \<Rightarrow>
        (case r of
           Ret err \<Rightarrow> (Ret err, c1, m1, w1)
         | Panics \<Rightarrow>
             (case handleError wall c1 messageID m1 w1 of (r2, c2, m2, w2) \<Rightarrow>
                (case r2 of Ret _ \<Rightarrow> (Ret None, c2, m2, w2) | Panics \<Rightarrow> (Panics, c2, m2, w2)))))"

definition handleOne :: "('w \<Rightarrow> int) \<Rightarrow> 'w Consumer \<Rightarrow> string \<Rightarrow> Message \<Rightarrow> 'w
    \<Rightarrow> exit \<times> 'w Consumer \<times> Message \<times> 'w" where
  "handleOne wall c messageID message w =
     (case c_handler c message w of (out, m1, w1) \<Rightarrow> commitOne wall c messageID out m1 w1)"

lemma handleRetry_eq: "handleRetry = handleError"
  by (simp add: handleRetry_def handleError_def fun_eq_iff)

end
