(* ===== verification/Consumer_Properties.thy ===== *)
theory Consumer_Properties
  imports Consumer
begin

text \<open>
  What the processing of one message guarantees, for every driver that meets the contract
  \<open>queue_driver\<close>: which transition each handler outcome commits, what is counted, what happens on
  errors and panics, and how attempts are used up.
\<close>

section \<open>What a handler outcome asks for\<close>

datatype disposition = ToAck | ToRequeue | ToRetry int | ToFail | ToDrop

definition retry_or_fail :: "int list \<Rightarrow> Message \<Rightarrow> disposition" where
  "retry_or_fail rs m =
     (if Attempts m < MaxAttempts m then ToRetry (RetrySeconds rs (int64 (Attempts m + 1))) else ToFail)"

fun decide :: "int list \<Rightarrow> outcome \<Rightarrow> Message \<Rightarrow> disposition" where
  "decide rs Panicked m = retry_or_fail rs m"
| "decide rs (Returned r (Some e)) m = retry_or_fail rs m"
| "decide rs (Returned r None) m =
     (if r = REQUEUE then ToRequeue else if r = RETRY then retry_or_fail rs m
      else if r = DROP then ToDrop else ToAck)"

fun applied :: "disposition \<Rightarrow> string \<Rightarrow> int \<Rightarrow> qstate \<Rightarrow> qstate \<Rightarrow> bool" where
  "applied ToAck i now q q' \<longleftrightarrow> q' = q_ack i now q"
| "applied ToRequeue i now q q' \<longleftrightarrow> q' = q_requeue i now q"
| "applied (ToRetry d) i now q q' \<longleftrightarrow> q_moved i d q q q'"
| "applied ToFail i now q q' \<longleftrightarrow> q' = q_fail i now q"
| "applied ToDrop i now q q' \<longleftrightarrow> q' = q_drop i now q"

fun counted :: "disposition \<Rightarrow> 'w Consumer \<Rightarrow> 'w Consumer" where
  "counted ToAck c = c\<lparr>c_acked := int64 (c_acked c + 1)\<rparr>"
| "counted ToRequeue c = c\<lparr>c_requeued := int64 (c_requeued c + 1)\<rparr>"
| "counted (ToRetry d) c = c\<lparr>c_retried := int64 (c_retried c + 1)\<rparr>"
| "counted ToFail c = c\<lparr>c_failed := int64 (c_failed c + 1)\<rparr>"
| "counted ToDrop c = c\<lparr>c_dropped := int64 (c_dropped c + 1)\<rparr>"

text \<open>The end of an attempt: the transition was committed and counted, or an error is returned and
  nothing counted (the transition may then have happened or not).\<close>

definition settled :: "disposition \<Rightarrow> string \<Rightarrow> int \<Rightarrow> qstate \<Rightarrow> 'w Consumer \<Rightarrow> exit \<Rightarrow> 'w Consumer \<Rightarrow> qstate \<Rightarrow> bool" where
  "settled d i now q c r c' q' \<longleftrightarrow>
     (r = Ret None \<and> c' = counted d c \<and> applied d i now q q') \<or>
     (\<exists>e. r = Ret (Some e) \<and> c' = c \<and> (q' = q \<or> applied d i now q q'))"

text \<open>Hooks that return and leave the world alone.\<close>

definition silent_hook :: "'w hook option \<Rightarrow> bool" where
  "silent_hook h \<longleftrightarrow> (case h of None \<Rightarrow> True | Some f \<Rightarrow> \<forall>m w. \<exists>m'. f m w = (False, m', w))"

definition silent_hooks :: "'w ConsumerHooks \<Rightarrow> bool" where
  "silent_hooks h \<longleftrightarrow> silent_hook (OnAck h) \<and> silent_hook (OnRetry h) \<and> silent_hook (OnRequeue h) \<and>
     silent_hook (OnFail h) \<and> silent_hook (OnDrop h)"

lemma run_hook_silent:
  assumes "silent_hook h"
  obtains m' where "run_hook h c m w = (Ret None, c, m', w)"
proof (cases h)
  case None
  then show ?thesis using that[of m] by (simp add: run_hook_def)
next
  case (Some f)
  then obtain m' where "f m w = (False, m', w)" using assms by (auto simp: silent_hook_def)
  then show ?thesis using that[of m'] Some by (simp add: run_hook_def)
qed

lemma applied_unreserves:
  assumes "applied d i now q q'"
  shows "i \<notin> zset_members (q_reserved q')"
proof (cases d)
  case (ToRetry x)
  then obtain m wall score where "q_retry i (retried wall x (fill_defaults wall m)) (retry_mode x) score q = (True, q')"
    using assms by (auto simp: q_moved_def)
  then show ?thesis
    by (auto simp: q_retry_def q_push_def q_enqueue_def q_forget_def split: if_splits)
qed (use assms in \<open>auto simp: q_ack_def q_requeue_def q_fail_def q_drop_def\<close>)


section \<open>The commit of one message\<close>

context queue_driver begin

lemma commit_settles:
  assumes w: "calm w" and h: "silent_hook h"
    and law: "\<And>r w'. op w = (r, w') \<Longrightarrow> wf ch w' \<and> (calm w \<longrightarrow> calm w') \<and> committed f (before ch w) r (after ch w')"
    and app: "\<And>q. applied d i now q (f q)" and q: "q = before ch w"
    and run: "(case op w of (Inl err, w1) \<Rightarrow> (Ret (Some err), c, m1, w1)
               | (Inr x, w1) \<Rightarrow> run_hook h (counted d c) (g w1) w1) = (r, c', m', w')"
  shows "wf ch w' \<and> calm w' \<and> settled d i now q c r c' (after ch w')"
proof -
  obtain x w1 where op: "op w = (x, w1)" by force
  note l = law[OF op]
  show ?thesis
  proof (cases x)
    case (Inl e)
    then show ?thesis using op l w run app[of "before ch w"] q by (auto simp: settled_def committed_def)
  next
    case (Inr u)
    obtain m2 where "run_hook h (counted d c) (g w1) w1 = (Ret None, counted d c, m2, w1)"
      using run_hook_silent[OF h] .
    then show ?thesis using op l w run app[of "before ch w"] q Inr by (auto simp: settled_def committed_def)
  qed
qed

lemma handleError_settles:
  assumes "c_driver c = D" and "wf (c_channel c) w" and "calm w" and hooks: "silent_hooks (c_hooks c)"
    and run: "handleError wall c i m w = (r, c', m', w')"
  shows "wf (c_channel c) w' \<and> calm w' \<and>
    settled (retry_or_fail (c_retrySeconds c) m) i (clk w) (before (c_channel c) w) c r c' (after (c_channel c) w')"
proof (cases "Attempts m < MaxAttempts m")
  case True
  define m1 where "m1 = m\<lparr>Attempts := int64 (Attempts m + 1)\<rparr>"
  define d where "d = RetrySeconds (c_retrySeconds c) (Attempts m1)"
  have dd: "retry_or_fail (c_retrySeconds c) m = ToRetry d"
    using True by (simp add: retry_or_fail_def d_def m1_def)
  have aa: "AttemptsAllowed m = (True, m1)" using True by (simp add: AttemptsAllowed_def m1_def)
  obtain b w1 where op: "D_Retry D (c_channel c) i d w = (b, w1)" by force
  from Retry_law[OF assms(2) op] have w1: "wf (c_channel c) w1" "calm w1"
    and rc: "retry_commit i d (before (c_channel c) w) (before (c_channel c) w) b (after (c_channel c) w1)"
    using assms(3) by auto
  have hk: "silent_hook (OnRetry (c_hooks c))" using hooks by (simp add: silent_hooks_def)
  consider e where "b = Inl e" | "b = Inr False" | "b = Inr True" by (cases b) auto
  then show ?thesis
  proof cases
    case (1 e)
    then show ?thesis using run op w1 rc assms(1) unfolding dd
      by (auto simp: handleError_def aa d_def[symmetric] settled_def retry_commit_def)
  next
    case 2
    then show ?thesis using run op w1 rc assms(1) unfolding dd
      by (auto simp: handleError_def aa d_def[symmetric] settled_def retry_commit_def)
  next
    case 3
    obtain m2 where "run_hook (OnRetry (c_hooks c)) (c\<lparr>c_retried := int64 (c_retried c + 1)\<rparr>)
        (if d \<le> 0 then SetStatus (wall w1) StatusWaiting m1 else SetStatus (wall w1) StatusDelayed m1) w1
      = (Ret None, c\<lparr>c_retried := int64 (c_retried c + 1)\<rparr>, m2, w1)" using run_hook_silent[OF hk] .
    then show ?thesis using 3 run op w1 rc assms(1) unfolding dd
      by (auto simp: handleError_def aa d_def[symmetric] settled_def retry_commit_def Let_def)
  qed
next
  case False
  have dd: "retry_or_fail (c_retrySeconds c) m = ToFail" using False by (simp add: retry_or_fail_def)
  define m1 where "m1 = m\<lparr>Attempts := int64 (Attempts m + 1)\<rparr>"
  have aa: "AttemptsAllowed m = (False, m1)" using False by (simp add: AttemptsAllowed_def m1_def)
  show ?thesis unfolding dd
    by (rule commit_settles[where op = "D_Fail D (c_channel c) i" and h = "OnFail (c_hooks c)" and m' = m'
          and c = c and r = r and ?m1.0 = m1 and g = "\<lambda>w1. SetStatus (wall w1) StatusFailed m1", OF assms(3) _ Fail_law[OF assms(2)]])
      (use run hooks assms(1) in \<open>simp_all add: handleError_def aa silent_hooks_def Let_def cong: sum.case_cong\<close>)
qed

lemma handleRequeue_settles:
  assumes "c_driver c = D" and "wf (c_channel c) w" and "calm w" and hooks: "silent_hooks (c_hooks c)"
    and run: "handleRequeue wall c i m w = (r, c', m', w')"
  shows "wf (c_channel c) w' \<and> calm w' \<and>
    settled ToRequeue i (clk w) (before (c_channel c) w) c r c' (after (c_channel c) w')"
  by (rule commit_settles[where op = "D_Requeue D (c_channel c) i" and h = "OnRequeue (c_hooks c)" and m' = m'
        and c = c and r = r and ?m1.0 = m and g = "\<lambda>w1. SetStatus (wall w1) StatusWaiting m", OF assms(3) _ Requeue_law[OF assms(2)]])
    (use run hooks assms(1) in \<open>simp_all add: handleRequeue_def silent_hooks_def Let_def cong: sum.case_cong\<close>)

lemma handleDrop_settles:
  assumes "c_driver c = D" and "wf (c_channel c) w" and "calm w" and hooks: "silent_hooks (c_hooks c)"
    and run: "handleDrop wall c i m w = (r, c', m', w')"
  shows "wf (c_channel c) w' \<and> calm w' \<and>
    settled ToDrop i (clk w) (before (c_channel c) w) c r c' (after (c_channel c) w')"
  by (rule commit_settles[where op = "D_Drop D (c_channel c) i" and h = "OnDrop (c_hooks c)" and m' = m'
        and c = c and r = r and ?m1.0 = m and g = "\<lambda>w1. SetStatus (wall w1) StatusDropped m", OF assms(3) _ Drop_law[OF assms(2)]])
    (use run hooks assms(1) in \<open>simp_all add: handleDrop_def silent_hooks_def Let_def cong: sum.case_cong\<close>)

lemma handleAck_settles:
  assumes "c_driver c = D" and "wf (c_channel c) w" and "calm w" and hooks: "silent_hooks (c_hooks c)"
    and run: "handleAck wall c i m w = (r, c', m', w')"
  shows "wf (c_channel c) w' \<and> calm w' \<and>
    settled ToAck i (clk w) (before (c_channel c) w) c r c' (after (c_channel c) w')"
  by (rule commit_settles[where op = "D_Ack D (c_channel c) i" and h = "OnAck (c_hooks c)" and m' = m'
        and c = c and r = r and ?m1.0 = m and g = "\<lambda>w1. SetStatus (wall w1) StatusDone m", OF assms(3) _ Ack_law[OF assms(2)]])
    (use run hooks assms(1) in \<open>simp_all add: handleAck_def silent_hooks_def Let_def cong: sum.case_cong\<close>)

lemma handle_outcome_settles:
  assumes "c_driver c = D" and "wf (c_channel c) w" and "calm w"
    and "silent_hooks (c_hooks c)" and "out \<noteq> Panicked" and run: "handle_outcome wall c i out m w = (r, c', m', w')"
  shows "wf (c_channel c) w' \<and> calm w' \<and>
    settled (decide (c_retrySeconds c) out m) i (clk w) (before (c_channel c) w) c r c' (after (c_channel c) w')"
proof (cases out)
  case (Returned res err)
  note step = handleError_settles[OF assms(1-4)] handleRequeue_settles[OF assms(1-4)]
    handleDrop_settles[OF assms(1-4)] handleAck_settles[OF assms(1-4)]
  show ?thesis
  proof (cases err)
    case None
    then show ?thesis using run Returned step
      by (auto simp: handle_outcome_def handleRetry_eq split: if_splits)
  next
    case (Some e)
    then show ?thesis using run Returned step(1) by (simp add: handle_outcome_def)
  qed
qed (use assms(5) in simp)

lemma settled_not_Panics [simp]: "\<not> settled d i now q c Panics c' q'"
  by (simp add: settled_def)

lemma commitOne_settles:
  assumes "c_driver c = D" and "wf (c_channel c) w" and "calm w"
    and "silent_hooks (c_hooks c)" and run: "commitOne wall c i out m w = (r, c', m', w')"
  shows "wf (c_channel c) w' \<and> calm w' \<and> (\<exists>r0. (out \<noteq> Panicked \<longrightarrow> r = r0) \<and> (out = Panicked \<longrightarrow> r = Ret None) \<and>
    settled (decide (c_retrySeconds c) out m) i (clk w) (before (c_channel c) w) c r0 c' (after (c_channel c) w'))"
proof (cases "out = Panicked")
  case True
  obtain r0 c0 m0 w0 where e: "handleError wall c i m w = (r0, c0, m0, w0)" by (metis prod_cases4)
  note st = handleError_settles[OF assms(1-4) e]
  have "handle_outcome wall c i out m w = (Panics, c, m, w)" using True by (simp add: handle_outcome_def)
  then have "r = Ret None \<and> c' = c0 \<and> w' = w0"
    using run e st by (auto simp: commitOne_def split: exit.splits)
  then show ?thesis using st True by auto
next
  case False
  obtain r0 c0 m0 w0 where b: "handle_outcome wall c i out m w = (r0, c0, m0, w0)" by (metis prod_cases4)
  note st = handle_outcome_settles[OF assms(1-4) False b]
  then have "r = r0 \<and> c' = c0 \<and> w' = w0"
    using run b by (auto simp: commitOne_def split: exit.splits)
  then show ?thesis using st False by auto
qed

lemma handleOne_settles:
  assumes "c_driver c = D" and "c_handler c m w = (out, m1, w1)" and "wf (c_channel c) w1" and "calm w1"
    and "silent_hooks (c_hooks c)" and run: "handleOne wall c i m w = (r, c', m', w')"
  shows "wf (c_channel c) w' \<and> calm w' \<and> (\<exists>r0. (out \<noteq> Panicked \<longrightarrow> r = r0) \<and> (out = Panicked \<longrightarrow> r = Ret None) \<and>
    settled (decide (c_retrySeconds c) out m1) i (clk w1) (before (c_channel c) w1) c r0 c' (after (c_channel c) w'))"
  using commitOne_settles[OF assms(1,3-5)] run assms(2) by (simp add: handleOne_def)

end

text \<open>C13. Without other clients and with hooks that return, the processing of one message commits
  exactly the transition its handler outcome asks for (\<^verbatim>\<open>ACK\<close> and unknown results acknowledge, \<^verbatim>\<open>RETRY\<close>,
  an error or a panic retry while attempts remain and fail afterwards) and increments exactly the
  counter of that transition; when it returns an error, nothing is counted.  After a panic it
  returns nil in both cases.\<close>

theorem handleOne_commits:
  assumes "queue_driver D dok clk before after calm" and "c_driver c = D" and "c_handler c m w = (out, m1, w1)"
    and "dok (c_channel c) w1" and "calm w1" and "silent_hooks (c_hooks c)"
    and "handleOne wall c i m w = (r, c', m', w')"
  shows "dok (c_channel c) w' \<and> (\<exists>r0. r = (if out = Panicked then Ret None else r0) \<and>
    settled (decide (c_retrySeconds c) out m1) i (clk w1) (before (c_channel c) w1) c r0 c' (after (c_channel c) w'))"
  using queue_driver.handleOne_settles[OF assms] by auto

text \<open>When the processing of one message succeeds, the message is no longer reserved.\<close>

theorem handleOne_releases:
  assumes "queue_driver D dok clk before after calm" and "c_driver c = D" and "c_handler c m w = (out, m1, w1)"
    and "dok (c_channel c) w1" and "calm w1" and "silent_hooks (c_hooks c)" and "out \<noteq> Panicked"
    and "handleOne wall c i m w = (Ret None, c', m', w')"
  shows "i \<notin> zset_members (q_reserved (after (c_channel c) w'))"
  using queue_driver.handleOne_settles[OF assms(1-6,8)] assms(7) applied_unreserves by (auto simp: settled_def)

text \<open>A consumer over the in-memory server that answers every message with the same outcome.\<close>

definition demo_consumer :: "outcome \<Rightarrow> mem world Consumer" where
  "demo_consumer out = NewConsumer (redis_driver mem_redis) ''q'' (\<lambda>m w. (out, m, w)) []"

lemma demo_consumer_simps [simp]:
  "c_driver (demo_consumer out) = redis_driver mem_redis" "c_channel (demo_consumer out) = ''q''"
  "c_handler (demo_consumer out) = (\<lambda>m w. (out, m, w))" "silent_hooks (c_hooks (demo_consumer out))"
  "c_retrySeconds (demo_consumer out) = [30, 90, 180, 300]" "c_failed (demo_consumer out) = 0"
  by (simp_all add: demo_consumer_def NewConsumer_def consumer_settings_def defaultConsumerOptions_def
      no_hooks_def silent_hooks_def silent_hook_def Let_def)

lemma demo_consumer_hooks: "c_hooks (demo_consumer out) = no_hooks"
  by (simp add: demo_consumer_def NewConsumer_def consumer_settings_def defaultConsumerOptions_def Let_def)

abbreviation demo_one :: "mem world" where
  "demo_one \<equiv> demo_world (\<lambda>_. Delivered) (demo_push ''waiting'' 0 ''a'' mem_empty)"

lemma demo_one_ok: "world_ok mem_safe m_obj ''q'' demo_one" "quiet demo_one"
  by (intro demo_world_ok demo_push_ok demo_empty)+

theorem handleOne_commits_witness:
  "\<exists>r c' m' w'. handleOne wall_now (demo_consumer Panicked) ''a'' ((demo_msg ''a'')\<lparr>Attempts := 3\<rparr>) demo_one = (r, c', m', w') \<and>
     r = Ret None"
proof -
  obtain r c' m' w' where run: "handleOne wall_now (demo_consumer Panicked) ''a'' ((demo_msg ''a'')\<lparr>Attempts := 3\<rparr>) demo_one = (r, c', m', w')"
    by (metis prod_cases4)
  show ?thesis
    using handleOne_commits[OF mem_lua.drv.queue_driver_axioms, of "demo_consumer Panicked" "(demo_msg ''a'')\<lparr>Attempts := 3\<rparr>"
        demo_one Panicked _ demo_one wall_now "''a''"] run demo_one_ok by simp
qed

theorem handleOne_releases_witness:
  "\<exists>c' m' w'. handleOne wall_now (demo_consumer (Returned ACK None)) ''a'' (demo_msg ''a'') demo_one = (Ret None, c', m', w') \<and>
     ''a'' \<notin> zset_members (q_reserved (demo_view (w_db w')))"
proof -
  obtain s where "Ack mem_redis ''q'' ''a'' demo_one = (Inr (), after_call demo_one s)"
    using mem_lua.Ack_refines[OF demo_one_ok(1), of "''a''"] by (auto simp: reply_of_def)
  then obtain c' m' w' where run:
    "handleOne wall_now (demo_consumer (Returned ACK None)) ''a'' (demo_msg ''a'') demo_one = (Ret None, c', m', w')"
    by (simp add: handleOne_def commitOne_def handle_outcome_def handleAck_def result_defs redis_driver_def Let_def run_hook_def
        demo_consumer_hooks no_hooks_def)
  then show ?thesis
    using handleOne_releases[OF mem_lua.drv.queue_driver_axioms, of "demo_consumer (Returned ACK None)" "demo_msg ''a''"
        demo_one "Returned ACK None" "demo_msg ''a''" demo_one wall_now "''a''"] demo_one_ok by auto
qed


section \<open>Panicking hooks\<close>

text \<open>C20. A hook that panics after its commit undoes the outcome: when the acknowledgement of a message
  on its last attempt succeeded and the \<^verbatim>\<open>OnAck\<close> hook then panics, the recovery path also fails the
  message, so that it ends up counted twice, marked failed and in the failed list although it was
  processed and acknowledged.\<close>

theorem panicking_hook_fails_acked:
  assumes "queue_driver D dok clk before after calm" and "c_driver c = D" and "dok (c_channel c) w" and "calm w"
    and "c_handler c = (\<lambda>m w. (Returned ACK None, m, w))" and "MaxAttempts m \<le> Attempts m"
    and "OnAck (c_hooks c) = Some (\<lambda>m w. (True, m, w))" and "silent_hook (OnFail (c_hooks c))"
    and "D_Ack D (c_channel c) i w = (Inr (), w1)" and "D_Fail D (c_channel c) i w1 = (Inr (), w2)"
    and "q_msgs (before (c_channel c) w) i \<noteq> None"
  shows "\<exists>m'. handleOne wall c i m w =
      (Ret None, c\<lparr>c_acked := int64 (c_acked c + 1), c_failed := int64 (c_failed c + 1)\<rparr>, m', w2) \<and>
    i \<in> set (q_failed (after (c_channel c) w2)) \<and>
    map_option Status (q_msgs (after (c_channel c) w2) i) = Some StatusFailed"
proof -
  have ack: "dok (c_channel c) w1" "calm w1" "after (c_channel c) w1 = q_ack i (clk w) (before (c_channel c) w)"
    using queue_driver.Ack_law[OF assms(1,3,9)] assms(4) by (auto simp: committed_def)
  have "before (c_channel c) w1 = after (c_channel c) w1" using queue_driver.calm_before[OF assms(1) ack(2)] .
  then have fail: "after (c_channel c) w2 = q_fail i (clk w1) (q_ack i (clk w) (before (c_channel c) w))"
    using queue_driver.Fail_law[OF assms(1) ack(1) assms(10)] ack by (auto simp: committed_def)
  define m1 where "m1 = SetStatus (wall w1) StatusDone m"
  have body: "handle_outcome wall c i (Returned ACK None) m w = (Panics, c\<lparr>c_acked := int64 (c_acked c + 1)\<rparr>, m1, w1)"
    using assms(2,5,7,9) by (simp add: handle_outcome_def handleAck_def result_defs run_hook_def m1_def Let_def)
  have "AttemptsAllowed m1 = (False, m1\<lparr>Attempts := int64 (Attempts m1 + 1)\<rparr>)"
    using assms(6) by (simp add: AttemptsAllowed_def m1_def)
  moreover obtain m2 where "run_hook (OnFail (c_hooks c))
      (c\<lparr>c_acked := int64 (c_acked c + 1), c_failed := int64 (c_failed c + 1)\<rparr>)
      (SetStatus (wall w2) StatusFailed (m1\<lparr>Attempts := int64 (Attempts m1 + 1)\<rparr>)) w2
    = (Ret None, c\<lparr>c_acked := int64 (c_acked c + 1), c_failed := int64 (c_failed c + 1)\<rparr>, m2, w2)"
    using run_hook_silent[OF assms(8)] .
  ultimately have "handleOne wall c i m w =
      (Ret None, c\<lparr>c_acked := int64 (c_acked c + 1), c_failed := int64 (c_failed c + 1)\<rparr>, m2, w2)"
    using body assms(2,5,10) by (simp add: handleOne_def commitOne_def handleError_def Let_def)
  then show ?thesis using fail assms(11) by (auto simp: q_fail_def q_ack_def)
qed


definition demo_panicky :: "mem world Consumer" where
  "demo_panicky = NewConsumer (redis_driver mem_redis) ''q'' (\<lambda>m w. (Returned ACK None, m, w))
     [Some (WithConsumerHooks (no_hooks\<lparr>OnAck := Some (\<lambda>m w. (True, m, w))\<rparr>))]"

lemma demo_panicky_simps [simp]:
  "c_driver demo_panicky = redis_driver mem_redis" "c_channel demo_panicky = ''q''"
  "c_handler demo_panicky = (\<lambda>m w. (Returned ACK None, m, w))"
  "OnAck (c_hooks demo_panicky) = Some (\<lambda>m w. (True, m, w))" "OnFail (c_hooks demo_panicky) = None"
  "c_acked demo_panicky = 0" "c_failed demo_panicky = 0"
  by (simp_all add: demo_panicky_def NewConsumer_def consumer_settings_def defaultConsumerOptions_def no_hooks_def Let_def)

theorem panicking_hook_fails_acked_witness:
  "\<exists>c' m' w'. handleOne wall_now demo_panicky ''a'' ((demo_msg ''a'')\<lparr>Attempts := 3\<rparr>) demo_one = (Ret None, c', m', w') \<and>
     c_acked c' = 1 \<and> c_failed c' = 1 \<and> ''a'' \<in> set (q_failed (demo_view (w_db w')))"
proof -
  obtain s1 where a: "Ack mem_redis ''q'' ''a'' demo_one = (Inr (), after_call demo_one s1)"
    using mem_lua.Ack_refines[OF demo_one_ok(1), of "''a''"] by (auto simp: reply_of_def)
  have w1: "world_ok mem_safe m_obj ''q'' (after_call demo_one s1)"
    using mem_lua.drv.Ack_law[OF demo_one_ok(1)] a by (simp add: redis_driver_def)
  obtain s2 where f: "Fail mem_redis ''q'' ''a'' (after_call demo_one s1) = (Inr (), after_call (after_call demo_one s1) s2)"
    using mem_lua.Fail_refines[OF w1, of "''a''"] by (auto simp: reply_of_def after_call_def demo_world_def)
  show ?thesis
    using panicking_hook_fails_acked[OF mem_lua.drv.queue_driver_axioms, where c = demo_panicky and w = demo_one
        and m = "(demo_msg ''a'')\<lparr>Attempts := 3\<rparr>" and i = "''a''" and wall = wall_now, of "after_call demo_one s1"
        "after_call (after_call demo_one s1) s2"] demo_one_ok a f
    by (auto simp: redis_driver_def demo_msg_def silent_hook_def demo_simps int64_def)
qed


section \<open>The attempt budget\<close>

text \<open>One turn of the consumer: a message is claimed and processed to its end.\<close>

definition consume_once :: "('w \<Rightarrow> int) \<Rightarrow> 'w Consumer \<Rightarrow> 'w \<Rightarrow> (exit \<times> 'w Consumer \<times> Message \<times> 'w) option" where
  "consume_once wall c w =
     (case D_Pop (c_driver c) (c_channel c) (c_PopTimeout c) (c_handleTimeout c) None w of
        Some (Inr (i, Some m), w1) \<Rightarrow> Some (handleOne wall c i m w1)
      | _ \<Rightarrow> None)"

fun turns :: "('w \<Rightarrow> int) \<Rightarrow> nat \<Rightarrow> 'w Consumer \<Rightarrow> 'w \<Rightarrow> ('w Consumer \<times> 'w) option" where
  "turns wall 0 c w = Some (c, w)"
| "turns wall (Suc n) c w =
     (case consume_once wall c w of Some (Ret None, c', m', w') \<Rightarrow> turns wall n c' w' | _ \<Rightarrow> None)"

text \<open>A consumer whose handler always asks for an immediate retry.\<close>

definition retrying :: "'s redis \<Rightarrow> string \<Rightarrow> 's world Consumer \<Rightarrow> bool" where
  "retrying R ch c \<longleftrightarrow> c_driver c = redis_driver R \<and> c_channel c = ch \<and> silent_hooks (c_hooks c) \<and>
     c_handler c = (\<lambda>m w. (Returned RETRY None, m, w)) \<and> c_retrySeconds c = [0]"

definition alone :: "string \<Rightarrow> int \<Rightarrow> int \<Rightarrow> qstate \<Rightarrow> bool" where
  "alone i a mx q \<longleftrightarrow> q_waiting q = [i] \<and> q_reserved q = [] \<and> q_delayed q = [] \<and> q_timeout q = [] \<and> q_failed q = [] \<and>
     (\<exists>m. q_msgs q i = Some m \<and> Attempts m = a \<and> MaxAttempts m = mx)"

lemma zset_single: "zset_add d i [] = [(d, i)]" "zset_members [(d, i)] = {i}" "zset_rem i [(d, i)] = []"
  by (simp_all add: zset_add_def zset_rem_def zset_members_def)

context redis_lua begin

lemma retry_turn:
  fixes c :: "'s world Consumer"
  assumes "wok ch w" and "quiet w" and net: "\<forall>n. w_net w n = Delivered" and "i \<noteq> ''''" and "retrying R ch c"
    and "alone i a mx (qv ch (w_db w))" and "0 \<le> a" and "a < mx" and "mx < 10 ^ 14"
  shows "\<exists>c' m' w'. consume_once wall c w = Some (Ret None, c', m', w') \<and> retrying R ch c' \<and>
    wok ch w' \<and> quiet w' \<and> (\<forall>n. w_net w' n = Delivered) \<and> alone i (a + 1) mx (qv ch (w_db w'))"
proof -
  let ?q = "qv ch (w_db w)"
  obtain m where m: "q_msgs ?q i = Some m" "Attempts m = a" "MaxAttempts m = mx" and q: "q_waiting ?q = [] @ i # []"
    "q_reserved ?q = []" "q_delayed ?q = []" "q_timeout ?q = []" "q_failed ?q = []"
    using assms(6) by (auto simp: alone_def)
  have d1: "w_net w (w_tick w) = Delivered" "w_net w (Suc (w_tick w)) = Delivered" using net by simp_all
  obtain w1 wl where pop: "Pop R ch (c_PopTimeout c) (c_handleTimeout c) None w
      = Some (Inr (i, Some (fill_defaults wl (stamp StatusReserved (secs w) m))), w1)"
    and w1: "wok ch w1" "quiet w1" "w_net w1 = w_net w"
    and q1: "qv ch (w_db w1) = (q_mark i StatusReserved (secs w) ?q)
      \<lparr>q_waiting := [], q_reserved := zset_add (pop_deadline (c_handleTimeout c) w) i (q_reserved ?q)\<rparr>"
    using Pop_delivered[OF assms(1,2) d1 q(1) assms(4) m(1), where pt = "c_PopTimeout c" and ht = "c_handleTimeout c" and ctx = None]
    by auto
  define m1 where "m1 = fill_defaults wl (stamp StatusReserved (secs w) m)"
  have m1: "Attempts m1 = a" "MaxAttempts m1 = mx"
    using m(2,3) assms(7,8) by (simp_all add: m1_def fill_defaults_def Let_def)
  have e1: "q_msgs (qv ch (w_db w1)) i = Some (stamp StatusReserved (secs w) m)" using q1 m by simp
  obtain w2 wl2 sc where ret: "Retry R ch i 0 w1 = (Inr True, w2)" and w2: "wok ch w2" "quiet w2" "w_net w2 = w_net w1"
    and q2: "qv ch (w_db w2) = snd (q_retry i (retried wl2 0 (fill_defaults wl2 (stamp StatusReserved (secs w) m)))
        (retry_mode 0) sc (qv ch (w_db w1)))"
    using Retry_delivered[OF w1(1,2) assms(4) _ e1, of 0] w1(3) net q1 q(2)
    by (auto simp: Let_def q_retry_def zset_single split: if_splits)
  have al: "alone i (a + 1) mx (qv ch (w_db w2))"
    using q2 q1 q m assms(7,8) by (auto simp: alone_def q_retry_def zset_single q_push_def q_enqueue_def retry_mode_def
        retried_def fill_defaults_def Let_def)
  have "int64 (a + 1) = a + 1" using assms(7-9) by (intro int64_id) (simp add: in_int64_def)
  then have aa: "AttemptsAllowed m1 = (True, m1\<lparr>Attempts := a + 1\<rparr>)" using m1 assms(8) by (simp add: AttemptsAllowed_def)
  let ?c' = "c\<lparr>c_retried := int64 (c_retried c + 1)\<rparr>"
  have hk: "silent_hook (OnRetry (c_hooks c))" using assms(5) by (simp add: retrying_def silent_hooks_def)
  obtain m2 where hook: "run_hook (OnRetry (c_hooks c)) ?c' (SetStatus (wall w2) StatusWaiting (m1\<lparr>Attempts := a + 1\<rparr>)) w2
      = (Ret None, ?c', m2, w2)" using run_hook_silent[OF hk] .
  have "handleError wall c i m1 w1 = (Ret None, ?c', m2, w2)"
    using assms(5) aa ret hook by (simp add: handleError_def retrying_def redis_driver_def RetrySeconds_def Let_def)
  then have "handleOne wall c i m1 w1 = (Ret None, ?c', m2, w2)"
    using assms(5) by (simp add: handleOne_def commitOne_def handle_outcome_def handleRetry_eq retrying_def result_defs)
  then show ?thesis using pop assms(5) al w2 w1(3) net unfolding m1_def
    by (auto simp: consume_once_def retrying_def redis_driver_def)
qed

lemma last_turn:
  fixes c :: "'s world Consumer"
  assumes "wok ch w" and "quiet w" and net: "\<forall>n. w_net w n = Delivered" and "i \<noteq> ''''" and "retrying R ch c"
    and "alone i mx mx (qv ch (w_db w))" and "0 < mx"
  shows "\<exists>c' m' w'. consume_once wall c w = Some (Ret None, c', m', w') \<and>
    q_failed (qv ch (w_db w')) = [i] \<and> q_waiting (qv ch (w_db w')) = []"
proof -
  let ?q = "qv ch (w_db w)"
  obtain m where m: "q_msgs ?q i = Some m" "Attempts m = mx" "MaxAttempts m = mx" and q: "q_waiting ?q = [] @ i # []"
    "q_failed ?q = []" using assms(6) by (auto simp: alone_def)
  have d1: "w_net w (w_tick w) = Delivered" "w_net w (Suc (w_tick w)) = Delivered" using net by simp_all
  obtain w1 wl where pop: "Pop R ch (c_PopTimeout c) (c_handleTimeout c) None w
      = Some (Inr (i, Some (fill_defaults wl (stamp StatusReserved (secs w) m))), w1)"
    and w1: "wok ch w1" "quiet w1" "w_net w1 = w_net w"
    and q1: "qv ch (w_db w1) = (q_mark i StatusReserved (secs w) ?q)
      \<lparr>q_waiting := [], q_reserved := zset_add (pop_deadline (c_handleTimeout c) w) i (q_reserved ?q)\<rparr>"
    using Pop_delivered[OF assms(1,2) d1 q(1) assms(4) m(1), where pt = "c_PopTimeout c" and ht = "c_handleTimeout c" and ctx = None]
    by auto
  define m1 where "m1 = fill_defaults wl (stamp StatusReserved (secs w) m)"
  have "Attempts m1 = mx" "MaxAttempts m1 = mx"
    using m(2,3) assms(7) by (simp_all add: m1_def fill_defaults_def Let_def)
  then have aa: "AttemptsAllowed m1 = (False, m1\<lparr>Attempts := int64 (mx + 1)\<rparr>)" by (simp add: AttemptsAllowed_def)
  obtain w2 now where fl: "Fail R ch i w1 = (Inr (), w2)" and q2: "qv ch (w_db w2) = q_fail i now (qv ch (w_db w1))"
    using Fail_delivered[OF w1(1,2), of i] w1(3) net by auto
  let ?c' = "c\<lparr>c_failed := int64 (c_failed c + 1)\<rparr>"
  have hk: "silent_hook (OnFail (c_hooks c))" using assms(5) by (simp add: retrying_def silent_hooks_def)
  obtain m2 where hook: "run_hook (OnFail (c_hooks c)) ?c' (SetStatus (wall w2) StatusFailed (m1\<lparr>Attempts := int64 (mx + 1)\<rparr>)) w2
      = (Ret None, ?c', m2, w2)" using run_hook_silent[OF hk] .
  have "handleError wall c i m1 w1 = (Ret None, ?c', m2, w2)"
    using assms(5) aa fl hook by (simp add: handleError_def retrying_def redis_driver_def Let_def)
  then have "handleOne wall c i m1 w1 = (Ret None, ?c', m2, w2)"
    using assms(5) by (simp add: handleOne_def commitOne_def handle_outcome_def handleRetry_eq retrying_def result_defs)
  then show ?thesis using pop assms(5) q2 q1 q(2) m(1) unfolding m1_def
    by (auto simp: consume_once_def retrying_def redis_driver_def q_fail_def)
qed

lemma retry_turns:
  fixes c :: "'s world Consumer"
  assumes "wok ch w" and "quiet w" and "\<forall>n. w_net w n = Delivered" and "i \<noteq> ''''" and "retrying R ch c"
    and "alone i a mx (qv ch (w_db w))" and "0 \<le> a" and "a + int n = mx" and "0 < mx" and "mx < 10 ^ 14"
  shows "\<exists>c' w'. turns wall (Suc n) c w = Some (c', w') \<and> q_failed (qv ch (w_db w')) = [i] \<and> q_waiting (qv ch (w_db w')) = []"
  using assms
proof (induction n arbitrary: a c w)
  case 0
  then have "alone i mx mx (qv ch (w_db w))" by simp
  from last_turn[OF 0(1-5) this 0(9), of wall] show ?case by auto
next
  case (Suc n)
  have a: "a < mx" using Suc.prems(8) by simp
  obtain c' m' w' where st: "consume_once wall c w = Some (Ret None, c', m', w')" and c': "retrying R ch c'"
    and w': "wok ch w'" "quiet w'" "\<forall>n. w_net w' n = Delivered" "alone i (a + 1) mx (qv ch (w_db w'))"
    using retry_turn[OF Suc.prems(1-7) a Suc.prems(10), of wall] by blast
  have "\<exists>c'' w''. turns wall (Suc n) c' w' = Some (c'', w'') \<and> q_failed (qv ch (w_db w'')) = [i] \<and> q_waiting (qv ch (w_db w'')) = []"
    using Suc.IH[OF w'(1-3) Suc.prems(4) c' w'(4)] Suc.prems(7-10) by simp
  then show ?case using st by simp
qed

end

text \<open>C19. A message whose handler always asks for a retry reaches the failed list after exactly one
  more turn than it has attempts left: with a fresh message (zero attempts) and a maximum of \<open>mx\<close>,
  the handler runs \<open>mx + 1\<close> times.\<close>

theorem attempts_exhausted:
  assumes "redis_lua R look conv safe" and "world_ok safe look ch w" and "quiet w" and "\<forall>n. w_net w n = Delivered"
    and "i \<noteq> ''''" and "retrying R ch c" and "alone i a mx (view look ch (w_db w))" and "0 \<le> a" and "a \<le> mx"
    and "0 < mx" and "mx < 10 ^ 14"
  shows "\<exists>c' w'. turns wall (nat (mx - a) + 1) c w = Some (c', w') \<and>
    q_failed (view look ch (w_db w')) = [i] \<and> q_waiting (view look ch (w_db w')) = []"
  using redis_lua.retry_turns[OF assms(1-8), of "nat (mx - a)" wall] assms(9-11) by simp

definition demo_retrying :: "mem world Consumer" where
  "demo_retrying = NewConsumer (redis_driver mem_redis) ''q'' (\<lambda>m w. (Returned RETRY None, m, w))
     [Some (WithConsumerRetrySeconds [0])]"

theorem attempts_exhausted_witness:
  "\<exists>c' w'. turns wall_now 4 demo_retrying demo_one = Some (c', w') \<and> q_failed (demo_view (w_db w')) = [''a''] \<and>
     q_waiting (demo_view (w_db w')) = []"
proof -
  have "retrying mem_redis ''q'' demo_retrying"
    by (simp add: retrying_def demo_retrying_def NewConsumer_def consumer_settings_def defaultConsumerOptions_def
        no_hooks_def silent_hooks_def silent_hook_def Let_def)
  moreover have "alone ''a'' 0 3 (demo_view (w_db demo_one))"
    by (simp add: alone_def demo_simps demo_msg_def zero_message_def)
  ultimately show ?thesis
    using attempts_exhausted[OF demo_lua demo_one_ok, of "''a''" demo_retrying 0 3 wall_now] by simp
qed

end
