(* ===== verification/Consumer_Run.thy ===== *)
theory Consumer_Run
  imports Consumer_Properties Queue_Invariant
begin

text \<open>
  \<^verbatim>\<open>Consumer.Run\<close> (\<^verbatim>\<open>pkg/queue/consumer.go\<close>) as a step relation: the polling goroutine and the handler
  goroutines it starts, interleaved in any order, with the cancellation of the context as a step of
  its own.  A step ends where another goroutine can run: at the semaphore, at the wait group, at a
  call of the driver or the handler.
\<close>

section \<open>States and steps\<close>

text \<open>Where the polling goroutine is: at the head of the loop, before \<^verbatim>\<open>Pop\<close>, after it, in the backoff
  wait, at \<^verbatim>\<open>sem <- struct{}{}\<close>, at \<^verbatim>\<open>wg.Wait()\<close>, returned.  An unrecovered panic ends the process.\<close>

datatype phase =
    Looping
  | Popping
  | Popped "error + string \<times> Message option"
  | BackingOff
  | Launching string Message
  | Draining
  | Exited "ConsumerRunError option"
  | Crashed

text \<open>A handler goroutine: before the handler, after it, after the commit, after \<^verbatim>\<open><-sem\<close>.\<close>

datatype job =
    Launched string Message
  | Handled string outcome Message
  | Committed
  | Unlocked

record 'w crun =
  r_con :: "'w Consumer"
  r_world :: 'w
  r_ctx :: "error option"
  r_phase :: phase
  r_sem :: int
  r_wg :: int
  r_jobs :: "job list"
  r_count :: int
  r_backoff :: backoff

definition run_init :: "'w Consumer \<Rightarrow> error option \<Rightarrow> 'w \<Rightarrow> 'w crun" where
  "run_init c ctx w = \<lparr>r_con = c, r_world = w, r_ctx = ctx, r_phase = Looping, r_sem = 0, r_wg = 0,
     r_jobs = [], r_count = 0, r_backoff = newBackoff (c_popRetryBackoff c) (c_popRetryMaxBackoff c)\<rparr>"

definition limit_reached :: "'w Consumer \<Rightarrow> int \<Rightarrow> bool" where
  "limit_reached c count \<longleftrightarrow> c_autoRestart c \<and> c_maxMessages c > 0 \<and> count \<ge> c_maxMessages c"

inductive run_step :: "('w \<Rightarrow> int) \<Rightarrow> 'w crun \<Rightarrow> 'w crun \<Rightarrow> bool" for wall :: "'w \<Rightarrow> int" where
  enough: "r_phase s = Looping \<Longrightarrow> limit_reached (r_con s) (r_count s) \<Longrightarrow> run_step wall s (s\<lparr>r_phase := Draining\<rparr>)"
| ctx_done: "r_phase s = Looping \<Longrightarrow> \<not> limit_reached (r_con s) (r_count s) \<Longrightarrow> r_ctx s \<noteq> None \<Longrightarrow>
    run_step wall s (s\<lparr>r_phase := Draining\<rparr>)"
| poll: "r_phase s = Looping \<Longrightarrow> \<not> limit_reached (r_con s) (r_count s) \<Longrightarrow> r_ctx s = None \<Longrightarrow>
    run_step wall s (s\<lparr>r_phase := Popping\<rparr>)"
| pop: "r_phase s = Popping \<Longrightarrow> r_ctx s = None \<or> ctx = r_ctx s \<Longrightarrow>
    D_Pop (c_driver (r_con s)) (c_channel (r_con s)) (c_PopTimeout (r_con s)) (c_handleTimeout (r_con s)) ctx (r_world s)
      = Some (p, w) \<Longrightarrow>
    run_step wall s (s\<lparr>r_phase := Popped p, r_ctx := ctx, r_world := w\<rparr>)"
| pop_ended: "r_phase s = Popped (Inl e) \<Longrightarrow> r_ctx s \<noteq> None \<Longrightarrow> run_step wall s (s\<lparr>r_phase := Draining\<rparr>)"
| pop_retryable: "r_phase s = Popped (Inl e) \<Longrightarrow> r_ctx s = None \<Longrightarrow> isRetryablePopError (Some e) \<Longrightarrow>
    run_step wall s (s\<lparr>r_phase := BackingOff\<rparr>)"
| backoff_over: "r_phase s = BackingOff \<Longrightarrow> ends \<in> {None, r_ctx s} \<Longrightarrow>
    waitForPopRetryBackoff (r_ctx s) ends (Current (Some (r_backoff s))) = None \<Longrightarrow>
    run_step wall s (s\<lparr>r_phase := Looping, r_backoff := Advance (r_backoff s)\<rparr>)"
| backoff_cut: "r_phase s = BackingOff \<Longrightarrow> ends \<in> {None, r_ctx s} \<Longrightarrow>
    waitForPopRetryBackoff (r_ctx s) ends (Current (Some (r_backoff s))) = Some e \<Longrightarrow>
    run_step wall s (s\<lparr>r_phase := Draining\<rparr>)"
| pop_fatal: "r_phase s = Popped (Inl e) \<Longrightarrow> r_ctx s = None \<Longrightarrow> \<not> isRetryablePopError (Some e) \<Longrightarrow>
    run_step wall s (s\<lparr>r_con := recordErr (Some e) (r_con s), r_phase := Draining\<rparr>)"
| pop_idle: "r_phase s = Popped (Inr (i, mo)) \<Longrightarrow> i = '''' \<or> mo = None \<Longrightarrow>
    run_step wall s (s\<lparr>r_phase := Looping, r_backoff := Reset (r_backoff s)\<rparr>)"
| pop_message: "r_phase s = Popped (Inr (i, Some m)) \<Longrightarrow> i \<noteq> '''' \<Longrightarrow>
    run_step wall s (s\<lparr>r_phase := Launching i m, r_backoff := Reset (r_backoff s), r_count := int64 (r_count s + 1),
      r_con := (r_con s)\<lparr>c_processed := int64 (c_processed (r_con s) + 1)\<rparr>\<rparr>)"
| launch: "r_phase s = Launching i m \<Longrightarrow> r_sem s < c_concurrentLimit (r_con s) \<Longrightarrow>
    run_step wall s (s\<lparr>r_phase := Looping, r_sem := r_sem s + 1, r_wg := r_wg s + 1, r_jobs := r_jobs s @ [Launched i m]\<rparr>)"
| handle: "r_phase s \<noteq> Crashed \<Longrightarrow> k < length (r_jobs s) \<Longrightarrow> r_jobs s ! k = Launched i m \<Longrightarrow>
    c_handler (r_con s) m (r_world s) = (out, m', w) \<Longrightarrow>
    run_step wall s (s\<lparr>r_jobs := (r_jobs s)[k := Handled i out m'], r_world := w\<rparr>)"
| commit: "r_phase s \<noteq> Crashed \<Longrightarrow> k < length (r_jobs s) \<Longrightarrow> r_jobs s ! k = Handled i out m \<Longrightarrow>
    commitOne wall (r_con s) i out m (r_world s) = (Ret err, c, m', w) \<Longrightarrow>
    run_step wall s (s\<lparr>r_jobs := (r_jobs s)[k := Committed], r_con := incrErrors err c, r_world := w\<rparr>)"
| crash: "r_phase s \<noteq> Crashed \<Longrightarrow> k < length (r_jobs s) \<Longrightarrow> r_jobs s ! k = Handled i out m \<Longrightarrow>
    commitOne wall (r_con s) i out m (r_world s) = (Panics, c, m', w) \<Longrightarrow>
    run_step wall s (s\<lparr>r_phase := Crashed, r_con := c, r_world := w\<rparr>)"
| unlock: "r_phase s \<noteq> Crashed \<Longrightarrow> k < length (r_jobs s) \<Longrightarrow> r_jobs s ! k = Committed \<Longrightarrow>
    run_step wall s (s\<lparr>r_jobs := (r_jobs s)[k := Unlocked], r_sem := r_sem s - 1\<rparr>)"
| finish: "r_phase s \<noteq> Crashed \<Longrightarrow> k < length (r_jobs s) \<Longrightarrow> r_jobs s ! k = Unlocked \<Longrightarrow>
    run_step wall s (s\<lparr>r_jobs := remove_nth k (r_jobs s), r_wg := r_wg s - 1\<rparr>)"
| drained: "r_phase s = Draining \<Longrightarrow> r_wg s = 0 \<Longrightarrow> run_step wall s (s\<lparr>r_phase := Exited (runErr (r_con s))\<rparr>)"
| cancelled: "r_ctx s = None \<Longrightarrow> \<forall>e. r_phase s \<notin> {Exited e, Crashed} \<Longrightarrow> run_step wall s (s\<lparr>r_ctx := Some e\<rparr>)"

abbreviation runs :: "('w \<Rightarrow> int) \<Rightarrow> 'w crun \<Rightarrow> 'w crun \<Rightarrow> bool" where
  "runs wall \<equiv> (run_step wall)\<^sup>*\<^sup>*"


section \<open>What a step leaves alone\<close>

text \<open>The configuration of a consumer, which no operation changes.\<close>

definition same_setup :: "'w Consumer \<Rightarrow> 'w Consumer \<Rightarrow> bool" where
  "same_setup c c' \<longleftrightarrow> c_driver c' = c_driver c \<and> c_channel c' = c_channel c \<and> c_handler c' = c_handler c \<and>
     c_concurrentLimit c' = c_concurrentLimit c \<and> c_autoRestart c' = c_autoRestart c \<and>
     c_maxMessages c' = c_maxMessages c \<and> c_retrySeconds c' = c_retrySeconds c \<and> c_hooks c' = c_hooks c"

lemma same_setup_refl [simp]: "same_setup c c"
  by (simp add: same_setup_def)

lemma same_setup_trans: "same_setup c c1 \<Longrightarrow> same_setup c1 c2 \<Longrightarrow> same_setup c c2"
  by (simp add: same_setup_def)

lemma same_setup_update [simp]:
  "same_setup c (c\<lparr>c_acked := n\<rparr>)" "same_setup c (c\<lparr>c_retried := n\<rparr>)" "same_setup c (c\<lparr>c_requeued := n\<rparr>)"
  "same_setup c (c\<lparr>c_failed := n\<rparr>)" "same_setup c (c\<lparr>c_dropped := n\<rparr>)" "same_setup c (c\<lparr>c_errors := n\<rparr>)"
  "same_setup c (c\<lparr>c_concurrentErr := e\<rparr>)" "same_setup c (c\<lparr>c_processed := n\<rparr>)"
  by (simp_all add: same_setup_def)

lemma run_hook_setup: "run_hook h c m w = (r, c', m', w') \<Longrightarrow> c' = c"
  by (auto simp: run_hook_def split: option.splits prod.splits)

lemma handleError_setup:
  assumes "handleError wall c i m w = (r, c', m', w')"
  shows "same_setup c c' \<and> c_processed c' = c_processed c \<and> c_errors c' = c_errors c \<and> c_concurrentErr c' = c_concurrentErr c"
  using assms
  by (auto simp: handleError_def Let_def dest!: run_hook_setup split: prod.splits if_splits sum.splits)

lemma handle_outcome_setup:
  assumes "handle_outcome wall c i out m w = (r, c', m', w')"
  shows "same_setup c c' \<and> c_processed c' = c_processed c \<and> c_errors c' = c_errors c \<and> c_concurrentErr c' = c_concurrentErr c"
  using assms
  by (auto simp: handle_outcome_def handleRetry_eq handleRequeue_def handleDrop_def handleAck_def Let_def
      dest!: run_hook_setup handleError_setup split: prod.splits if_splits sum.splits outcome.splits option.splits)

lemma commitOne_setup:
  assumes "commitOne wall c i out m w = (r, c', m', w')"
  shows "same_setup c c' \<and> c_processed c' = c_processed c \<and> c_errors c' = c_errors c \<and> c_concurrentErr c' = c_concurrentErr c"
  using assms
  by (auto simp: commitOne_def dest!: handle_outcome_setup handleError_setup
      split: prod.splits exit.splits intro: same_setup_trans)

lemma incrErrors_setup: "same_setup c (incrErrors e c)" "c_processed (incrErrors e c) = c_processed c"
  by (auto simp: incrErrors_def Let_def same_setup_def split: option.splits)

section \<open>Concurrency and the message limit\<close>

abbreviation holds_token :: "job \<Rightarrow> bool" where
  "holds_token j \<equiv> j \<noteq> Unlocked"

definition tokens :: "job list \<Rightarrow> nat" where
  "tokens js = length (filter holds_token js)"

lemma tokens_simps [simp]: "tokens [] = 0" "tokens (js @ [Launched i m]) = Suc (tokens js)" "tokens js \<le> length js"
  by (simp_all add: tokens_def)

lemma tokens_split:
  assumes "k < length js"
  shows "tokens js = tokens (take k js) + (if holds_token (js ! k) then 1 else 0) + tokens (drop (Suc k) js)"
  by (subst (1) id_take_nth_drop[OF assms]) (simp add: tokens_def)

lemma tokens_update:
  assumes "k < length js" and "holds_token (js ! k)"
  shows "tokens (js[k := j]) = (if holds_token j then tokens js else tokens js - 1)" "0 < tokens js"
  using assms tokens_split[of k js] tokens_split[of k "js[k := j]"] by simp_all

lemma tokens_remove:
  assumes "k < length js" and "js ! k = Unlocked"
  shows "tokens (remove_nth k js) = tokens js" "length (remove_nth k js) = length js - 1"
  using assms tokens_split[of k js] by (simp_all add: remove_nth_def tokens_def min_def)

definition run_inv :: "'w Consumer \<Rightarrow> 'w crun \<Rightarrow> bool" where
  "run_inv c s \<longleftrightarrow> same_setup c (r_con s) \<and> r_wg s = int (length (r_jobs s)) \<and> r_sem s = int (tokens (r_jobs s)) \<and>
     r_sem s \<le> c_concurrentLimit c \<and> (\<forall>e. r_phase s = Exited e \<longrightarrow> r_jobs s = []) \<and>
     in_int64 (r_count s) \<and> c_processed (r_con s) = int64 (c_processed c + r_count s) \<and>
     (c_autoRestart c \<longrightarrow> 0 < c_maxMessages c \<longrightarrow> r_count s \<le> c_maxMessages c \<and>
        (r_phase s = Popping \<or> (\<exists>p. r_phase s = Popped p) \<longrightarrow> r_count s < c_maxMessages c))"

lemma run_inv_init:
  assumes "0 \<le> c_concurrentLimit c" and "in_int64 (c_processed c)"
  shows "run_inv c (run_init c ctx w)"
  using assms by (simp add: run_inv_def run_init_def in_int64_def)

lemma run_inv_step:
  assumes "run_step wall s s'" and "run_inv c s" and "in_int64 (c_maxMessages c)"
  shows "run_inv c s'"
  using assms(1,2)
proof (induction rule: run_step.induct)
  case (poll s)
  then show ?case by (auto simp: run_inv_def limit_reached_def same_setup_def)
next
  case (pop_fatal s e)
  then show ?case using incrErrors_setup(1)[of "r_con s"] by (auto simp: run_inv_def recordErr_def incrErrors_setup(2) intro: same_setup_trans)
next
  case (pop_message s i m)
  have room: "r_count s + 1 \<le> c_maxMessages c \<and> int64 (r_count s + 1) = r_count s + 1"
    if "c_autoRestart c" "0 < c_maxMessages c"
    using pop_message that assms(3) by (auto simp: run_inv_def in_int64_def intro!: int64_id)
  show ?case using pop_message room
    by (auto simp: run_inv_def int64_add int64_in_range add.assoc intro: same_setup_trans)
next
  case (launch s i m)
  then show ?case by (auto simp: run_inv_def same_setup_def)
next
  case (handle s k i m out m' w)
  then show ?case by (auto simp: run_inv_def tokens_update)
next
  case (commit s k i out m err c1 m' w)
  then show ?case using commitOne_setup[OF commit(4)] incrErrors_setup(1)[of c1]
    by (auto simp: run_inv_def tokens_update incrErrors_setup(2) intro: same_setup_trans)
next
  case (crash s k i out m c1 m' w)
  then show ?case using commitOne_setup[OF crash(4)] by (auto simp: run_inv_def intro: same_setup_trans)
next
  case (unlock s k)
  then show ?case using tokens_update[of k "r_jobs s"] by (auto simp: run_inv_def of_nat_diff)
next
  case (finish s k)
  then show ?case by (auto simp: run_inv_def tokens_remove of_nat_diff)
qed (simp_all add: run_inv_def)

lemma run_inv_runs:
  assumes "runs wall (run_init c ctx w) s" and "0 \<le> c_concurrentLimit c" and "in_int64 (c_processed c)" and "in_int64 (c_maxMessages c)"
  shows "run_inv c s"
  using assms(1) by (induction rule: rtranclp_induct) (auto intro: run_inv_init run_inv_step assms(2-4))

section \<open>Progress and shutdown\<close>

text \<open>Handlers that keep the driver's invariant, and hooks that return.\<close>

definition benign :: "(string \<Rightarrow> 'w \<Rightarrow> bool) \<Rightarrow> 'w Consumer \<Rightarrow> bool" where
  "benign dok c \<longleftrightarrow> silent_hooks (c_hooks c) \<and>
     (\<forall>m w out m' w'. c_handler c m w = (out, m', w') \<longrightarrow> dok (c_channel c) w \<longrightarrow> dok (c_channel c) w')"

lemma run_hook_silent_only: "silent_hook h \<Longrightarrow> run_hook h c m w = (r, c', m', w') \<Longrightarrow> r = Ret None \<and> c' = c \<and> w' = w"
  by (metis prod.inject run_hook_silent)

context queue_driver begin

lemma driver_wf:
  assumes "wf ch w"
  shows "D_Ack D ch i w = (r, w') \<Longrightarrow> wf ch w'" "D_Drop D ch i w = (r, w') \<Longrightarrow> wf ch w'"
    "D_Fail D ch i w = (r, w') \<Longrightarrow> wf ch w'" "D_Requeue D ch i w = (r, w') \<Longrightarrow> wf ch w'"
    "D_Retry D ch i d w = (b, w') \<Longrightarrow> wf ch w'" "D_Pop D ch pt ht ctx w = Some (p, w') \<Longrightarrow> wf ch w'"
  using Ack_law[OF assms] Drop_law[OF assms] Fail_law[OF assms] Requeue_law[OF assms] Retry_law[OF assms] apply blast+
  using Pop_law[OF assms, of pt ht ctx] by auto

lemma Pop_total: "wf ch w \<Longrightarrow> \<exists>p w'. D_Pop D ch pt ht ctx w = Some (p, w')"
  using Pop_law by blast

lemma handleError_wf:
  assumes "c_driver c = D" and "wf (c_channel c) w" and "silent_hooks (c_hooks c)" and "handleError wall c i m w = (r, c', m', w')"
  shows "wf (c_channel c) w' \<and> r \<noteq> Panics"
proof -
  obtain al m1 where al: "AttemptsAllowed m = (al, m1)" by force
  define d where "d = RetrySeconds (c_retrySeconds c) (Attempts m1)"
  obtain b w1 where re: "D_Retry D (c_channel c) i d w = (b, w1)" by force
  obtain b' w2 where fl: "D_Fail D (c_channel c) i w = (b', w2)" by force
  have w: "wf (c_channel c) w1" "wf (c_channel c) w2" using driver_wf[OF assms(2)] re fl by blast+
  have h: "silent_hook (OnRetry (c_hooks c))" "silent_hook (OnFail (c_hooks c))" using assms(3) by (simp_all add: silent_hooks_def)
  show ?thesis
  proof (cases al)
    case True
    consider e where "b = Inl e" | "b = Inr False" | "b = Inr True" by (cases b) auto
    then show ?thesis using assms(1,4) True al re w
      by cases (auto simp: handleError_def Let_def d_def[symmetric] dest!: run_hook_silent_only[OF h(1)])
  next
    case False
    then show ?thesis using assms(1,4) al fl w
      by (auto simp: handleError_def Let_def split: sum.splits dest!: run_hook_silent_only[OF h(2)])
  qed
qed

lemma handle_outcome_wf:
  assumes "c_driver c = D" and "wf (c_channel c) w" and "silent_hooks (c_hooks c)" and "handle_outcome wall c i out m w = (r, c', m', w')"
  shows "wf (c_channel c) w' \<and> (r = Panics \<longrightarrow> out = Panicked)"
proof -
  obtain b1 w1 where rq: "D_Requeue D (c_channel c) i w = (b1, w1)" by force
  obtain b2 w2 where dr: "D_Drop D (c_channel c) i w = (b2, w2)" by force
  obtain b3 w3 where ak: "D_Ack D (c_channel c) i w = (b3, w3)" by force
  have w: "wf (c_channel c) w1" "wf (c_channel c) w2" "wf (c_channel c) w3" using driver_wf[OF assms(2)] rq dr ak by blast+
  have h: "silent_hook (OnRequeue (c_hooks c))" "silent_hook (OnDrop (c_hooks c))" "silent_hook (OnAck (c_hooks c))"
    using assms(3) by (simp_all add: silent_hooks_def)
  show ?thesis
  proof (cases out)
    case (Returned res err)
    then show ?thesis
      using assms(1,4) rq dr ak w
      by (auto simp: handle_outcome_def handleRetry_eq handleRequeue_def handleDrop_def handleAck_def Let_def
          split: option.splits if_splits sum.splits
          dest!: run_hook_silent_only[OF h(1)] run_hook_silent_only[OF h(2)] run_hook_silent_only[OF h(3)] handleError_wf[OF assms(1-3)])
  qed (use assms in \<open>simp add: handle_outcome_def\<close>)
qed

lemma commitOne_wf:
  assumes "c_driver c = D" and "wf (c_channel c) w" and "silent_hooks (c_hooks c)" and "commitOne wall c i out m w = (r, c', m', w')"
  shows "wf (c_channel c) w' \<and> r \<noteq> Panics"
proof -
  obtain r1 c1 m1 w1 where b: "handle_outcome wall c i out m w = (r1, c1, m1, w1)" by (metis prod_cases4)
  have w1: "wf (c_channel c) w1" using handle_outcome_wf[OF assms(1-3) b] by blast
  have c1: "c_driver c1 = D" "c_channel c1 = c_channel c" "silent_hooks (c_hooks c1)"
    using handle_outcome_setup[OF b] assms(1,3) by (auto simp: same_setup_def)
  show ?thesis using assms(4) b w1 handleError_wf[of c1 w1 wall i m1] c1
    by (fastforce simp: commitOne_def split: exit.splits prod.splits)
qed

definition live_inv :: "'w Consumer \<Rightarrow> 'w crun \<Rightarrow> bool" where
  "live_inv c s \<longleftrightarrow> run_inv c s \<and> wf (c_channel c) (r_world s) \<and> r_phase s \<noteq> Crashed"

lemma live_inv_step:
  assumes "run_step wall s s'" and "live_inv c s" and "c_driver c = D" and "benign wf c" and "in_int64 (c_maxMessages c)"
  shows "live_inv c s'"
proof -
  have iv: "run_inv c s'" using run_inv_step[OF assms(1)] assms(2,5) by (simp add: live_inv_def)
  have su: "same_setup c (r_con s)" using assms(2) by (simp add: live_inv_def run_inv_def)
  from assms(1,2) have "wf (c_channel c) (r_world s') \<and> r_phase s' \<noteq> Crashed"
  proof (cases rule: run_step.cases)
    case (pop ctx p w)
    then show ?thesis using driver_wf(6)[of "c_channel c" "r_world s"] assms(2,3) su
      by (auto simp: live_inv_def same_setup_def)
  next
    case (handle k i m out m' w)
    then show ?thesis using assms(2,4) su by (auto simp: live_inv_def same_setup_def benign_def)
  next
    case (commit k i out m err c1 m' w)
    then show ?thesis using commitOne_wf[of "r_con s" "r_world s" wall i out m] assms(2,3,4) su
      by (auto simp: live_inv_def same_setup_def benign_def)
  next
    case (crash k i out m c1 m' w)
    then show ?thesis using commitOne_wf[of "r_con s" "r_world s" wall i out m] assms(2,3,4) su
      by (auto simp: live_inv_def same_setup_def benign_def)
  qed (simp_all add: live_inv_def)
  then show ?thesis using iv by (simp add: live_inv_def)
qed

lemma live_inv_runs:
  assumes "runs wall s s'" and "live_inv c s" and "c_driver c = D" and "benign wf c" and "in_int64 (c_maxMessages c)"
  shows "live_inv c s'"
  using assms(1,2) by (induction rule: rtranclp_induct) (auto intro: live_inv_step[OF _ _ assms(3-5)])

text \<open>Some goroutine can always go on: every running job can, and the polling goroutine waits only
  for running jobs.\<close>

lemma job_progress:
  assumes "r_phase s \<noteq> Crashed" and "k < length (r_jobs s)"
  shows "\<exists>s'. run_step wall s s' \<and> r_ctx s' = r_ctx s"
proof (cases "r_jobs s ! k")
  case (Launched i m)
  obtain out m' w where "c_handler (r_con s) m (r_world s) = (out, m', w)" by (metis prod_cases3)
  from run_step.handle[OF assms Launched this] show ?thesis by fastforce
next
  case (Handled i out m)
  obtain r c1 m' w where run: "commitOne wall (r_con s) i out m (r_world s) = (r, c1, m', w)" by (metis prod_cases4)
  show ?thesis
  proof (cases r)
    case (Ret err)
    then show ?thesis using run_step.commit[OF assms Handled] run by fastforce
  next
    case Panics
    then show ?thesis using run_step.crash[OF assms Handled] run by fastforce
  qed
next
  case Committed
  from run_step.unlock[OF assms this] show ?thesis by fastforce
next
  case Unlocked
  from run_step.finish[OF assms this] show ?thesis by fastforce
qed

lemma popped_progress:
  assumes "r_phase s = Popped p"
  shows "\<exists>s'. run_step wall s s' \<and> r_ctx s' = r_ctx s"
proof (cases p)
  case (Inl e)
  then show ?thesis using assms run_step.pop_ended[of s e] run_step.pop_retryable[of s e] run_step.pop_fatal[of s e]
    by (cases "r_ctx s = None"; cases "isRetryablePopError (Some e)") fastforce+
next
  case (Inr x)
  then obtain i mo where "r_phase s = Popped (Inr (i, mo))" using assms by (cases x) simp
  then show ?thesis using run_step.pop_idle[of s i mo] run_step.pop_message[of s i]
    by (cases "i = ''''"; cases mo) fastforce+
qed

lemma backoff_progress:
  assumes "r_phase s = BackingOff"
  shows "\<exists>s'. run_step wall s s' \<and> r_ctx s' = r_ctx s"
proof (cases "waitForPopRetryBackoff (r_ctx s) None (Current (Some (r_backoff s)))")
  case None
  from run_step.backoff_over[OF assms _ None] show ?thesis by fastforce
next
  case (Some e)
  from run_step.backoff_cut[OF assms _ Some] show ?thesis by fastforce
qed

lemma run_progress:
  assumes "live_inv c s" and "c_driver c = D" and "0 < c_concurrentLimit c" and "\<forall>e. r_phase s \<noteq> Exited e"
  shows "\<exists>s'. run_step wall s s' \<and> r_ctx s' = r_ctx s"
proof (cases "r_phase s")
  case Looping
  show ?thesis
  proof (cases "limit_reached (r_con s) (r_count s) \<or> r_ctx s \<noteq> None")
    case True
    then show ?thesis using run_step.enough[OF Looping] run_step.ctx_done[OF Looping] by fastforce
  next
    case False
    then show ?thesis using run_step.poll[OF Looping] by fastforce
  qed
next
  case Popping
  have "c_driver (r_con s) = D" "wf (c_channel (r_con s)) (r_world s)"
    using assms(1,2) by (auto simp: live_inv_def run_inv_def same_setup_def)
  then obtain p w where "D_Pop (c_driver (r_con s)) (c_channel (r_con s)) (c_PopTimeout (r_con s)) (c_handleTimeout (r_con s))
      (r_ctx s) (r_world s) = Some (p, w)"
    using Pop_total by metis
  from run_step.pop[OF Popping _ this] show ?thesis by fastforce
next
  case (Popped p)
  then show ?thesis by (rule popped_progress)
next
  case BackingOff
  then show ?thesis by (rule backoff_progress)
next
  case (Launching i m)
  show ?thesis
  proof (cases "r_sem s < c_concurrentLimit (r_con s)")
    case True
    from run_step.launch[OF Launching this] show ?thesis by fastforce
  next
    case False
    then have "0 < length (r_jobs s)"
      using assms(1,3) tokens_simps(3)[of "r_jobs s"] by (auto simp: live_inv_def run_inv_def same_setup_def simp del: tokens_simps)
    then show ?thesis using job_progress[of s 0] Launching by simp
  qed
next
  case Draining
  show ?thesis
  proof (cases "r_wg s = 0")
    case True
    from run_step.drained[OF Draining this] show ?thesis by fastforce
  next
    case False
    then show ?thesis using job_progress[of s 0] Draining assms(1) by (simp add: live_inv_def run_inv_def)
  qed
qed (use assms(1,4) in \<open>auto simp: live_inv_def\<close>)

end

text \<open>Once the context has ended, every step brings the end nearer.\<close>

fun phase_weight :: "phase \<Rightarrow> nat" where
  "phase_weight Crashed = 0" | "phase_weight (Exited e) = 1" | "phase_weight Draining = 2" | "phase_weight Looping = 3"
| "phase_weight BackingOff = 4" | "phase_weight (Launching i m) = 8" | "phase_weight (Popped p) = 9" | "phase_weight Popping = 10"

fun job_weight :: "job \<Rightarrow> nat" where
  "job_weight (Launched i m) = 4" | "job_weight (Handled i out m) = 3" | "job_weight Committed = 2" | "job_weight Unlocked = 1"

definition weight :: "'w crun \<Rightarrow> nat" where
  "weight s = phase_weight (r_phase s) + (\<Sum>j \<leftarrow> r_jobs s. job_weight j)"

lemma jobs_weight_split:
  assumes "k < length js"
  shows "(\<Sum>j \<leftarrow> js. job_weight j) = (\<Sum>j \<leftarrow> take k js. job_weight j) + job_weight (js ! k) + (\<Sum>j \<leftarrow> drop (Suc k) js. job_weight j)"
  by (subst (1) id_take_nth_drop[OF assms]) simp

lemma weight_update:
  assumes "k < length (r_jobs s)"
  shows "weight (s\<lparr>r_jobs := (r_jobs s)[k := j]\<rparr>) + job_weight (r_jobs s ! k) = weight s + job_weight j"
    "weight (s\<lparr>r_jobs := remove_nth k (r_jobs s)\<rparr>) + job_weight (r_jobs s ! k) = weight s"
  using assms jobs_weight_split[OF assms] jobs_weight_split[of k "(r_jobs s)[k := j]"]
  by (simp_all add: weight_def remove_nth_def)

lemma weight_frame [simp]:
  "weight (s\<lparr>r_world := w\<rparr>) = weight s" "weight (s\<lparr>r_con := c\<rparr>) = weight s" "weight (s\<lparr>r_sem := n\<rparr>) = weight s"
  "weight (s\<lparr>r_wg := n\<rparr>) = weight s"
  by (simp_all add: weight_def)

lemma weight_step:
  assumes "run_step wall s s'" and "r_ctx s \<noteq> None"
  shows "weight s' < weight s \<and> r_ctx s' \<noteq> None"
  using assms
proof (cases rule: run_step.cases)
  case (handle k i m out m' w)
  then show ?thesis using weight_update(1)[OF handle(3), of "Handled i out m'"] assms(2) by simp
next
  case (commit k i out m err c1 m' w)
  then show ?thesis using weight_update(1)[OF commit(3), of Committed] assms(2) by simp
next
  case (crash k i out m c1 m' w)
  then show ?thesis using assms(2) by (cases "r_phase s") (auto simp: weight_def)
next
  case (unlock k)
  then show ?thesis using weight_update(1)[OF unlock(3), of Unlocked] assms(2) by simp
next
  case (finish k)
  then show ?thesis using weight_update(2)[OF finish(3)] assms(2) by simp
qed (auto simp: weight_def)

lemma weight_bound: "weight s \<le> 10 + 4 * length (r_jobs s)"
proof -
  have "(\<Sum>j \<leftarrow> js. job_weight j) \<le> 4 * length js" for js
  proof (induction js)
    case (Cons j js)
    then show ?case by (cases j) simp_all
  qed simp
  moreover have "phase_weight (r_phase s) \<le> 10" by (cases "r_phase s") simp_all
  ultimately show ?thesis unfolding weight_def by (meson add_mono)
qed

lemma weight_steps:
  assumes "(run_step wall ^^ n) s s'" and "r_ctx s \<noteq> None"
  shows "n + weight s' \<le> weight s \<and> r_ctx s' \<noteq> None"
  using assms
proof (induction n arbitrary: s')
  case (Suc n)
  then obtain s1 where "(run_step wall ^^ n) s s1" "run_step wall s1 s'" by auto
  then show ?case using Suc.IH[of s1] Suc.prems(2) weight_step[of wall s1 s'] by simp
qed simp

section \<open>Messages in flight\<close>

text \<open>The ids a run has claimed and not yet committed.\<close>

fun job_ids :: "job \<Rightarrow> string list" where
  "job_ids (Launched i m) = [i]" | "job_ids (Handled i out m) = [i]" | "job_ids _ = []"

fun phase_ids :: "phase \<Rightarrow> string list" where
  "phase_ids (Popped (Inr (i, Some m))) = [i]" | "phase_ids (Launching i m) = [i]" | "phase_ids _ = []"

definition in_flight :: "'w crun \<Rightarrow> string list" where
  "in_flight s = phase_ids (r_phase s) @ concat (map job_ids (r_jobs s))"

lemma ids_split:
  assumes "k < length js"
  shows "concat (map job_ids js) = concat (map job_ids (take k js)) @ job_ids (js ! k) @ concat (map job_ids (drop (Suc k) js))"
  by (subst (1) id_take_nth_drop[OF assms]) simp

lemma ids_update:
  assumes "k < length js"
  shows "concat (map job_ids (js[k := j])) = concat (map job_ids (take k js)) @ job_ids j @ concat (map job_ids (drop (Suc k) js))"
    "concat (map job_ids (remove_nth k js)) = concat (map job_ids (take k js)) @ concat (map job_ids (drop (Suc k) js))"
  using ids_split[of k "js[k := j]"] assms by (simp_all add: remove_nth_def)

lemma polled_good:
  assumes "q_polled now q q'" and "good q"
  shows "good q' \<and> reserved_ids q \<subseteq> reserved_ids q'"
proof -
  obtain dl where "q' = q \<or> q' = snd (q_pop now dl q) \<or>
      (\<exists>i. fst (q_pop now dl q) = Some i \<and> q' = q_unreserve i (snd (q_pop now dl q)))"
    using assms(1) by (auto simp: q_polled_def)
  moreover have "reserved_ids q \<subseteq> reserved_ids (snd (q_pop now dl q))"
    by (cases rule: q_pop_cases[of now dl q]) auto
  moreover have "reserved_ids q \<subseteq> reserved_ids (q_unreserve i (snd (q_pop now dl q)))" if "fst (q_pop now dl q) = Some i" for i
    using that assms(2) by (cases rule: q_pop_cases[of now dl q]) (auto simp: good_def exclusive_unfold)
  ultimately show ?thesis
    using good_pop[OF assms(2)] assms(2) exclusive_unreserve placed_unreserve by (auto simp: good_def)
qed

lemma claimed_fresh:
  assumes "q_claimed i m now q q'" and "good q"
  shows "i \<notin> reserved_ids q" "i \<in> reserved_ids q'"
proof -
  obtain dl where pop: "q_pop now dl q = (Some i, q')" using assms(1) by (auto simp: q_claimed_def)
  have "i \<notin> reserved_ids q \<and> i \<in> reserved_ids q'"
    using pop assms(2) by (cases rule: q_pop_cases[of now dl q]) (auto simp: good_def exclusive_unfold)
  then show "i \<notin> reserved_ids q" "i \<in> reserved_ids q'" by simp_all
qed

lemma applied_good:
  assumes "applied d i now q q'" and "good q" and "i \<in> reserved_ids q"
  shows "good q' \<and> reserved_ids q - {i} \<subseteq> reserved_ids q'"
proof (cases d)
  case (ToRetry x)
  then obtain m wall score where "q_retry i (retried wall x m) (retry_mode x) score q = (True, q')"
    using assms(1) by (auto simp: q_moved_def)
  then have q': "q' = snd (q_retry i (retried wall x m) (retry_mode x) score q)" by simp
  have "reserved_ids q' = reserved_ids q - {i}"
    unfolding q' using assms(3) by (simp add: q_retry_def q_push_def q_enqueue_def)
  then show ?thesis using good_retry[OF assms(2) retried_Status] q' by auto
qed (use assms good_commit[OF assms(2,3)] in \<open>auto simp: q_commit_defs\<close>)

text \<open>Handlers that do not touch the channel they serve.\<close>

definition aloof :: "(string \<Rightarrow> 'w \<Rightarrow> bool) \<Rightarrow> ('w \<Rightarrow> bool) \<Rightarrow> (string \<Rightarrow> 'w \<Rightarrow> qstate) \<Rightarrow> 'w Consumer \<Rightarrow> bool" where
  "aloof dok calm after c \<longleftrightarrow> benign dok c \<and> (\<forall>m w out m' w'. c_handler c m w = (out, m', w') \<longrightarrow>
     (calm w \<longrightarrow> calm w') \<and> after (c_channel c) w' = after (c_channel c) w)"

context queue_driver begin

definition held_inv :: "'w Consumer \<Rightarrow> 'w crun \<Rightarrow> bool" where
  "held_inv c s \<longleftrightarrow> live_inv c s \<and> calm (r_world s) \<and> good (after (c_channel c) (r_world s)) \<and>
     distinct (in_flight s) \<and> set (in_flight s) \<subseteq> reserved_ids (after (c_channel c) (r_world s))"

lemma held_pop:
  assumes "held_inv c s" and "D_Pop D (c_channel c) pt ht ctx (r_world s) = Some (p, w)"
  defines "q \<equiv> after (c_channel c) (r_world s)" and "q' \<equiv> after (c_channel c) w"
  shows "calm w \<and> good q' \<and> reserved_ids q \<subseteq> reserved_ids q' \<and>
    set (phase_ids (Popped p)) \<subseteq> reserved_ids q' - reserved_ids q \<and> distinct (phase_ids (Popped p))"
proof -
  have h: "calm (r_world s)" "good q" "wf (c_channel c) (r_world s)" "before (c_channel c) (r_world s) = q"
    using assms(1) calm_before by (auto simp: q_def held_inv_def live_inv_def)
  from Pop_law[OF h(3), of pt ht ctx] assms(2) h(1,4) have w1: "calm w" and pol: "q_polled (clk (r_world s)) q q'"
    and cl: "\<And>i m. p = Inr (i, Some m) \<Longrightarrow> q_claimed i m (clk (r_world s)) q q'" by (auto simp: q'_def)
  have "set (phase_ids (Popped p)) \<subseteq> reserved_ids q' - reserved_ids q \<and> distinct (phase_ids (Popped p))"
    using claimed_fresh[OF cl h(2)] by (cases "Popped p" rule: phase_ids.cases) auto
  then show ?thesis using w1 polled_good[OF pol h(2)] by blast
qed

lemma held_commit:
  assumes "held_inv c s" and "c_driver c = D" and "silent_hooks (c_hooks c)" and "k < length (r_jobs s)" and "r_jobs s ! k = Handled i out m"
    and run: "commitOne wall (r_con s) i out m (r_world s) = (r, c', m', w)"
  defines "q \<equiv> after (c_channel c) (r_world s)" and "q' \<equiv> after (c_channel c) w"
  shows "calm w \<and> good q' \<and> i \<in> set (in_flight s) \<and> reserved_ids q - {i} \<subseteq> reserved_ids q'"
proof -
  have h: "calm (r_world s)" "good q" "set (in_flight s) \<subseteq> reserved_ids q" and w: "wf (c_channel c) (r_world s)"
    and b: "before (c_channel c) (r_world s) = q" and su: "same_setup c (r_con s)"
    using assms(1) calm_before by (auto simp: q_def held_inv_def live_inv_def run_inv_def)
  have i: "i \<in> set (in_flight s)" using ids_split[OF assms(4)] assms(5) by (auto simp: in_flight_def)
  have "c_driver (r_con s) = D" "c_channel (r_con s) = c_channel c" "silent_hooks (c_hooks (r_con s))"
    using su assms(2,3) by (auto simp: same_setup_def)
  then have "calm w \<and> (q' = q \<or> (\<exists>d now. applied d i now q q'))"
    using commitOne_settles[of "r_con s" "r_world s" wall i out m] run w h(1) b by (auto simp: settled_def q_def q'_def)
  then show ?thesis using applied_good h(2,3) i by blast
qed

lemma held_inv_step:
  assumes "run_step wall s s'" and h: "held_inv c s" and D: "c_driver c = D" and al: "aloof wf calm after c"
    and "in_int64 (c_maxMessages c)"
  shows "held_inv c s'"
proof -
  have be: "benign wf c" "silent_hooks (c_hooks c)" using al by (simp_all add: aloof_def benign_def)
  have lv: "live_inv c s'" using live_inv_step[OF assms(1) _ D be(1) assms(5)] h by (simp add: held_inv_def)
  have su: "same_setup c (r_con s)" using h by (simp add: held_inv_def live_inv_def run_inv_def)
  from assms(1) have "calm (r_world s') \<and> good (after (c_channel c) (r_world s')) \<and> distinct (in_flight s') \<and>
     set (in_flight s') \<subseteq> reserved_ids (after (c_channel c) (r_world s'))"
  proof (cases rule: run_step.cases)
    case (pop ctx p w)
    then show ?thesis using held_pop[OF h, of "c_PopTimeout (r_con s)" "c_handleTimeout (r_con s)" ctx p w] h D su
      by (auto simp: held_inv_def same_setup_def in_flight_def)
  next
    case (pop_idle i mo)
    then show ?thesis using h by (cases mo) (auto simp: held_inv_def in_flight_def)
  next
    case (handle k i m out m' w)
    then show ?thesis using h al su ids_split[OF handle(3)] ids_update(1)[OF handle(3), of "Handled i out m'"]
      by (auto simp: held_inv_def in_flight_def aloof_def same_setup_def)
  next
    case (commit k i out m err c1 m' w)
    have dj: "distinct (in_flight s)" using h by (simp add: held_inv_def)
    have ids: "set (in_flight s') \<subseteq> set (in_flight s) - {i}" "distinct (in_flight s')"
      using dj ids_split[OF commit(3)] ids_update(1)[OF commit(3), of Committed] commit(1,4)
      by (auto simp: in_flight_def)
    have "set (in_flight s) \<subseteq> reserved_ids (after (c_channel c) (r_world s))" using h by (simp add: held_inv_def)
    then show ?thesis using held_commit[OF h D be(2) commit(3-5)] ids commit(1) by auto
  next
    case (crash k i out m c1 m' w)
    then show ?thesis using lv by (simp add: live_inv_def)
  next
    case (unlock k)
    then show ?thesis using h ids_split[OF unlock(3)] ids_update(1)[OF unlock(3), of Unlocked]
      by (auto simp: held_inv_def in_flight_def)
  next
    case (finish k)
    then show ?thesis using h ids_split[OF finish(3)] ids_update(2)[OF finish(3)]
      by (auto simp: held_inv_def in_flight_def)
  qed (use h in \<open>auto simp: held_inv_def in_flight_def\<close>)
  then show ?thesis using lv by (simp add: held_inv_def)
qed

lemma held_inv_runs:
  assumes "runs wall s s'" and "held_inv c s" and "c_driver c = D" and "aloof wf calm after c" and "in_int64 (c_maxMessages c)"
  shows "held_inv c s'"
  using assms(1,2) by (induction rule: rtranclp_induct) (auto intro: held_inv_step[OF _ _ assms(3-5)])

end

section \<open>The counters\<close>

definition tally :: "'w Consumer \<Rightarrow> int" where
  "tally c = c_acked c + c_retried c + c_requeued c + c_failed c + c_dropped c + c_errors c"

lemma int64_shift: "int64 (a + int64 b) = int64 (a + b)" "int64 (int64 b + a) = int64 (b + a)" "int64 (a - int64 b) = int64 (a - b)"
proof -
  show "int64 (a + int64 b) = int64 (a + b)" "int64 (int64 b + a) = int64 (b + a)" by (rule int64_add)+
  show "int64 (a - int64 b) = int64 (a - b)" unfolding int64_cong using int64_mod[of b] by (metis mod_diff_right_eq)
qed

lemma tally_counted: "int64 (tally (counted d c) + x) = int64 (tally c + x + 1)"
proof -
  have "int64 (y + int64 z + x) = int64 (y + z + x)" for y z
    using int64_shift(1)[of "y + x" z] by (simp add: algebra_simps)
  from this[of "tally c - c_acked c" "c_acked c + 1"] this[of "tally c - c_retried c" "c_retried c + 1"]
    this[of "tally c - c_requeued c" "c_requeued c + 1"] this[of "tally c - c_failed c" "c_failed c + 1"]
    this[of "tally c - c_dropped c" "c_dropped c + 1"]
  show ?thesis by (cases d) (simp_all add: tally_def algebra_simps)
qed

lemma tally_error: "int64 (tally (incrErrors (Some e) c) + x) = int64 (tally c + x + 1)"
proof -
  have "int64 (tally c - c_errors c + x + int64 (c_errors c + 1)) = int64 (tally c + x + 1)"
    using int64_shift(1)[of "tally c - c_errors c + x" "c_errors c + 1"] by (simp add: add.commute add.left_commute)
  then show ?thesis by (auto simp: incrErrors_def tally_def Let_def algebra_simps)
qed

lemma handleError_counts:
  assumes "silent_hooks (c_hooks c)" and "handleError wall c i m w = (r, c', m', w')"
  shows "(r = Ret None \<and> (\<exists>d. c' = counted d c)) \<or> (\<exists>e. r = Ret (Some e) \<and> c' = c)"
proof -
  have h: "silent_hook (OnRetry (c_hooks c))" "silent_hook (OnFail (c_hooks c))" using assms(1) by (simp_all add: silent_hooks_def)
  have "\<exists>d. c\<lparr>c_retried := int64 (c_retried c + 1)\<rparr> = counted d c" "\<exists>d. c\<lparr>c_failed := int64 (c_failed c + 1)\<rparr> = counted d c"
    by (auto intro: exI[of _ "ToRetry 0"] exI[of _ ToFail])
  then show ?thesis using assms(2)
    by (auto simp: handleError_def Let_def split: prod.splits if_splits sum.splits
        dest!: run_hook_silent_only[OF h(1)] run_hook_silent_only[OF h(2)])
qed

lemma commitOne_counts:
  assumes "silent_hooks (c_hooks c)" and "out \<noteq> Panicked" and "commitOne wall c i out m w = (r, c', m', w')"
  shows "(r = Ret None \<and> (\<exists>d. c' = counted d c)) \<or> (\<exists>e. r = Ret (Some e) \<and> c' = c)"
proof -
  have h: "silent_hook (OnRequeue (c_hooks c))" "silent_hook (OnDrop (c_hooks c))" "silent_hook (OnAck (c_hooks c))"
    using assms(1) by (simp_all add: silent_hooks_def)
  have ex: "\<exists>d. c\<lparr>c_requeued := int64 (c_requeued c + 1)\<rparr> = counted d c" "\<exists>d. c\<lparr>c_dropped := int64 (c_dropped c + 1)\<rparr> = counted d c"
      "\<exists>d. c\<lparr>c_acked := int64 (c_acked c + 1)\<rparr> = counted d c"
    by (auto intro: exI[of _ ToRequeue] exI[of _ ToDrop] exI[of _ ToAck])
  obtain r1 c1 m1 w1 where run: "handle_outcome wall c i out m w = (r1, c1, m1, w1)" by (metis prod_cases4)
  obtain res err where out: "out = Returned res err" using assms(2) by (cases out) auto
  have "(r1 = Ret None \<and> (\<exists>d. c1 = counted d c)) \<or> (\<exists>e. r1 = Ret (Some e) \<and> c1 = c)"
    using run ex unfolding out
    by (auto simp: handle_outcome_def handleRetry_eq handleRequeue_def handleDrop_def handleAck_def Let_def
        split: option.splits if_splits sum.splits prod.splits
        dest!: run_hook_silent_only[OF h(1)] run_hook_silent_only[OF h(2)] run_hook_silent_only[OF h(3)] handleError_counts[OF assms(1)])
  then show ?thesis using assms(3) run by (auto simp: commitOne_def)
qed

text \<open>Handlers that never panic.\<close>

definition unpanicking :: "'w Consumer \<Rightarrow> bool" where
  "unpanicking c \<longleftrightarrow> silent_hooks (c_hooks c) \<and> (\<forall>m w. fst (c_handler c m w) \<noteq> Panicked)"

fun pending :: "phase \<Rightarrow> nat" where
  "pending (Launching i m) = 1" | "pending _ = 0"

definition over :: "phase \<Rightarrow> bool" where
  "over p \<longleftrightarrow> (case p of Draining \<Rightarrow> True | Exited _ \<Rightarrow> True | Crashed \<Rightarrow> True | _ \<Rightarrow> False)"

text \<open>Every processed message is counted once, except that a fatal \<^verbatim>\<open>Pop\<close> error adds one to the errors.\<close>

definition busy :: "'w crun \<Rightarrow> int" where
  "busy s = int (pending (r_phase s) + length (concat (map job_ids (r_jobs s))))"

definition balance_inv :: "'w Consumer \<Rightarrow> 'w crun \<Rightarrow> bool" where
  "balance_inv c s \<longleftrightarrow> same_setup c (r_con s) \<and> (\<forall>i m. Handled i Panicked m \<notin> set (r_jobs s)) \<and>
     (\<exists>f. (f = 0 \<or> f = 1 \<and> over (r_phase s)) \<and>
        int64 (tally (r_con s) + (busy s - f - c_processed (r_con s))) = int64 (tally c - c_processed c))"

lemma busy_phase: "r_jobs s' = r_jobs s \<Longrightarrow> pending (r_phase s') = pending (r_phase s) \<Longrightarrow> busy s' = busy s"
  by (simp add: busy_def)

lemma busy_job:
  assumes "k < length (r_jobs s)"
  shows "busy (s\<lparr>r_jobs := (r_jobs s)[k := j]\<rparr>) = busy s - int (length (job_ids (r_jobs s ! k))) + int (length (job_ids j))"
    "busy (s\<lparr>r_jobs := remove_nth k (r_jobs s)\<rparr>) = busy s - int (length (job_ids (r_jobs s ! k)))"
  unfolding busy_def using ids_update[OF assms] ids_split[OF assms] by simp_all

lemma busy_frame [simp]:
  "busy (s\<lparr>r_world := w\<rparr>) = busy s" "busy (s\<lparr>r_con := c\<rparr>) = busy s" "busy (s\<lparr>r_sem := n\<rparr>) = busy s"
  "busy (s\<lparr>r_wg := n\<rparr>) = busy s"
  by (simp_all add: busy_def)

lemma balance_still:
  assumes "balance_inv c s" and "r_con s' = r_con s" and "busy s' = busy s" and "over (r_phase s) \<longrightarrow> over (r_phase s')"
    and "\<forall>i m. Handled i Panicked m \<notin> set (r_jobs s')"
  shows "balance_inv c s'"
  using assms by (auto simp: balance_inv_def)

lemma balance_commit:
  assumes b: "balance_inv c s" and "unpanicking c" and k: "k < length (r_jobs s)" and j: "r_jobs s ! k = Handled i out m"
    and co: "commitOne wall (r_con s) i out m (r_world s) = (Ret err, c1, m', w)"
  shows "balance_inv c (s\<lparr>r_jobs := (r_jobs s)[k := Committed], r_con := incrErrors err c1, r_world := w\<rparr>)"
    (is "balance_inv c ?s")
proof -
  have su: "same_setup c (r_con s)" and np: "\<forall>i m. Handled i Panicked m \<notin> set (r_jobs s)"
    using b by (simp_all add: balance_inv_def)
  obtain f where f: "f = 0 \<or> f = 1 \<and> over (r_phase s)"
      "int64 (tally (r_con s) + (busy s - f - c_processed (r_con s))) = int64 (tally c - c_processed c)"
    using b by (auto simp: balance_inv_def)
  have out: "out \<noteq> Panicked" using np k j nth_mem by metis
  have hk: "silent_hooks (c_hooks (r_con s))" using su assms(2) by (simp add: same_setup_def unpanicking_def)
  have bu: "busy ?s = busy s - 1" using j busy_job(1)[OF k, of Committed] by simp
  have pr: "c_processed (r_con ?s) = c_processed (r_con s)" "same_setup c (r_con ?s)"
    using commitOne_setup[OF co] incrErrors_setup(2)[of err c1]
      same_setup_trans[OF same_setup_trans[OF su] incrErrors_setup(1)] by auto
  have one: "int64 (tally (r_con ?s) + x) = int64 (tally (r_con s) + x + 1)" for x
    using commitOne_counts[OF hk out co] tally_counted[of _ "r_con s" x] tally_error[of _ "r_con s" x]
    by (auto simp: incrErrors_def)
  have e: "tally (r_con s) + (busy ?s - f - c_processed (r_con ?s)) + 1 = tally (r_con s) + (busy s - f - c_processed (r_con s))"
    using bu pr by simp
  have "int64 (tally (r_con ?s) + (busy ?s - f - c_processed (r_con ?s))) = int64 (tally c - c_processed c)"
    unfolding one e by (rule f(2))
  then show ?thesis using f(1) np pr(2)
    by (auto simp: balance_inv_def dest!: set_update_subset_insert[THEN subsetD])
qed

lemma balance_step:
  assumes "run_step wall s s'" and b: "balance_inv c s" and "unpanicking c"
  shows "balance_inv c s'"
proof -
  have su: "same_setup c (r_con s)" and np: "\<forall>i m. Handled i Panicked m \<notin> set (r_jobs s)"
    using b by (simp_all add: balance_inv_def)
  obtain f where f: "f = 0 \<or> f = 1 \<and> over (r_phase s)"
      "int64 (tally (r_con s) + (busy s - f - c_processed (r_con s))) = int64 (tally c - c_processed c)"
    using b by (auto simp: balance_inv_def)
  note still = balance_still[OF b]
  from assms(1) show ?thesis
  proof (cases rule: run_step.cases)
    case (pop_fatal e)
    then have f0: "f = 0" using f(1) by (simp add: over_def)
    have "int64 (tally (r_con s') + (busy s' - 1 - c_processed (r_con s'))) = int64 (tally c - c_processed c)"
      using f(2) tally_error[of e "r_con s" "busy s - 1 - c_processed (r_con s)"] pop_fatal f0 incrErrors_setup(2)[of "Some e" "r_con s"]
      by (simp add: recordErr_def busy_def)
    then show ?thesis using np pop_fatal same_setup_trans[OF su incrErrors_setup(1)]
      by (auto simp: balance_inv_def over_def recordErr_def)
  next
    case (pop_message i m)
    have eq: "int64 (busy s - f - int64 (c_processed (r_con s) + 1) + (tally (r_con s) + 1)) =
        int64 (busy s - f - (c_processed (r_con s) + 1) + (tally (r_con s) + 1))"
      using int64_shift(3)[of "busy s - f + (tally (r_con s) + 1)" "c_processed (r_con s) + 1"] by (simp add: algebra_simps)
    have "int64 (tally (r_con s') + (busy s' - f - c_processed (r_con s'))) = int64 (tally c - c_processed c)"
      using f(2) eq pop_message by (simp add: busy_def tally_def algebra_simps)
    then show ?thesis using np pop_message f(1) same_setup_trans[OF su] by (auto simp: balance_inv_def over_def)
  next
    case (launch i m)
    then show ?thesis using np by (intro still) (auto simp: busy_def over_def)
  next
    case (handle k i m out m' w)
    have "out \<noteq> Panicked" using handle(5) su assms(3) by (metis fst_conv same_setup_def unpanicking_def)
    then show ?thesis using handle(1,4) busy_job(1)[OF handle(3), of "Handled i out m'"] np
      by (intro still) (auto dest!: set_update_subset_insert[THEN subsetD])
  next
    case (commit k i out m err c1 m' w)
    then show ?thesis using balance_commit[OF b assms(3) commit(3,4,5)] by simp
  next
    case (crash k i out m c1 m' w)
    have "out \<noteq> Panicked" using np crash(3,4) nth_mem by metis
    moreover have "silent_hooks (c_hooks (r_con s))" using su assms(3) by (simp add: same_setup_def unpanicking_def)
    ultimately show ?thesis using commitOne_counts[OF _ _ crash(5)] by simp
  next
    case (unlock k)
    then show ?thesis using busy_job(1)[OF unlock(3), of Unlocked] np
      by (intro still) (auto dest!: set_update_subset_insert[THEN subsetD])
  next
    case (finish k)
    then show ?thesis using busy_job(2)[OF finish(3)] np
      by (intro still) (auto simp: remove_nth_def dest: in_set_takeD in_set_dropD)
  qed (use np in \<open>auto intro!: still busy_phase simp: over_def\<close>)
qed

lemma balance_runs:
  assumes "runs wall (run_init c ctx w) s" and "unpanicking c"
  shows "balance_inv c s"
proof -
  have "balance_inv c (run_init c ctx w)" by (auto simp: balance_inv_def run_init_def busy_def)
  with assms(1) show ?thesis by (induction rule: rtranclp_induct) (auto intro: balance_step[OF _ _ assms(2)])
qed

section \<open>Errors of a run\<close>

definition error_inv :: "'w Consumer \<Rightarrow> bool" where
  "error_inv c \<longleftrightarrow> (c_concurrentErr c = None \<longrightarrow> c_errors c = 0)"

lemma error_inv_incr: "error_inv c \<Longrightarrow> error_inv (incrErrors e c)"
  by (auto simp: error_inv_def incrErrors_def Let_def split: option.splits)

lemma error_step:
  assumes "run_step wall s s'" and "error_inv (r_con s)"
  shows "error_inv (r_con s') \<and> (\<forall>e. r_phase s' = Exited e \<longrightarrow> r_phase s \<noteq> Exited e \<longrightarrow> e = runErr (r_con s'))"
  using assms
proof (cases rule: run_step.cases)
  case (pop_fatal e)
  then show ?thesis using error_inv_incr[OF assms(2)] by (simp add: recordErr_def)
next
  case (commit k i out m err c m' w)
  then have "error_inv c" using commitOne_setup[OF commit(5)] assms(2) by (auto simp: error_inv_def)
  then show ?thesis using commit error_inv_incr by simp
next
  case (crash k i out m c m' w)
  then show ?thesis using commitOne_setup[OF crash(5)] assms(2) by (auto simp: error_inv_def)
qed (simp_all add: error_inv_def)


section \<open>Guarantees\<close>

lemma apply_option_limit: "0 < o_concurrentLimit s \<Longrightarrow> 0 < o_concurrentLimit (apply_option f s)"
  by (cases f) auto

lemma NewConsumer_limit: "0 < c_concurrentLimit (NewConsumer D ch h opts)"
proof -
  have "0 < o_concurrentLimit s \<Longrightarrow>
      0 < o_concurrentLimit (fold (\<lambda>opt s. case opt of None \<Rightarrow> s | Some f \<Rightarrow> apply_option f s) opts s)" for s :: "'a consumerOptions"
    by (induction opts arbitrary: s) (auto simp: apply_option_limit split: option.split)
  from this[of defaultConsumerOptions] show ?thesis
    by (simp add: NewConsumer_def consumer_settings_def defaultConsumerOptions_def Let_def)
qed

lemma NewConsumer_fields [simp]:
  "c_driver (NewConsumer D ch h opts) = D" "c_channel (NewConsumer D ch h opts) = ch" "c_handler (NewConsumer D ch h opts) = h"
  "c_processed (NewConsumer D ch h opts) = 0" "c_errors (NewConsumer D ch h opts) = 0"
  "c_concurrentErr (NewConsumer D ch h opts) = None" "tally (NewConsumer D ch h opts) = 0"
  by (simp_all add: NewConsumer_def tally_def Let_def)

text \<open>C14. At every moment of a run at most \<^verbatim>\<open>concurrentLimit\<close> handler goroutines hold a message, a run
  with \<^verbatim>\<open>autoRestart\<close> and a positive \<^verbatim>\<open>maxMessages\<close> processes at most that many messages, \<^verbatim>\<open>Processed\<close>
  counts them, and when \<^verbatim>\<open>Run\<close> has returned no handler is running.\<close>

theorem consumer_limits:
  fixes D :: "'w driver" and ch :: string and h :: "'w handler" and opts :: "'w ConsumerOption option list"
  defines "c \<equiv> NewConsumer D ch h opts"
  assumes "runs wall (run_init c ctx w) s" and "in_int64 (c_maxMessages c)"
  shows "int (length (filter holds_token (r_jobs s))) \<le> c_concurrentLimit c \<and>
    (c_autoRestart c \<longrightarrow> 0 < c_maxMessages c \<longrightarrow> r_count s \<le> c_maxMessages c) \<and>
    c_processed (r_con s) = r_count s \<and> (\<forall>e. r_phase s = Exited e \<longrightarrow> r_jobs s = [])"
proof -
  have "0 \<le> c_concurrentLimit c" unfolding c_def using NewConsumer_limit by (rule less_imp_le)
  then have "run_inv c s" using run_inv_runs[OF assms(2)] assms(3) by (simp add: c_def in_int64_def)
  then show ?thesis by (auto simp: run_inv_def tokens_def c_def)
qed

text \<open>C15. A run whose context has ended comes to its end: with handlers and hooks that return, the
  steps that remain are bounded by the running jobs, some goroutine can always go on, and the only
  state in which nothing can is the one where \<^verbatim>\<open>Run\<close> has returned and no handler is running.\<close>

theorem consumer_shuts_down:
  fixes D :: "'w driver" and ch :: string and h :: "'w handler" and opts :: "'w ConsumerOption option list"
  defines "c \<equiv> NewConsumer D ch h opts"
  assumes "queue_driver D dok clk before after calm" and "dok ch w" and "benign dok c" and "in_int64 (c_maxMessages c)"
    and "runs wall (run_init c ctx w) s" and "r_ctx s \<noteq> None" and "(run_step wall ^^ n) s s'"
  shows "n \<le> 10 + 4 * length (r_jobs s) \<and>
    ((\<nexists>s''. run_step wall s' s'') \<longrightarrow> (\<exists>e. r_phase s' = Exited e \<and> r_jobs s' = []))"
proof -
  note qd = assms(2)
  have lim: "0 < c_concurrentLimit c" unfolding c_def by (rule NewConsumer_limit)
  have D: "c_driver c = D" "c_channel c = ch" by (simp_all add: c_def)
  have "queue_driver.live_inv dok c (run_init c ctx w)"
    using run_inv_init[of c ctx w] lim assms(3) D by (simp add: queue_driver.live_inv_def[OF qd]) (simp add: run_init_def c_def in_int64_def)
  then have "queue_driver.live_inv dok c s" by (rule queue_driver.live_inv_runs[OF qd assms(6) _ D(1) assms(4,5)])
  then have s': "queue_driver.live_inv dok c s'"
    by (rule queue_driver.live_inv_runs[OF qd relpowp_imp_rtranclp[OF assms(8)] _ D(1) assms(4,5)])
  have "n \<le> 10 + 4 * length (r_jobs s)" using weight_steps[OF assms(8,7)] weight_bound[of s] by linarith
  moreover have "\<exists>e. r_phase s' = Exited e \<and> r_jobs s' = []" if "\<nexists>s''. run_step wall s' s''"
    using queue_driver.run_progress[OF qd s' D(1) lim, of wall] that s'
    by (auto simp: queue_driver.live_inv_def[OF qd] run_inv_def)
  ultimately show ?thesis by blast
qed

text \<open>C16. While no other client works on the channel, reservations do not expire and the handler leaves the channel alone, a run never processes a
  message twice at the same time: the messages between claim and commit are all different and all
  reserved.\<close>

theorem no_double_processing:
  fixes D :: "'w driver" and ch :: string and h :: "'w handler" and opts :: "'w ConsumerOption option list"
  defines "c \<equiv> NewConsumer D ch h opts"
  assumes "queue_driver D dok clk before after calm" and "dok ch w" and "calm w" and "aloof dok calm after c"
    and "in_int64 (c_maxMessages c)" and "good (after ch w)" and "runs wall (run_init c ctx w) s"
  shows "distinct (in_flight s) \<and> set (in_flight s) \<subseteq> reserved_ids (after ch (r_world s))"
proof -
  note qd = assms(2)
  have D: "c_driver c = D" "c_channel c = ch" by (simp_all add: c_def)
  have "0 \<le> c_concurrentLimit c" unfolding c_def using NewConsumer_limit by (rule less_imp_le)
  then have "run_inv c (run_init c ctx w)" by (intro run_inv_init) (simp_all add: c_def in_int64_def)
  then have "queue_driver.held_inv dok after calm c (run_init c ctx w)"
    using assms(3,4,7) D by (simp add: queue_driver.held_inv_def[OF qd] queue_driver.live_inv_def[OF qd])
      (simp add: run_init_def in_flight_def)
  then have "queue_driver.held_inv dok after calm c s"
    by (rule queue_driver.held_inv_runs[OF qd assms(8) _ D(1) assms(5,6)])
  then show ?thesis using D by (simp add: queue_driver.held_inv_def[OF qd])
qed

text \<open>C18. The statistics add up: with a handler and hooks that do not panic, when \<^verbatim>\<open>Run\<close> has returned every
  processed message has been counted exactly once as acknowledged, retried, requeued, failed,
  dropped or as an error, and a fatal \<^verbatim>\<open>Pop\<close> error adds at most one more error (modulo the wrap-around of
  the 64-bit counters).\<close>

theorem stats_balance:
  fixes D :: "'w driver" and ch :: string and h :: "'w handler" and opts :: "'w ConsumerOption option list"
  defines "c \<equiv> NewConsumer D ch h opts"
  assumes "unpanicking c" and "runs wall (run_init c ctx w) s" and "r_phase s = Exited e" and "in_int64 (c_maxMessages c)"
  defines "st \<equiv> Stats (r_con s)"
  shows "\<exists>f \<in> {0, 1}. int64 (Acked st + Retried st + Requeued st + Failed st + Dropped st + Errors st) = int64 (Processed st + f)"
proof -
  obtain f where f: "f = 0 \<or> f = 1" and eq: "int64 (tally (r_con s) + (busy s - f - c_processed (r_con s))) = int64 0"
    using balance_runs[OF assms(3,2)] by (auto simp: balance_inv_def c_def)
  have "run_inv c s" using run_inv_runs[OF assms(3) _ _ assms(5)] NewConsumer_limit[of D ch h opts]
    by (simp add: c_def in_int64_def)
  then have "busy s = 0" using assms(4) by (simp add: run_inv_def busy_def)
  with eq have "int64 (tally (r_con s) - (c_processed (r_con s) + f)) = int64 0" by (simp add: algebra_simps)
  then have "int64 (tally (r_con s)) = int64 (c_processed (r_con s) + f)"
    unfolding int64_cong by (simp add: mod_eq_dvd_iff mod_eq_0_iff_dvd)
  then show ?thesis using f by (auto simp: st_def Stats_def tally_def)
qed

text \<open>An error of a run carries its first cause: when \<^verbatim>\<open>Run\<close> returns an error, it names an error that
  occurred, its count is the number of errors so far, and its text begins with that of the cause.\<close>

theorem run_error_first:
  fixes D :: "'w driver" and ch :: string and h :: "'w handler" and opts :: "'w ConsumerOption option list"
  defines "c \<equiv> NewConsumer D ch h opts"
  assumes "runs wall (run_init c ctx w) s" and "r_phase s = Exited (Some e)"
  shows "\<exists>f. First e = Some f \<and> Count e \<noteq> 0 \<and> take (length (error_text f)) (ConsumerRunError_Error (Some e)) = error_text f"
proof -
  have "error_inv (r_con s) \<and> (\<forall>e. r_phase s = Exited (Some e) \<longrightarrow> First e \<noteq> None \<and> Count e \<noteq> 0)"
    using assms(2)
  proof (induction rule: rtranclp_induct)
    case base
    show ?case by (simp add: run_init_def error_inv_def c_def)
  next
    case (step s1 s2)
    have "First e \<noteq> None \<and> Count e \<noteq> 0" if "Some e = runErr (r_con s2)" "error_inv (r_con s2)" for e
      using that by (auto simp: runErr_def error_inv_def split: if_splits)
    then show ?case using error_step[OF step(2)] step(3) by metis
  qed
  then show ?thesis using assms(3) by (auto simp: ConsumerRunError_Error_def)
qed

section \<open>Concrete runs\<close>

text \<open>A run that has claimed a message when its context ends.\<close>

lemma demo_consumer_more [simp]:
  "c_maxMessages (demo_consumer out) = 0" "c_autoRestart (demo_consumer out) = False" "c_concurrentLimit (demo_consumer out) = 10"
  by (simp_all add: demo_consumer_def NewConsumer_def consumer_settings_def defaultConsumerOptions_def Let_def)

lemma demo_consumer_tame:
  "benign dok (demo_consumer out)" "aloof dok calm after (demo_consumer out)" "out \<noteq> Panicked \<Longrightarrow> unpanicking (demo_consumer out)"
  by (simp_all add: benign_def aloof_def unpanicking_def)

lemma runs_step: "run_step wall s s1 \<Longrightarrow> runs wall s1 s2 \<Longrightarrow> runs wall s s2"
  by (rule converse_rtranclp_into_rtranclp)

lemma demo_claims:
  "\<exists>s. runs wall (run_init (demo_consumer out) None demo_one) s \<and> in_flight s = [''a''] \<and> r_ctx s = Some ErrCanceled"
proof -
  let ?c = "demo_consumer out"
  have "q_waiting (demo_view (w_db demo_one)) = [] @ ''a'' # []" "q_msgs (demo_view (w_db demo_one)) ''a'' = Some (demo_msg ''a'')"
    by (simp_all add: demo_simps)
  then obtain m w1 where pop: "Pop mem_redis ''q'' (c_PopTimeout ?c) (c_handleTimeout ?c) None demo_one = Some (Inr (''a'', Some m), w1)"
    using mem_lua.Pop_delivered[OF demo_one_ok, of "[]" "''a''" "[]" "demo_msg ''a''" "c_PopTimeout ?c" "c_handleTimeout ?c" None] by auto
  let ?s0 = "run_init ?c None demo_one"
  let ?s1 = "?s0\<lparr>r_phase := Popping\<rparr>"
  let ?s2 = "?s1\<lparr>r_phase := Popped (Inr (''a'', Some m)), r_ctx := None, r_world := w1\<rparr>"
  have a: "run_step wall ?s0 ?s1" by (rule run_step.poll) (simp_all add: run_init_def limit_reached_def)
  have b: "run_step wall ?s1 ?s2"
    by (rule run_step.pop) (use pop in \<open>simp_all add: run_init_def redis_driver_def\<close>)
  have d: "run_step wall ?s2 (?s2\<lparr>r_ctx := Some ErrCanceled\<rparr>)" by (rule run_step.cancelled) simp_all
  have "runs wall ?s0 (?s2\<lparr>r_ctx := Some ErrCanceled\<rparr>)"
    by (rule runs_step[OF a runs_step[OF b runs_step[OF d rtranclp.rtrancl_refl]]])
  moreover have "in_flight (?s2\<lparr>r_ctx := Some ErrCanceled\<rparr>) = [''a'']" by (simp add: in_flight_def run_init_def)
  ultimately show ?thesis by fastforce
qed

text \<open>A run that ends with a fatal error: the message is claimed but cannot be read.\<close>

abbreviation demo_broken :: "mem world" where
  "demo_broken \<equiv> demo_world (\<lambda>n. if n = 0 then Delivered else Refused (ErrText ''x'')) (demo_push ''waiting'' 0 ''a'' mem_empty)"

lemma demo_fatal:
  "\<exists>s e. runs wall (run_init (demo_consumer out) None demo_broken) s \<and> r_phase s = Exited (Some e) \<and> Stats (r_con s) =
     \<lparr>Processed = 0, Acked = 0, Retried = 0, Requeued = 0, Failed = 0, Dropped = 0, Errors = 1\<rparr>"
proof -
  let ?c = "demo_consumer out" and ?e = "ErrText ''x''"
  have ok: "world_ok mem_safe m_obj ''q'' demo_broken" by (intro demo_world_ok demo_push_ok demo_empty)
  have "fst (q_pop (secs demo_broken) (pop_deadline ht demo_broken) (demo_view (db_at demo_broken))) = Some ''a''" for ht
    by (simp add: demo_simps q_pop_def)
  then obtain w1 where pop: "Pop mem_redis ''q'' (c_PopTimeout ?c) (c_handleTimeout ?c) None demo_broken = Some (Inl ?e, w1)"
    using mem_lua.Pop_claim[OF ok, of "c_handleTimeout ?c" "''a''" "c_PopTimeout ?c" None]
    by (auto simp: Let_def reply_of_def)
  have fatal: "\<not> isRetryablePopError (Some ?e)" by code_simp
  let ?s0 = "run_init ?c None demo_broken"
  let ?s1 = "?s0\<lparr>r_phase := Popping\<rparr>"
  let ?s2 = "?s1\<lparr>r_phase := Popped (Inl ?e), r_ctx := None, r_world := w1\<rparr>"
  let ?s3 = "?s2\<lparr>r_con := recordErr (Some ?e) ?c, r_phase := Draining\<rparr>"
  let ?s4 = "?s3\<lparr>r_phase := Exited (runErr (recordErr (Some ?e) ?c))\<rparr>"
  have a: "run_step wall ?s0 ?s1" by (rule run_step.poll) (simp_all add: run_init_def limit_reached_def)
  have b: "run_step wall ?s1 ?s2"
    by (rule run_step.pop) (use pop in \<open>simp_all add: run_init_def redis_driver_def\<close>)
  have d: "run_step wall ?s2 ?s3"
    using run_step.pop_fatal[of ?s2 ?e wall] fatal by (simp add: run_init_def)
  have e: "run_step wall ?s3 ?s4"
    using run_step.drained[of ?s3 wall] by (simp add: run_init_def)
  have "runs wall ?s0 ?s4"
    by (rule runs_step[OF a runs_step[OF b runs_step[OF d runs_step[OF e rtranclp.rtrancl_refl]]]])
  moreover have "\<exists>e. r_phase ?s4 = Exited (Some e)" "Stats (r_con ?s4) =
     \<lparr>Processed = 0, Acked = 0, Retried = 0, Requeued = 0, Failed = 0, Dropped = 0, Errors = 1\<rparr>"
    by (simp_all add: runErr_def recordErr_def incrErrors_def demo_consumer_def Let_def int64_def Stats_def NewConsumer_def)
  ultimately show ?thesis by blast
qed

theorem consumer_limits_witness:
  "\<exists>s. runs wall_now (run_init (demo_consumer Panicked) None demo_one) s \<and> in_flight s = [''a''] \<and>
     int (length (filter holds_token (r_jobs s))) \<le> 10"
proof -
  obtain s where s: "runs wall_now (run_init (demo_consumer Panicked) None demo_one) s" "in_flight s = [''a'']"
    using demo_claims by blast
  then show ?thesis
    using consumer_limits[OF s(1)[unfolded demo_consumer_def]] by (auto simp: demo_consumer_def[symmetric] in_int64_def)
qed

theorem consumer_shuts_down_witness:
  "\<exists>s s'. runs wall_now (run_init (demo_consumer Panicked) None demo_one) s \<and> run_step wall_now s s' \<and>
     1 \<le> 10 + 4 * length (r_jobs s)"
proof -
  obtain s where s: "runs wall_now (run_init (demo_consumer Panicked) None demo_one) s" "r_ctx s = Some ErrCanceled" "in_flight s = [''a'']"
    using demo_claims by blast
  have iv: "mem_lua.drv.live_inv (demo_consumer Panicked) s"
  proof (rule mem_lua.drv.live_inv_runs[OF s(1)])
    show "mem_lua.drv.live_inv (demo_consumer Panicked) (run_init (demo_consumer Panicked) None demo_one)"
      using run_inv_init[of "demo_consumer Panicked" None demo_one] demo_one_ok(1)
      by (simp add: mem_lua.drv.live_inv_def) (simp add: run_init_def in_int64_def demo_consumer_def)
  qed (simp_all add: demo_consumer_tame in_int64_def)
  have "\<forall>e. r_phase s \<noteq> Exited e"
    using iv s(3) by (auto simp: mem_lua.drv.live_inv_def run_inv_def in_flight_def)
  then obtain s' where s': "run_step wall_now s s'"
    using mem_lua.drv.run_progress[OF iv, of wall_now] by auto
  then show ?thesis
    using consumer_shuts_down[OF mem_lua.drv.queue_driver_axioms demo_one_ok(1) _ _ s(1)[unfolded demo_consumer_def], of 1 s'] s
    by (auto simp: demo_consumer_def[symmetric] demo_consumer_tame in_int64_def)
qed

theorem no_double_processing_witness:
  "\<exists>s. runs wall_now (run_init (demo_consumer Panicked) None demo_one) s \<and> in_flight s = [''a''] \<and>
     ''a'' \<in> reserved_ids (demo_view (w_db (r_world s)))"
proof -
  obtain s where s: "runs wall_now (run_init (demo_consumer Panicked) None demo_one) s" "in_flight s = [''a'']"
    using demo_claims by blast
  have "good (demo_view (w_db demo_one))"
    by (auto simp: demo_simps good_def exclusive_unfold placed_def demo_msg_def zset_members_def)
  then show ?thesis
    using no_double_processing[OF mem_lua.drv.queue_driver_axioms demo_one_ok _ _ _ s(1)[unfolded demo_consumer_def]] s
    by (auto simp: demo_consumer_def[symmetric] demo_consumer_tame in_int64_def)
qed

theorem stats_balance_witness:
  "\<exists>s e. runs wall_now (run_init (demo_consumer (Returned ACK None)) None demo_broken) s \<and> r_phase s = Exited (Some e) \<and>
     (\<exists>f \<in> {0, 1}. int64 (0 + 0 + 0 + 0 + 0 + 1) = int64 (0 + f))"
proof -
  obtain s e where s: "runs wall_now (run_init (demo_consumer (Returned ACK None)) None demo_broken) s" "r_phase s = Exited (Some e)"
    "Stats (r_con s) = \<lparr>Processed = 0, Acked = 0, Retried = 0, Requeued = 0, Failed = 0, Dropped = 0, Errors = 1\<rparr>"
    using demo_fatal by blast
  show ?thesis
    using stats_balance[OF _ s(1)[unfolded demo_consumer_def] s(2)] s demo_consumer_tame(3)[of "Returned ACK None"]
    unfolding s(3) by (auto simp: demo_consumer_def[symmetric] in_int64_def)
qed

theorem run_error_first_witness:
  "\<exists>s e f. runs wall_now (run_init (demo_consumer (Returned ACK None)) None demo_broken) s \<and> r_phase s = Exited (Some e) \<and> First e = Some f"
proof -
  obtain s e where s: "runs wall_now (run_init (demo_consumer (Returned ACK None)) None demo_broken) s" "r_phase s = Exited (Some e)"
    using demo_fatal by blast
  then show ?thesis using run_error_first[OF s(1)[unfolded demo_consumer_def] s(2)] by blast
qed

end
