(* ===== verification/Forwarder.thy ===== *)
theory Forwarder
  imports Demo
begin

text \<open>
  The background forwarder (\<^verbatim>\<open>pkg/queue/forwarder.go\<close>).  Its loop is driven by the driver, by the
  context and by a timer; the model takes, for every turn, whether the context ended the wait and
  whether it has ended by the time a call failed, and records the delay of every timer reset.
\<close>

section \<open>The program\<close>

record forwarder =
  f_queueName :: string
  f_channel :: string
  f_idlePollInterval :: int
  f_busyPollInterval :: int
  f_errorRetryBackoff :: int
  f_errorRetryMaxBackoff :: int

definition normalizeIntervals :: "forwarder \<Rightarrow> forwarder" where
  "normalizeIntervals f =
     (let f1 = (if f_idlePollInterval f \<le> 0 then f\<lparr>f_idlePollInterval := second_ns\<rparr> else f);
          f2 = (if f_busyPollInterval f1 \<le> 0 then f1\<lparr>f_busyPollInterval := second_ns\<rparr> else f1);
          f3 = (if f_errorRetryBackoff f2 \<le> 0 then f2\<lparr>f_errorRetryBackoff := 2 * second_ns\<rparr> else f2)
      in if f_errorRetryMaxBackoff f3 \<le> 0 \<or> f_errorRetryMaxBackoff f3 < f_errorRetryBackoff f3
         then f3\<lparr>f_errorRetryMaxBackoff := f_errorRetryBackoff f3\<rparr> else f3)"

text \<open>\<^verbatim>\<open>NewForwarder\<close> with a driver; without one it returns nil.\<close>

definition NewForwarder :: "'w driver option \<Rightarrow> string \<Rightarrow> string \<Rightarrow> ('w driver \<times> forwarder) option" where
  "NewForwarder driver queueName channel = (case driver of
      None \<Rightarrow> None
    | Some d \<Rightarrow> Some (d, normalizeIntervals
        \<lparr>f_queueName = queueName, f_channel = channel, f_idlePollInterval = second_ns,
         f_busyPollInterval = second_ns, f_errorRetryBackoff = 2 * second_ns,
         f_errorRetryMaxBackoff = 30 * second_ns\<rparr>))"

text \<open>The loop of \<^verbatim>\<open>Run\<close>.  \<open>stop n\<close>: the \<open>n\<close>-th select takes the context branch; \<open>ended n\<close>: \<^verbatim>\<open>ctx.Err()\<close> is
  set after the \<open>n\<close>-th call failed.  The result is the list of timer delays and the last world;
  \<^verbatim>\<open>Run\<close> always returns nil.\<close>

partial_function (option) forwarder_loop :: "'w driver \<Rightarrow> forwarder \<Rightarrow> (nat \<Rightarrow> bool) \<Rightarrow> (nat \<Rightarrow> bool) \<Rightarrow> nat
    \<Rightarrow> backoff \<Rightarrow> int list \<Rightarrow> 'w \<Rightarrow> (int list \<times> 'w) option" where
  "forwarder_loop D f stop ended n b delays w =
     (if stop n then Some (delays, w)
      else case D_ForwardMessages D (f_channel f) w of (r, w1) \<Rightarrow>
        (case snd (snd r) of
           Some err \<Rightarrow>
             (if ended n then Some (delays, w1)
              else forwarder_loop D f stop ended (Suc n) (Advance b) (delays @ [Current (Some b)]) w1)
         | None \<Rightarrow>
             forwarder_loop D f stop ended (Suc n) (Reset b)
               (delays @ [if fst r + fst (snd r) > 0 then f_busyPollInterval f else f_idlePollInterval f]) w1))"

definition forwarder_Run :: "('w driver \<times> forwarder) option \<Rightarrow> (nat \<Rightarrow> bool) \<Rightarrow> (nat \<Rightarrow> bool) \<Rightarrow> 'w \<Rightarrow> (int list \<times> 'w) option" where
  "forwarder_Run fw stop ended w = (case fw of
      None \<Rightarrow> Some ([], w)
    | Some (D, f) \<Rightarrow>
        (let f = normalizeIntervals f
         in forwarder_loop D f stop ended 0 (newBackoff (f_errorRetryBackoff f) (f_errorRetryMaxBackoff f)) [] w))"


section \<open>The loop\<close>

definition forwarder_ok :: "forwarder \<Rightarrow> bool" where
  "forwarder_ok f \<longleftrightarrow> 0 < f_idlePollInterval f \<and> 0 < f_busyPollInterval f \<and> 0 < f_errorRetryBackoff f \<and>
     f_errorRetryBackoff f \<le> f_errorRetryMaxBackoff f"

lemma normalizeIntervals_ok: "forwarder_ok (normalizeIntervals f)"
  by (simp add: forwarder_ok_def normalizeIntervals_def Let_def)

lemma normalizeIntervals_id: "forwarder_ok f \<Longrightarrow> normalizeIntervals f = f"
  by (simp add: forwarder_ok_def normalizeIntervals_def Let_def)

text \<open>The largest delay between two polls.\<close>

definition longest_wait :: "forwarder \<Rightarrow> int" where
  "longest_wait f = max (max (f_idlePollInterval f) (f_busyPollInterval f)) (f_errorRetryMaxBackoff f)"

context queue_driver begin

text \<open>One turn: the loop returns, or it waits for a positive and bounded time and goes on.\<close>

lemma forwarder_turn:
  assumes "wf (f_channel f) w" and "forwarder_ok f" and "backoff_ok b" and "b_max b = f_errorRetryMaxBackoff f"
  obtains (returns) w1 where "wf (f_channel f) w1" and "\<And>delays. forwarder_loop D f stop ended n b delays w = Some (delays, w1)"
  | (waits) d b' w1 where "\<not> stop n" and "wf (f_channel f) w1" and "backoff_ok b'" and "b_max b' = f_errorRetryMaxBackoff f"
      and "0 < d" and "d \<le> longest_wait f"
      and "\<And>delays. forwarder_loop D f stop ended n b delays w = forwarder_loop D f stop ended (Suc n) b' (delays @ [d]) w1"
proof (cases "stop n")
  case True
  then show ?thesis using returns[of w] assms(1) by (simp add: forwarder_loop.simps)
next
  case False
  obtain d t e w1 where fw: "D_ForwardMessages D (f_channel f) w = ((d, t, e), w1)" by (metis prod_cases3 surj_pair)
  then have w1: "wf (f_channel f) w1" using Forward_law[OF assms(1)] by blast
  show ?thesis
  proof (cases e)
    case None
    let ?d = "if d + t > 0 then f_busyPollInterval f else f_idlePollInterval f"
    show ?thesis using fw None assms(2,4)
      by (intro waits[OF False w1 Reset_ok[OF assms(3)], of ?d]) (auto simp: forwarder_ok_def longest_wait_def forwarder_loop.simps[of _ _ _ _ n] False)
  next
    case (Some err)
    show ?thesis
    proof (cases "ended n")
      case True
      then show ?thesis using returns[OF w1] fw Some False by (simp add: forwarder_loop.simps[of _ _ _ _ n])
    next
      case nended: False
      show ?thesis using fw Some nended assms(3,4)
        by (intro waits[OF False w1 Advance_ok[OF assms(3)], of "Current (Some b)"])
          (auto simp: backoff_ok_def longest_wait_def forwarder_loop.simps[of _ _ _ _ n] False)
    qed
  qed
qed

text \<open>The loop ends once the context does, after as many polls as it was allowed, every wait is
  positive and bounded, and the driver's invariant holds at the end.\<close>

lemma forwarder_loop_runs:
  assumes "wf (f_channel f) w" and "forwarder_ok f" and "backoff_ok b" and "b_max b = f_errorRetryMaxBackoff f"
    and "stop N" and "n \<le> N"
  shows "\<exists>ds w'. forwarder_loop D f stop ended n b delays w = Some (delays @ ds, w') \<and> wf (f_channel f) w' \<and>
    length ds \<le> N - n \<and> (\<forall>d \<in> set ds. 0 < d \<and> d \<le> longest_wait f)"
  using assms
proof (induction "N - n" arbitrary: n b delays w rule: less_induct)
  case less
  from less.prems(1-4) show ?case
  proof (cases rule: forwarder_turn[where stop = stop and ended = ended and n = n])
    case (returns w1)
    then show ?thesis by (auto intro: exI[of _ "[]"])
  next
    case (waits d b' w1)
    then have n: "N - Suc n < N - n" "Suc n \<le> N" using less.prems(5,6) by (metis diff_less_mono2 le_neq_implies_less lessI, metis Suc_leI le_neq_implies_less)
    then obtain ds w' where "forwarder_loop D f stop ended (Suc n) b' (delays @ [d]) w1 = Some ((delays @ [d]) @ ds, w')"
        "wf (f_channel f) w'" "length ds \<le> N - Suc n" "\<forall>d \<in> set ds. 0 < d \<and> d \<le> longest_wait f"
      using less.hyps[OF n(1) waits(2) less.prems(2) waits(3,4) less.prems(5) n(2)] by blast
    then show ?thesis using waits(5-7) n by (auto intro!: exI[of _ "d # ds"])
  qed
qed

end

text \<open>The loop returns only because the context ended.\<close>

lemma forwarder_loop_stops:
  assumes "forwarder_loop D f stop ended n b delays w = Some r"
  shows "\<exists>k. stop k \<or> ended k"
  using forwarder_loop.raw_induct[OF _ assms, where P = "\<lambda>_ _ stop ended _ _ _ _ _. \<exists>k. stop k \<or> ended k"]
  by (fastforce split: if_splits prod.splits option.splits)

text \<open>C24. The forwarder of a channel runs until its context ends and no longer: \<^verbatim>\<open>Run\<close> returns if the
  context ends at some turn \<open>N\<close>, after at most \<open>N\<close> polls, with the driver's invariant intact, every
  wait between two polls is positive and at most thirty seconds, and it does not return while the
  context stays open.\<close>

theorem forwarder_runs_until_done:
  assumes "queue_driver D dok clk before after calm" and "dok ch w"
  shows "(\<forall>N. stop N \<longrightarrow> (\<exists>ds w'. forwarder_Run (NewForwarder (Some D) name ch) stop ended w = Some (ds, w') \<and>
      dok ch w' \<and> length ds \<le> N \<and> (\<forall>d \<in> set ds. 0 < d \<and> d \<le> 30 * second_ns))) \<and>
    ((\<forall>k. \<not> stop k \<and> \<not> ended k) \<longrightarrow> forwarder_Run (NewForwarder (Some D) name ch) stop ended w = None)"
proof -
  define f where "f = \<lparr>f_queueName = name, f_channel = ch, f_idlePollInterval = second_ns,
         f_busyPollInterval = second_ns, f_errorRetryBackoff = 2 * second_ns,
         f_errorRetryMaxBackoff = 30 * second_ns\<rparr>"
  have f: "forwarder_ok f" by (simp add: f_def forwarder_ok_def)
  have new: "NewForwarder (Some D) name ch = Some (D, f)"
    using normalizeIntervals_id[OF f] by (simp add: NewForwarder_def f_def)
  let ?b = "newBackoff (f_errorRetryBackoff f) (f_errorRetryMaxBackoff f)"
  have b: "backoff_ok ?b" "b_max ?b = f_errorRetryMaxBackoff f"
    by (auto simp: f_def newBackoff_def backoff_ok_def)
  have run: "forwarder_Run (NewForwarder (Some D) name ch) stop ended w = forwarder_loop D f stop ended 0 ?b [] w"
    by (simp add: new forwarder_Run_def normalizeIntervals_id[OF f] Let_def)
  have w: "dok (f_channel f) w" and ch: "f_channel f = ch" and lw: "longest_wait f = 30 * second_ns"
    using assms(2) by (simp_all add: f_def longest_wait_def)
  have "\<exists>ds w'. forwarder_loop D f stop ended 0 ?b [] w = Some (ds, w') \<and>
      dok ch w' \<and> length ds \<le> N \<and> (\<forall>d \<in> set ds. 0 < d \<and> d \<le> 30 * second_ns)" if "stop N" for N
    using queue_driver.forwarder_loop_runs[OF assms(1) w f b, of stop N 0 ended "[]"] that unfolding ch lw by simp
  moreover have "forwarder_loop D f stop ended 0 ?b [] w = None" if "\<forall>k. \<not> stop k \<and> \<not> ended k"
    using forwarder_loop_stops[of D f stop ended 0 ?b "[]" w] that
    by (cases "forwarder_loop D f stop ended 0 ?b [] w") auto
  ultimately show ?thesis unfolding run by blast
qed

theorem forwarder_runs_until_done_witness:
  "\<exists>ds w'. forwarder_Run (NewForwarder (Some (redis_driver mem_redis)) ''n'' ''q'') (\<lambda>n. n = 3) (\<lambda>_. False)
      (demo_world (\<lambda>n. if even n then Refused ErrEOF else Delivered) mem_empty) = Some (ds, w') \<and>
    length ds \<le> 3 \<and> (\<forall>d \<in> set ds. 0 < d \<and> d \<le> 30 * second_ns)"
  using forwarder_runs_until_done[OF mem_lua.drv.queue_driver_axioms demo_world_ok(1)[OF demo_empty(1)],
      where ended = "\<lambda>_. False" and stop = "\<lambda>n. n = 3"] by blast

end
