(* ===== verification/Worker.thy ===== *)
theory Worker
  imports Go_Prelude
begin

text \<open>
  The lifecycle wrapper (\<^verbatim>\<open>pkg/worker/worker.go\<close>): \<^verbatim>\<open>Start\<close>, \<^verbatim>\<open>Wait\<close> and \<^verbatim>\<open>Stop\<close> called from any
  goroutines, and the goroutine that runs the runner.  A step is what happens while the mutex is
  held, or one channel operation.  Channels and contexts are numbered as they are made.
\<close>

section \<open>State\<close>

text \<open>The runner's goroutine: before it reads \<^verbatim>\<open>w.ctx\<close>, inside \<^verbatim>\<open>Run\<close>, after \<^verbatim>\<open>w.err\<close> is set and before
  \<^verbatim>\<open>close(w.done)\<close>.\<close>

datatype gor = Spawned | Running "nat option" | Recorded

text \<open>A blocked call: \<^verbatim>\<open>Wait\<close> at \<^verbatim>\<open><-done\<close>, \<^verbatim>\<open>Stop\<close> before \<^verbatim>\<open>cancel()\<close>, \<^verbatim>\<open>Stop\<close> waiting.\<close>

datatype caller = Waiting nat | Stopping nat nat int | StopWaiting nat int

text \<open>What is seen from outside: the results of the calls, and of the runner.\<close>

datatype event =
    StartOk
  | StartRefused
  | NotStarted
  | RunReturned "error option"
  | Joined "error option"
  | TimedOut

text \<open>\<^verbatim>\<open>Run\<close> returns an error or nil, or panics with a value.\<close>

datatype run_result = RunErr "error option" | RunPanic string

record Worker =
  w_started :: bool
  w_ctx :: "nat option"
  w_cancel :: "nat option"
  w_done :: "nat option"
  w_err :: "error option"
  w_closed :: "nat set"
  w_cancelled :: "nat set"
  w_fresh :: nat
  w_gors :: "gor list"
  w_callers :: "caller list"
  w_crashed :: bool
  w_log :: "event list"

definition NewWorker :: Worker where
  "NewWorker = \<lparr>w_started = False, w_ctx = None, w_cancel = None, w_done = None, w_err = None, w_closed = {},
     w_cancelled = {}, w_fresh = 0, w_gors = [], w_callers = [], w_crashed = False, w_log = []\<rparr>"


section \<open>Operations\<close>

definition logged :: "event \<Rightarrow> Worker \<Rightarrow> Worker" where
  "logged e w = w\<lparr>w_log := w_log w @ [e]\<rparr>"

definition Start :: "Worker \<Rightarrow> Worker" where
  "Start w =
     (if w_started w then logged StartRefused w
      else logged StartOk (w\<lparr>w_ctx := Some (w_fresh w), w_cancel := Some (w_fresh w), w_done := Some (w_fresh w),
             w_err := None, w_started := True, w_fresh := Suc (w_fresh w), w_gors := w_gors w @ [Spawned]\<rparr>))"

definition resetLocked :: "Worker \<Rightarrow> Worker" where
  "resetLocked w = w\<lparr>w_started := False, w_ctx := None, w_cancel := None, w_done := None, w_err := None\<rparr>"

definition Wait :: "Worker \<Rightarrow> Worker" where
  "Wait w = (case w_done w of
      Some d \<Rightarrow> if w_started w then w\<lparr>w_callers := w_callers w @ [Waiting d]\<rparr> else logged NotStarted w
    | None \<Rightarrow> logged NotStarted w)"

definition Stop :: "int \<Rightarrow> Worker \<Rightarrow> Worker" where
  "Stop graceTimeout w = (case (w_done w, w_cancel w) of
      (Some d, Some c) \<Rightarrow> if w_started w then w\<lparr>w_callers := w_callers w @ [Stopping d c graceTimeout]\<rparr>
                           else logged NotStarted w
    | _ \<Rightarrow> logged NotStarted w)"

text \<open>The end of \<^verbatim>\<open>Wait\<close>, and of \<^verbatim>\<open>Stop\<close> when the runner exits in time: read the error, reset, return.\<close>

definition join_locked :: "nat \<Rightarrow> Worker \<Rightarrow> Worker" where
  "join_locked k w = logged (Joined (w_err w)) (resetLocked (w\<lparr>w_callers := remove_nth k (w_callers w)\<rparr>))"

datatype action =
    AStart
  | AWait
  | AStop int
  | ACancel nat
  | AJoin nat
  | ATimeout nat
  | ARun nat
  | AReturn nat run_result
  | AClose nat

definition run_error :: "run_result \<Rightarrow> error option" where
  "run_error r = (case r of RunErr e \<Rightarrow> e | RunPanic p \<Rightarrow> Some (ErrText (''worker panic: '' @ p)))"

text \<open>One step; \<open>None\<close> when the chosen goroutine cannot take it.  \<^verbatim>\<open>close(w.done)\<close> reads the field at
  that moment: closing nil, or a closed channel, panics outside the \<^verbatim>\<open>recover\<close>.\<close>

definition at :: "nat \<Rightarrow> 'a list \<Rightarrow> 'a option" where
  "at k xs = (if k < length xs then Some (xs ! k) else None)"

fun act :: "action \<Rightarrow> Worker \<Rightarrow> Worker option" where
  "act AStart w = Some (Start w)"
| "act AWait w = Some (Wait w)"
| "act (AStop g) w = Some (Stop g w)"
| "act (ACancel k) w = (case at k (w_callers w) of
      Some (Stopping d c g) \<Rightarrow> Some (w\<lparr>w_cancelled := insert c (w_cancelled w), w_callers := (w_callers w)[k := StopWaiting d g]\<rparr>)
    | _ \<Rightarrow> None)"
| "act (AJoin k) w = (case at k (w_callers w) of
      Some (Waiting d) \<Rightarrow> if d \<in> w_closed w then Some (join_locked k w) else None
    | Some (StopWaiting d g) \<Rightarrow> if d \<in> w_closed w then Some (join_locked k w) else None
    | _ \<Rightarrow> None)"
| "act (ATimeout k) w = (case at k (w_callers w) of
      Some (StopWaiting d g) \<Rightarrow>
        if g > 0 then Some (logged TimedOut (resetLocked (w\<lparr>w_callers := remove_nth k (w_callers w)\<rparr>))) else None
    | _ \<Rightarrow> None)"
| "act (ARun k) w = (case at k (w_gors w) of
      Some Spawned \<Rightarrow> Some (w\<lparr>w_gors := (w_gors w)[k := Running (w_ctx w)]\<rparr>)
    | _ \<Rightarrow> None)"
| "act (AReturn k r) w = (case at k (w_gors w) of
      Some (Running c) \<Rightarrow> Some (logged (RunReturned (run_error r)) (w\<lparr>w_gors := (w_gors w)[k := Recorded], w_err := run_error r\<rparr>))
    | _ \<Rightarrow> None)"
| "act (AClose k) w = (case at k (w_gors w) of
      Some Recorded \<Rightarrow>
        (case w_done w of
           None \<Rightarrow> Some (w\<lparr>w_crashed := True\<rparr>)
         | Some d \<Rightarrow> if d \<in> w_closed w then Some (w\<lparr>w_crashed := True\<rparr>)
                    else Some (w\<lparr>w_closed := insert d (w_closed w), w_gors := remove_nth k (w_gors w)\<rparr>))
    | _ \<Rightarrow> None)"

text \<open>After a panic the process is gone.\<close>

fun exec :: "action list \<Rightarrow> Worker \<Rightarrow> Worker option" where
  "exec [] w = Some w"
| "exec (a # as) w = (if w_crashed w then None else case act a w of None \<Rightarrow> None | Some w1 \<Rightarrow> exec as w1)"


section \<open>One owner at a time\<close>

text \<open>The discipline: \<^verbatim>\<open>Wait\<close> and \<^verbatim>\<open>Stop\<close> are called by one goroutine at a time, and
  \<^verbatim>\<open>Stop\<close> waits without a time limit.\<close>

fun disciplined :: "action \<Rightarrow> Worker \<Rightarrow> bool" where
  "disciplined AWait w \<longleftrightarrow> w_callers w = []"
| "disciplined (AStop g) w \<longleftrightarrow> w_callers w = [] \<and> g \<le> 0"
| "disciplined _ w \<longleftrightarrow> True"

fun exec_disciplined :: "action list \<Rightarrow> Worker \<Rightarrow> Worker option" where
  "exec_disciplined [] w = Some w"
| "exec_disciplined (a # as) w =
     (if w_crashed w \<or> \<not> disciplined a w then None
      else case act a w of None \<Rightarrow> None | Some w1 \<Rightarrow> exec_disciplined as w1)"

fun caller_done :: "caller \<Rightarrow> nat" where
  "caller_done (Waiting d) = d" | "caller_done (Stopping d c g) = d" | "caller_done (StopWaiting d g) = d"

fun caller_patient :: "caller \<Rightarrow> bool" where
  "caller_patient (Waiting d) = True" | "caller_patient (Stopping d c g) = (g \<le> 0)" | "caller_patient (StopWaiting d g) = (g \<le> 0)"

definition produced :: "event list \<Rightarrow> error option list" where
  "produced es = concat (map (\<lambda>e. case e of RunReturned r \<Rightarrow> [r] | _ \<Rightarrow> []) es)"

definition delivered :: "event list \<Rightarrow> error option list" where
  "delivered es = concat (map (\<lambda>e. case e of Joined r \<Rightarrow> [r] | _ \<Rightarrow> []) es)"

lemma produced_snoc [simp]: "produced (es @ [e]) = produced es @ (case e of RunReturned r \<Rightarrow> [r] | _ \<Rightarrow> [])"
  by (simp add: produced_def)

lemma delivered_snoc [simp]: "delivered (es @ [e]) = delivered es @ (case e of Joined r \<Rightarrow> [r] | _ \<Rightarrow> [])"
  by (simp add: delivered_def)

definition idle_worker :: "Worker \<Rightarrow> bool" where
  "idle_worker w \<longleftrightarrow> w_done w = None \<and> w_cancel w = None \<and> \<not> w_started w \<and> w_gors w = [] \<and> w_callers w = [] \<and>
     produced (w_log w) = delivered (w_log w)"

definition busy_worker :: "nat \<Rightarrow> Worker \<Rightarrow> bool" where
  "busy_worker d w \<longleftrightarrow> w_done w = Some d \<and> w_cancel w \<noteq> None \<and> w_started w \<and> d < w_fresh w \<and>
     (w_callers w = [] \<or> (\<exists>c. w_callers w = [c] \<and> caller_done c = d \<and> caller_patient c)) \<and>
     (if d \<in> w_closed w then w_gors w = [] \<and> produced (w_log w) = delivered (w_log w) @ [w_err w]
      else w_gors w = [Recorded] \<and> produced (w_log w) = delivered (w_log w) @ [w_err w] \<or>
           (\<exists>g. w_gors w = [g] \<and> g \<noteq> Recorded) \<and> produced (w_log w) = delivered (w_log w))"

definition owner_inv :: "Worker \<Rightarrow> bool" where
  "owner_inv w \<longleftrightarrow> \<not> w_crashed w \<and> (\<forall>d \<in> w_closed w. d < w_fresh w) \<and> (idle_worker w \<or> (\<exists>d. busy_worker d w))"

lemma owner_inv_init: "owner_inv NewWorker"
  by (simp add: owner_inv_def idle_worker_def NewWorker_def produced_def delivered_def)

lemma at_single: "at k [x] = Some y \<longleftrightarrow> k = 0 \<and> y = x" "at k [] = None"
  by (auto simp: at_def)

lemma Start_inv:
  assumes "owner_inv w"
  shows "owner_inv (Start w)"
proof (cases "w_started w")
  case True
  then obtain d where "busy_worker d w" using assms by (auto simp: owner_inv_def idle_worker_def)
  then have "busy_worker d (Start w)" using True by (simp add: Start_def logged_def busy_worker_def)
  then show ?thesis using assms True by (auto simp: owner_inv_def Start_def logged_def)
next
  case False
  then have "idle_worker w" using assms by (auto simp: owner_inv_def busy_worker_def)
  moreover have "w_fresh w \<notin> w_closed w" using assms by (auto simp: owner_inv_def)
  ultimately have "busy_worker (w_fresh w) (Start w)" using False by (simp add: Start_def logged_def idle_worker_def busy_worker_def)
  moreover have "\<not> w_crashed (Start w)" "\<forall>d \<in> w_closed (Start w). d < w_fresh (Start w)"
    using assms False by (auto simp: owner_inv_def Start_def logged_def)
  ultimately show ?thesis unfolding owner_inv_def by blast
qed

lemma idle_logged: "idle_worker w \<Longrightarrow> owner_inv w \<Longrightarrow> owner_inv (logged NotStarted w)"
  by (simp add: owner_inv_def idle_worker_def logged_def)

lemma busy_call:
  assumes "busy_worker d w" and "owner_inv w" and "w_callers w = []" and "caller_done c = d" and "caller_patient c"
  shows "owner_inv (w\<lparr>w_callers := w_callers w @ [c]\<rparr>)"
proof -
  have "busy_worker d (w\<lparr>w_callers := w_callers w @ [c]\<rparr>)" using assms by (simp add: busy_worker_def)
  then show ?thesis using assms(2) unfolding owner_inv_def by auto
qed

lemma owner_cases:
  assumes "owner_inv w"
  obtains (idle) "idle_worker w" "w_done w = None" | (busy) d c where "busy_worker d w" "w_done w = Some d" "w_cancel w = Some c" "w_started w"
  using assms by (auto simp: owner_inv_def idle_worker_def busy_worker_def)

lemma Wait_inv:
  assumes "owner_inv w" and "w_callers w = []"
  shows "owner_inv (Wait w)"
  using assms(1) by (cases rule: owner_cases) (use assms idle_logged busy_call in \<open>simp_all add: Wait_def\<close>)

lemma Stop_inv:
  assumes "owner_inv w" and "w_callers w = []" and "g \<le> 0"
  shows "owner_inv (Stop g w)"
  using assms(1) by (cases rule: owner_cases) (use assms idle_logged busy_call in \<open>simp_all add: Stop_def\<close>)

lemma owner_caller:
  assumes "owner_inv w" and "at k (w_callers w) = Some c"
  shows "k = 0 \<and> w_callers w = [c] \<and> caller_patient c \<and> busy_worker (caller_done c) w"
  using assms by (auto simp: owner_inv_def idle_worker_def at_single busy_worker_def)

lemma owner_gor:
  assumes "owner_inv w" and "at k (w_gors w) = Some g"
  shows "k = 0 \<and> w_gors w = [g] \<and> (\<exists>d. busy_worker d w \<and> d \<notin> w_closed w)"
  using assms by (auto simp: owner_inv_def idle_worker_def at_single busy_worker_def split: if_splits)

lemma join_inv:
  assumes "owner_inv w" and "at k (w_callers w) = Some c" and "caller_done c \<in> w_closed w"
  shows "owner_inv (join_locked k w)"
  using owner_caller[OF assms(1,2)] assms(1,3)
  by (auto simp: owner_inv_def join_locked_def logged_def resetLocked_def idle_worker_def busy_worker_def)

lemma act_inv:
  assumes "owner_inv w" and "disciplined a w" and "act a w = Some w'"
  shows "owner_inv w'"
proof (cases a)
  case (ACancel k)
  then obtain d c g where at: "at k (w_callers w) = Some (Stopping d c g)"
    and w': "w' = w\<lparr>w_cancelled := insert c (w_cancelled w), w_callers := (w_callers w)[k := StopWaiting d g]\<rparr>"
    using assms(3) by (auto split: option.splits caller.splits)
  then show ?thesis using owner_caller[OF assms(1) at] assms(1) by (auto simp: owner_inv_def busy_worker_def)
next
  case (AJoin k)
  then obtain c where "at k (w_callers w) = Some c" "caller_done c \<in> w_closed w" "w' = join_locked k w"
    using assms(3) by (auto split: option.splits caller.splits if_splits)
  then show ?thesis using join_inv[OF assms(1)] by simp
next
  case (ATimeout k)
  then obtain d g where "at k (w_callers w) = Some (StopWaiting d g)" "0 < g"
    using assms(3) by (auto split: option.splits caller.splits if_splits)
  then show ?thesis using owner_caller[OF assms(1)] by fastforce
next
  case (ARun k)
  then have at: "at k (w_gors w) = Some Spawned" and w': "w' = w\<lparr>w_gors := (w_gors w)[k := Running (w_ctx w)]\<rparr>"
    using assms(3) by (auto split: option.splits gor.splits)
  then show ?thesis using owner_gor[OF assms(1) at] assms(1) by (auto simp: owner_inv_def busy_worker_def)
next
  case (AReturn k r)
  then obtain c where at: "at k (w_gors w) = Some (Running c)"
    and w': "w' = logged (RunReturned (run_error r)) (w\<lparr>w_gors := (w_gors w)[k := Recorded], w_err := run_error r\<rparr>)"
    using assms(3) by (auto split: option.splits gor.splits)
  then show ?thesis using owner_gor[OF assms(1) at] assms(1) by (auto simp: owner_inv_def busy_worker_def logged_def)
next
  case (AClose k)
  then have at: "at k (w_gors w) = Some Recorded" using assms(3) by (auto split: option.splits gor.splits)
  then obtain d where "busy_worker d w" "d \<notin> w_closed w" "k = 0" "w_gors w = [Recorded]" using owner_gor[OF assms(1)] by blast
  then show ?thesis using AClose assms(1,3) at by (auto simp: owner_inv_def busy_worker_def)
qed (use assms Start_inv Wait_inv Stop_inv in auto)

lemma exec_inv: "exec_disciplined as w = Some w' \<Longrightarrow> owner_inv w \<Longrightarrow> owner_inv w'"
  by (induction as arbitrary: w) (auto intro: act_inv split: if_splits option.splits)




section \<open>Outside the discipline\<close>

text \<open>After a \<^verbatim>\<open>Stop\<close> that ran into its time limit: the fields are cleared, the runner's goroutine is still there.\<close>

definition orphaned :: "Worker \<Rightarrow> bool" where
  "orphaned w \<longleftrightarrow> w_done w = None \<and> \<not> w_started w \<and> \<not> w_crashed w \<and> length (w_gors w) = 1"

fun closes :: "action \<Rightarrow> bool" where
  "closes (AClose k) \<longleftrightarrow> True"
| "closes _ \<longleftrightarrow> False"

lemma orphaned_act:
  assumes "orphaned w" and "a \<noteq> AStart" and "act a w = Some w'"
  shows "if closes a then w_crashed w' else orphaned w'"
  using assms by (cases a) (auto simp: orphaned_def Wait_def Stop_def logged_def join_locked_def resetLocked_def
      split: option.splits caller.splits gor.splits if_splits)

lemma orphaned_exec:
  assumes "exec bs w = Some w'" and "orphaned w" and "AStart \<notin> set bs"
  shows "if \<exists>a \<in> set bs. closes a then w_crashed w' else orphaned w'"
  using assms
proof (induction bs arbitrary: w)
  case (Cons a bs)
  then obtain w1 where w1: "act a w = Some w1" "exec bs w1 = Some w'" by (auto split: if_splits option.splits)
  then have step: "if closes a then w_crashed w1 else orphaned w1" using orphaned_act[OF Cons.prems(2), of a w1] Cons.prems(3) by auto
  show ?case
  proof (cases "closes a")
    case True
    then show ?thesis using step w1(2) by (cases bs) auto
  next
    case False
    then show ?thesis using step Cons.IH[OF w1(2)] Cons.prems(3) by simp
  qed
qed simp

text \<open>C29. A stop with a time limit brings the process down.  Take any use of a worker by one goroutine at a time in which the runner is
  still running; a \<^verbatim>\<open>Stop\<close> with a positive limit that expires clears the worker, and from then on, whatever is called except
  \<^verbatim>\<open>Start\<close> and in whatever order the goroutines run, the process panics exactly when the runner's goroutine gets to its
  \<^verbatim>\<open>close(w.done)\<close>, and that goroutine ends in no other way.\<close>

theorem worker_reset_panics:
  assumes "exec_disciplined as NewWorker = Some w" and "w_callers w = []" and "w_gors w \<noteq> []" and "0 < g"
  shows "\<exists>w1. exec [AStop g, ACancel 0, ATimeout 0] w = Some w1 \<and> w_log w1 = w_log w @ [TimedOut] \<and>
    (\<forall>bs w'. exec bs w1 = Some w' \<and> AStart \<notin> set bs \<longrightarrow>
      (w_crashed w' \<longleftrightarrow> (\<exists>k. AClose k \<in> set bs)) \<and> (\<not> w_crashed w' \<longrightarrow> length (w_gors w') = 1))"
proof -
  have inv: "owner_inv w" using exec_inv[OF assms(1) owner_inv_init] .
  then obtain d c where busy: "busy_worker d w" "w_done w = Some d" "w_cancel w = Some c" "w_started w"
    using assms(3) by (cases rule: owner_cases) (auto simp: idle_worker_def)
  have closes: "(\<exists>a \<in> set bs. closes a) \<longleftrightarrow> (\<exists>k. AClose k \<in> set bs)" for bs by (metis closes.elims(2) closes.simps(1))
  have gors: "length (w_gors w) = 1" using busy(1) assms(3) by (auto simp: busy_worker_def split: if_splits)
  let ?w1 = "logged TimedOut (resetLocked (w\<lparr>w_cancelled := insert c (w_cancelled w), w_callers := []\<rparr>))"
  have run: "exec [AStop g, ACancel 0, ATimeout 0] w = Some ?w1"
    using inv busy assms(2,4) by (simp add: owner_inv_def Stop_def at_def)
  have "orphaned ?w1" using inv gors by (simp add: owner_inv_def orphaned_def logged_def resetLocked_def)
  then have after: "(w_crashed w' \<longleftrightarrow> (\<exists>k. AClose k \<in> set bs)) \<and> (\<not> w_crashed w' \<longrightarrow> length (w_gors w') = 1)"
    if "exec bs ?w1 = Some w'" "AStart \<notin> set bs" for bs w'
    using orphaned_exec[OF that(1) _ that(2)] closes[of bs] by (auto simp: orphaned_def split: if_splits)
  have "w_log ?w1 = w_log w @ [TimedOut]" by (simp add: logged_def resetLocked_def)
  then show ?thesis using run after by blast
qed

theorem worker_reset_panics_witness:
  "\<exists>w1 w'. exec [AStart, ARun 0, AStop 1, ACancel 0, ATimeout 0] NewWorker = Some w1 \<and>
     exec [AWait, AReturn 0 (RunErr None), AClose 0] w1 = Some w' \<and> w_crashed w'"
proof -
  define w where "w = the (exec_disciplined [AStart, ARun 0] NewWorker)"
  have w: "exec_disciplined [AStart, ARun 0] NewWorker = Some w" "exec [AStart, ARun 0] NewWorker = Some w" "w_callers w = []" "w_gors w \<noteq> []"
    by (simp_all add: w_def NewWorker_def Start_def logged_def at_def)
  obtain w1 where w1: "exec [AStop 1, ACancel 0, ATimeout 0] w = Some w1" and
    crash: "\<And>bs w'. exec bs w1 = Some w' \<and> AStart \<notin> set bs \<Longrightarrow> w_crashed w' \<longleftrightarrow> (\<exists>k. AClose k \<in> set bs)"
    using worker_reset_panics[OF w(1,3,4), of 1] by auto
  have run: "exec [AStart, ARun 0, AStop 1, ACancel 0, ATimeout 0] NewWorker = Some w1" using w(2) w1 by (auto split: if_splits option.splits)
  then obtain w' where w': "exec [AWait, AReturn 0 (RunErr None), AClose 0] w1 = Some w'"
    by (auto simp: NewWorker_def Start_def Wait_def Stop_def logged_def at_def resetLocked_def run_error_def)
  then show ?thesis using run crash[of "[AWait, AReturn 0 (RunErr None), AClose 0]" w'] by auto
qed

text \<open>The same happens with two waiters: one that wakes up after a restart clears the channel of the new run.\<close>

theorem second_waiter_panics:
  "\<exists>w. exec [AStart, AWait, AWait, ARun 0, AReturn 0 (RunErr None), AClose 0, AJoin 0, AStart, AJoin 0,
             ARun 0, AReturn 0 (RunErr None), AClose 0] NewWorker = Some w \<and> w_crashed w"
  by (simp add: NewWorker_def Start_def Wait_def logged_def at_def join_locked_def resetLocked_def run_error_def)

end
