(* ===== verification/Async_Queue.thy ===== *)
theory Async_Queue
  imports Delivery
begin

text \<open>
  The publisher facade (\<^verbatim>\<open>asyncqueue/asyncqueue.go\<close>, \<^verbatim>\<open>asyncqueue_options.go\<close>, \<^verbatim>\<open>task.go\<close>): construction with
  its options, publishing of tasks and messages, and the management calls that are passed on to the
  driver.  A nil \<^verbatim>\<open>*Queue\<close> is \<open>None\<close>.  Logging is left out.
\<close>

section \<open>Options and construction\<close>

definition defaultMessageTTLSeconds :: int where
  "defaultMessageTTLSeconds = 10 * 24 * 60 * 60"

record asyncQueueOptions =
  a_popTimeout :: int
  a_handleTimeout :: int
  a_retrySeconds :: "int list"
  a_messageTTL :: int
  a_maxAttempts :: int
  a_name :: string

definition defaultQueueOptions :: "string \<Rightarrow> asyncQueueOptions" where
  "defaultQueueOptions channel = \<lparr>a_popTimeout = 1, a_handleTimeout = 180, a_retrySeconds = [30, 90, 300],
     a_messageTTL = defaultMessageTTLSeconds, a_maxAttempts = 3, a_name = channel\<rparr>"

datatype QueueOption =
    WithQueuePopTimeout int
  | WithQueueHandleTimeout int
  | WithQueueRetrySeconds "int list"
  | WithQueueMessageTTL int
  | WithQueueMaxAttempts int
  | WithQueueName string

fun apply_queue_option :: "QueueOption \<Rightarrow> asyncQueueOptions \<Rightarrow> asyncQueueOptions" where
  "apply_queue_option (WithQueuePopTimeout seconds) s = (if seconds > 0 then s\<lparr>a_popTimeout := seconds\<rparr> else s)"
| "apply_queue_option (WithQueueHandleTimeout seconds) s = (if seconds > 0 then s\<lparr>a_handleTimeout := seconds\<rparr> else s)"
| "apply_queue_option (WithQueueRetrySeconds retry) s = (if length retry > 0 then s\<lparr>a_retrySeconds := retry\<rparr> else s)"
| "apply_queue_option (WithQueueMessageTTL seconds) s = (if seconds \<ge> 0 then s\<lparr>a_messageTTL := seconds\<rparr> else s)"
| "apply_queue_option (WithQueueMaxAttempts mx) s = (if mx > 0 then s\<lparr>a_maxAttempts := mx\<rparr> else s)"
| "apply_queue_option (WithQueueName n) s = (if n \<noteq> '''' then s\<lparr>a_name := n\<rparr> else s)"

definition queue_settings :: "string \<Rightarrow> QueueOption option list \<Rightarrow> asyncQueueOptions" where
  "queue_settings channel opts =
     fold (\<lambda>opt s. case opt of None \<Rightarrow> s | Some f \<Rightarrow> apply_queue_option f s) opts (defaultQueueOptions channel)"

record 'w Queue =
  aq_driver :: "'w driver option"
  aq_channel :: string
  aq_PopTimeout :: int
  aq_handleTimeout :: int
  aq_retrySeconds :: "int list"
  aq_messageTTL :: int
  aq_maxAttempts :: int
  aq_name :: string

definition NewAsyncQueue :: "'w driver option \<Rightarrow> string \<Rightarrow> QueueOption option list \<Rightarrow> 'w \<Rightarrow> (error + 'w Queue) \<times> 'w" where
  "NewAsyncQueue driver channel opts w = (case driver of
      None \<Rightarrow> (Inl (ErrText ''queue driver cannot be nil''), w)
    | Some d \<Rightarrow>
        if channel = '''' then (Inl (ErrText ''channel cannot be empty''), w)
        else let s = queue_settings channel opts in
          (case D_Ping d w of
             (Inl err, w1) \<Rightarrow> (Inl (ErrWrap ''driver ping failed: '' err), w1)
           | (Inr _, w1) \<Rightarrow>
               (Inr \<lparr>aq_driver = Some d, aq_channel = channel, aq_PopTimeout = int64 (a_popTimeout s * second_ns),
                     aq_handleTimeout = int64 (a_handleTimeout s * second_ns), aq_retrySeconds = a_retrySeconds s,
                     aq_messageTTL = a_messageTTL s, aq_maxAttempts = a_maxAttempts s, aq_name = a_name s\<rparr>, w1)))"

definition Close :: "'w Queue option \<Rightarrow> error option" where
  "Close q = None"


section \<open>Publishing\<close>

text \<open>\<open>q_live\<close>: the guard every method starts with.  \<^verbatim>\<open>pushMessage\<close> modifies the caller's message, which
  is returned too.\<close>

definition q_live :: "'w Queue option \<Rightarrow> ('w Queue \<times> 'w driver) option" where
  "q_live q = (case q of None \<Rightarrow> None | Some q \<Rightarrow> (case aq_driver q of None \<Rightarrow> None | Some d \<Rightarrow> Some (q, d)))"

definition pushMessage :: "('w \<Rightarrow> int) \<Rightarrow> 'w Queue option \<Rightarrow> Message option \<Rightarrow> int \<Rightarrow> 'w
    \<Rightarrow> (error + string) \<times> Message option \<times> 'w" where
  "pushMessage wall q mp delaySeconds w = (case q_live q of
      None \<Rightarrow> (Inl (ErrText ''queue is nil''), mp, w)
    | Some (q, d) \<Rightarrow> (case mp of
        None \<Rightarrow> (Inl (ErrText ''message is nil''), mp, w)
      | Some m \<Rightarrow>
          (let m1 = (if MaxAttempts m \<le> 0 then m\<lparr>MaxAttempts := 1\<rparr> else m);
               m2 = m1\<lparr>ID := ''''\<rparr>;
               m3 = (if delaySeconds > 0 then SetStatus (wall w) StatusDelayed m2 else SetStatus (wall w) StatusWaiting m2)
           in case D_Push d (aq_channel q) (Some m3) delaySeconds (aq_messageTTL q) w of
                (Inl err, m4, w1) \<Rightarrow> (Inl err, m4, w1)
              | (Inr _, m4, w1) \<Rightarrow> (Inr (case m4 of Some m \<Rightarrow> ID m | None \<Rightarrow> ''''), m4, w1))))"

definition Queue_PushMessage :: "('w \<Rightarrow> int) \<Rightarrow> 'w Queue option \<Rightarrow> Message option \<Rightarrow> int \<Rightarrow> 'w
    \<Rightarrow> (error + string) \<times> Message option \<times> 'w" where
  "Queue_PushMessage wall q m delaySeconds w = pushMessage wall q m delaySeconds w"

text \<open>A task is given by what \<^verbatim>\<open>json.Marshal\<close> makes of it.  The result is \<open>None\<close> when \<^verbatim>\<open>q.maxAttempts\<close>
  dereferences a nil queue.\<close>

definition Queue_PushTask :: "('w \<Rightarrow> int) \<Rightarrow> 'w Queue option \<Rightarrow> (error + json) option \<Rightarrow> int \<Rightarrow> 'w
    \<Rightarrow> ((error + string) \<times> 'w) option" where
  "Queue_PushTask wall q task delaySeconds w = (case task of
      None \<Rightarrow> Some (Inl (ErrText ''push: task must not be nil''), w)
    | Some (Inl err) \<Rightarrow> Some (Inl (ErrWrap ''marshal task: '' err), w)
    | Some (Inr data) \<Rightarrow> (case q of
        None \<Rightarrow> None
      | Some q' \<Rightarrow>
          (case pushMessage wall q (Some (zero_message\<lparr>Payload := Some (Json data), MaxAttempts := aq_maxAttempts q'\<rparr>)) delaySeconds w of
             (r, _, w1) \<Rightarrow> Some (r, w1))))"


section \<open>Management\<close>

record QueueInfo =
  qi_Waiting :: int
  qi_Reserved :: int
  qi_Delayed :: int
  qi_Timeout :: int
  qi_Failed :: int

definition Queue_Info :: "'w Queue option \<Rightarrow> 'w \<Rightarrow> (error + QueueInfo) \<times> 'w" where
  "Queue_Info q w = (case q_live q of
      None \<Rightarrow> (Inl (ErrText ''queue is nil''), w)
    | Some (q, d) \<Rightarrow> (case D_Info d (aq_channel q) w of
        (Inl err, w1) \<Rightarrow> (Inl err, w1)
      | (Inr i, w1) \<Rightarrow> (Inr \<lparr>qi_Waiting = i_Waiting i, qi_Reserved = i_Reserved i, qi_Delayed = i_Delayed i,
                           qi_Timeout = i_Timeout i, qi_Failed = i_Failed i\<rparr>, w1)))"

definition Queue_Reload :: "'w Queue option \<Rightarrow> string \<Rightarrow> 'w \<Rightarrow> ((int \<times> error option) \<times> 'w) option" where
  "Queue_Reload q queueName w = (case q_live q of
      None \<Rightarrow> Some ((0, Some (ErrText ''queue is nil'')), w)
    | Some (q, d) \<Rightarrow> D_Reload d (aq_channel q) queueName w)"

definition Queue_Flush :: "'w Queue option \<Rightarrow> string \<Rightarrow> 'w \<Rightarrow> (error + unit) \<times> 'w" where
  "Queue_Flush q queueName w = (case q_live q of
      None \<Rightarrow> (Inl (ErrText ''queue is nil''), w)
    | Some (q, d) \<Rightarrow> D_Flush d (aq_channel q) queueName w)"

definition GetMessage :: "'w Queue option \<Rightarrow> string \<Rightarrow> 'w \<Rightarrow> (error + Message) \<times> 'w" where
  "GetMessage q i w = (case q_live q of
      None \<Rightarrow> (Inl (ErrText ''queue is nil''), w)
    | Some (q, d) \<Rightarrow> if i = '''' then (Inl (ErrText ''id is empty''), w) else D_Get d (aq_channel q) i w)"

definition Queue_Cancel :: "'w Queue option \<Rightarrow> string \<Rightarrow> 'w \<Rightarrow> (error + bool) \<times> 'w" where
  "Queue_Cancel q i w = (case q_live q of
      None \<Rightarrow> (Inl (ErrText ''queue is nil''), w)
    | Some (q, d) \<Rightarrow>
        if i = '''' then (Inl (ErrText ''id is empty''), w)
        else (case D_Cancel d (aq_channel q) i w of (Inl err, w1) \<Rightarrow> (Inl err, w1) | (Inr ok, w1) \<Rightarrow> (Inr ok, w1)))"

section \<open>Construction\<close>

lemma queue_settings_induct:
  assumes "P (defaultQueueOptions ch)" and "\<And>f s. P s \<Longrightarrow> P (apply_queue_option f s)"
  shows "P (queue_settings ch opts)"
proof -
  have "P s \<Longrightarrow> P (fold (\<lambda>opt s. case opt of None \<Rightarrow> s | Some f \<Rightarrow> apply_queue_option f s) opts s)" for s
    by (induction opts arbitrary: s) (auto simp: assms(2) split: option.split)
  then show ?thesis using assms(1) by (simp add: queue_settings_def)
qed

text \<open>What the options guarantee.\<close>

definition settings_ok :: "asyncQueueOptions \<Rightarrow> bool" where
  "settings_ok s \<longleftrightarrow> 0 < a_popTimeout s \<and> 0 < a_handleTimeout s \<and> a_retrySeconds s \<noteq> [] \<and> 0 \<le> a_messageTTL s \<and> 0 < a_maxAttempts s"

lemma queue_settings_ok: "settings_ok (queue_settings ch opts)"
proof (rule queue_settings_induct[where P = settings_ok])
  show "settings_ok (defaultQueueOptions ch)" by (simp add: settings_ok_def defaultQueueOptions_def defaultMessageTTLSeconds_def)
  show "settings_ok (apply_queue_option f s)" if "settings_ok s" for f s using that by (cases f) (auto simp: settings_ok_def)
qed

lemma NewAsyncQueue_fields:
  assumes "NewAsyncQueue (Some d) ch opts w = (Inr q, w')"
  shows "aq_driver q = Some d" "aq_channel q = ch" "aq_messageTTL q = a_messageTTL (queue_settings ch opts)"
    "aq_maxAttempts q = a_maxAttempts (queue_settings ch opts)"
  using assms by (auto simp: NewAsyncQueue_def Let_def split: if_splits prod.splits sum.splits)

text \<open>C30. A queue is created exactly when a driver is given, the channel is not empty and the driver
  answers its ping; whatever options are given, it then has at least one attempt, a nonempty retry table, no
  negative message lifetime and, up to 292 years, positive timeouts.\<close>

theorem NewAsyncQueue_valid:
  "(case NewAsyncQueue driver ch opts w of
      (Inl e, w') \<Rightarrow> driver = None \<or> ch = '''' \<or> (\<exists>d e'. driver = Some d \<and> D_Ping d w = (Inl e', w') \<and> e = ErrWrap ''driver ping failed: '' e')
    | (Inr q, w') \<Rightarrow> \<exists>d. driver = Some d \<and> ch \<noteq> '''' \<and> D_Ping d w = (Inr (), w') \<and> aq_driver q = driver \<and> aq_channel q = ch \<and>
        0 < aq_maxAttempts q \<and> aq_retrySeconds q \<noteq> [] \<and> 0 \<le> aq_messageTTL q \<and>
        (a_popTimeout (queue_settings ch opts) < 9 * 10 ^ 9 \<and> a_handleTimeout (queue_settings ch opts) < 9 * 10 ^ 9 \<longrightarrow>
           0 < aq_PopTimeout q \<and> 0 < aq_handleTimeout q))"
proof (cases driver)
  case (Some d)
  obtain r w' where p: "D_Ping d w = (r, w')" by force
  have s: "settings_ok (queue_settings ch opts)" by (rule queue_settings_ok)
  have pos: "0 < int64 (t * second_ns)" if "0 < t" "t < 9 * 10 ^ 9" for t :: int
    using that by (subst int64_id) (auto simp: in_int64_def)
  show ?thesis using Some p s pos
    by (cases "ch = ''''"; cases r) (auto simp: NewAsyncQueue_def Let_def settings_ok_def)
qed (simp add: NewAsyncQueue_def)


section \<open>From the publisher to the consumer\<close>

context redis_lua begin

lemma NewAsyncQueue_redis:
  assumes "wok ch w" and "quiet w" and "\<forall>n. w_net w n = Delivered" and "NewAsyncQueue (Some (redis_driver R)) ch opts w = (Inr q, w1)"
  shows "aq_driver q = Some (redis_driver R)" "aq_channel q = ch" "0 < aq_maxAttempts q" "wok ch w1" "quiet w1" "w_net w1 = w_net w"
    "w_db w1 = w_db w"
proof -
  have "Ping w = (Inr (), after_call w (db_at w))" using assms(3) by (simp add: Ping_def client_call_eq reply_of_def)
  then have w1: "w1 = after_call w (db_at w)" and q: "aq_driver q = Some (redis_driver R)" "aq_channel q = ch" "0 < aq_maxAttempts q"
    using assms(4) queue_settings_ok[of ch opts]
    by (auto simp: NewAsyncQueue_def redis_driver_def Let_def settings_ok_def split: if_splits)
  then show "aq_driver q = Some (redis_driver R)" "aq_channel q = ch" "0 < aq_maxAttempts q" by simp_all
  show "wok ch w1" "quiet w1" "w_net w1 = w_net w" "w_db w1 = w_db w"
    using w1 assms(1-3) world_ok_after[OF assms(1) world_ok_db_at[OF assms(1)]] by (auto simp: executed_def)
qed

lemma Push_delivered:
  fixes d ttl :: int
  assumes "wok ch w" and "quiet w" and "\<forall>n. w_net w n = Delivered" and "seq_ok maxMessageSequence look ch (w_db w)"
    and "fst (seq_state look ch (w_db w)) + 1 < 10 ^ 14" and "storable safe m"
  defines "i \<equiv> message_id ch (seq_next maxMessageSequence (seq_state look ch (w_db w)))"
  shows "\<exists>w' wall score. Push R ch (Some m) d ttl w = (Inr (), Some (pushed wall d i m), w') \<and> wok ch w' \<and> quiet w' \<and>
    w_net w' = w_net w \<and> qv ch (w_db w') = q_push i (stored (pushed wall d i m)) (if d = 0 then ''waiting'' else ''delayed'') score (qv ch (w_db w))"
proof -
  have net: "w_net w (w_tick w) = Delivered" using assms(3) by simp
  obtain s1 s where push: "Push R ch (Some m) d ttl w = (reply_of (after_call w s1) (Inr ()),
      Some (pushed (wall_now (after_call w s1)) d i m), after_call (after_call w s1) s)"
    and s1: "qv ch s1 = now_q ch w" "ok ch s1" and s: "ok ch s" "qv ch s = q_push i
      (stored (pushed (wall_now (after_call w s1)) d i m)) (if d = 0 then ''waiting'' else ''delayed'')
      (if d = 0 then 0 else int64 (secs (after_call w s1) + d)) (now_q ch (after_call w s1))"
    using Push_refines[OF assms(1) _ _ assms(6) net, of d ttl] assms(2,4,5) unfolding Let_def i_def by auto
  have w1: "wok ch (after_call w s1)" using assms(1) s1(2) by (rule world_ok_after)
  have "now_q ch (after_call w s1) = qv ch (w_db w)" using s1(1) assms(2) net by (simp add: executed_def)
  then show ?thesis using push s world_ok_after[OF w1 s(1)] assms(2,3)
    by (intro exI[of _ "after_call (after_call w s1) s"] exI[of _ "wall_now (after_call w s1)"]
        exI[of _ "if d = 0 then 0 else int64 (secs (after_call w s1) + d)"]) (auto simp: reply_of_def executed_def)
qed

lemma PushTask_delivered:
  assumes w: "wok ch w" "quiet w" "\<forall>n. w_net w n = Delivered" and seq: "seq_ok maxMessageSequence look ch (w_db w)"
    "fst (seq_state look ch (w_db w)) + 1 < 10 ^ 14" and q: "aq_driver q = Some (redis_driver R)" "aq_channel q = ch"
    "0 < aq_maxAttempts q" "aq_maxAttempts q < 10 ^ 14" and "safe data"
  shows "\<exists>i w' m score. Queue_PushTask wall_now (Some q) (Some (Inr data)) d w = Some (Inr i, w') \<and> i \<noteq> '''' \<and> wok ch w' \<and> quiet w' \<and>
    w_net w' = w_net w \<and> ID m = i \<and> Payload m = Some (Json data) \<and> Attempts m = 0 \<and> MaxAttempts m = aq_maxAttempts q \<and>
    Status m = (if d = 0 then StatusWaiting else StatusDelayed) \<and>
    qv ch (w_db w') = q_push i m (if d = 0 then ''waiting'' else ''delayed'') score (qv ch (w_db w))"
proof -
  define m where "m = (let m2 = zero_message\<lparr>Payload := Some (Json data), MaxAttempts := aq_maxAttempts q\<rparr>
    in if d > 0 then SetStatus (wall_now w) StatusDelayed m2 else SetStatus (wall_now w) StatusWaiting m2)"
  have m: "Payload m = Some (Json data)" "Attempts m = 0" "MaxAttempts m = aq_maxAttempts q" "ID m = ''''"
    by (simp_all add: m_def Let_def zero_message_def)
  have "storable safe m"
    using q(3,4) assms(10) world_ok_wall[OF w(1)] by (simp add: m_def storable_def lua_exact_def payload_json_def zero_message_def Let_def SetStatus_def)
  then obtain w' wall score where push: "Push R ch (Some m) d (aq_messageTTL q) w = (Inr (), Some (pushed wall d
      (message_id ch (seq_next maxMessageSequence (seq_state look ch (w_db w)))) m), w')" and w': "wok ch w'" "quiet w'" "w_net w' = w_net w"
    and qv: "qv ch (w_db w') = q_push (message_id ch (seq_next maxMessageSequence (seq_state look ch (w_db w))))
      (stored (pushed wall d (message_id ch (seq_next maxMessageSequence (seq_state look ch (w_db w)))) m))
      (if d = 0 then ''waiting'' else ''delayed'') score (qv ch (w_db w))"
    using Push_delivered[OF w seq, of m d "aq_messageTTL q"] by blast
  let ?i = "message_id ch (seq_next maxMessageSequence (seq_state look ch (w_db w)))"
  have "?i \<noteq> ''''" using md5_hex_shape(1)[of "id_text ch (seq_next maxMessageSequence (seq_state look ch (w_db w)))"]
    by (auto simp: message_id_def)
  moreover have "Queue_PushTask wall_now (Some q) (Some (Inr data)) d w = Some (Inr ?i, w')"
  proof -
    have "(if MaxAttempts (zero_message\<lparr>Payload := Some (Json data), MaxAttempts := aq_maxAttempts q\<rparr>) \<le> 0
        then zero_message\<lparr>Payload := Some (Json data), MaxAttempts := 1\<rparr>
        else zero_message\<lparr>Payload := Some (Json data), MaxAttempts := aq_maxAttempts q\<rparr>)\<lparr>ID := ''''\<rparr>
      = zero_message\<lparr>Payload := Some (Json data), MaxAttempts := aq_maxAttempts q\<rparr>"
      using q(3) by (simp add: zero_message_def)
    then show ?thesis using push q(1-3)
      by (cases "0 < d") (simp_all add: Queue_PushTask_def pushMessage_def q_live_def Let_def redis_driver_def m_def pushed_def)
  qed
  moreover have "ID (stored (pushed wall d ?i m)) = ?i" "Payload (stored (pushed wall d ?i m)) = Some (Json data)"
    "Attempts (stored (pushed wall d ?i m)) = 0" "MaxAttempts (stored (pushed wall d ?i m)) = aq_maxAttempts q"
    "Status (stored (pushed wall d ?i m)) = (if d = 0 then StatusWaiting else StatusDelayed)"
    using m by (simp_all add: stored_def pushed_def payload_json_def SetStatus_def)
  ultimately show ?thesis using w' qv by blast
qed

lemma pushed_task_pops:
  assumes w: "wok ch w" "quiet w" "\<forall>n. w_net w n = Delivered" and seq: "seq_ok maxMessageSequence look ch (w_db w)"
    "fst (seq_state look ch (w_db w)) + 1 < 10 ^ 14" and q: "aq_driver q = Some (redis_driver R)" "aq_channel q = ch"
    "0 < aq_maxAttempts q" "aq_maxAttempts q < 10 ^ 14" and "safe data" and "q_waiting (qv ch (w_db w)) = []"
  shows "\<exists>i w2 m w3. Queue_PushTask wall_now (Some q) (Some (Inr data)) 0 w = Some (Inr i, w2) \<and> i \<noteq> '''' \<and>
    Pop R ch pt ht None w2 = Some (Inr (i, Some m), w3) \<and> ID m = i \<and> Payload m = Some (Json data) \<and> Attempts m = 0 \<and>
    MaxAttempts m = aq_maxAttempts q \<and> Status m = StatusReserved"
proof -
  obtain i w2 m score where push: "Queue_PushTask wall_now (Some q) (Some (Inr data)) 0 w = Some (Inr i, w2)" "i \<noteq> ''''"
    and w2: "wok ch w2" "quiet w2" "w_net w2 = w_net w"
    and m: "ID m = i" "Payload m = Some (Json data)" "Attempts m = 0" "MaxAttempts m = aq_maxAttempts q"
    and qv: "qv ch (w_db w2) = q_push i m ''waiting'' score (qv ch (w_db w))"
    using PushTask_delivered[OF assms(1-10), of 0] by auto
  have e: "q_waiting (qv ch (w_db w2)) = [] @ i # []" "q_msgs (qv ch (w_db w2)) i = Some m"
    using qv assms(11) by (simp_all add: q_push_def q_enqueue_def)
  have d: "w_net w2 (w_tick w2) = Delivered" "w_net w2 (Suc (w_tick w2)) = Delivered" using w(3) w2(3) by simp_all
  obtain w3 wall where "Pop R ch pt ht None w2 = Some (Inr (i, Some (fill_defaults wall (stamp StatusReserved (secs w2) m))), w3)"
    using Pop_delivered[OF w2(1,2) d e(1) push(2) e(2), of pt ht None] by auto
  moreover have "MaxAttempts (fill_defaults wall (stamp StatusReserved (secs w2) m)) = aq_maxAttempts q"
    "Status (fill_defaults wall (stamp StatusReserved (secs w2) m)) = StatusReserved"
    using m q(3) by (simp_all add: fill_defaults_def Let_def status_defs)
  ultimately show ?thesis using push m
    by (intro exI[of _ i] exI[of _ w2] exI[of _ "fill_defaults wall (stamp StatusReserved (secs w2) m)"] exI[of _ w3]) simp
qed

end

text \<open>What a producer publishes is what a consumer gets: on a channel with nothing waiting, a task pushed
  through a new queue returns a nonempty id, and the next \<^verbatim>\<open>Pop\<close> delivers exactly this id with the
  marshalled task as payload, no attempt used, the configured maximum and the status reserved.\<close>

theorem publish_delivers:
  assumes "redis_lua R look conv safe" and "world_ok safe look ch w" and "quiet w" and "\<forall>n. w_net w n = Delivered"
    and "seq_ok maxMessageSequence look ch (w_db w)" and "fst (seq_state look ch (w_db w)) + 1 < 10 ^ 14"
    and "NewAsyncQueue (Some (redis_driver R)) ch opts w = (Inr q, w1)" and "aq_maxAttempts q < 10 ^ 14" and "safe data"
    and "q_waiting (view look ch (w_db w)) = []"
  shows "\<exists>i w2 m w3. Queue_PushTask wall_now (Some q) (Some (Inr data)) 0 w1 = Some (Inr i, w2) \<and> i \<noteq> '''' \<and>
    Pop R ch pt ht None w2 = Some (Inr (i, Some m), w3) \<and> ID m = i \<and> Payload m = Some (Json data) \<and> Attempts m = 0 \<and>
    MaxAttempts m = aq_maxAttempts q \<and> Status m = StatusReserved"
proof -
  note q = redis_lua.NewAsyncQueue_redis[OF assms(1-4,7)]
  show ?thesis using redis_lua.pushed_task_pops[OF assms(1) q(4,5) _ _ _ q(1-3) assms(8,9), of pt ht] q(6,7) assms(4-6,10) by simp
qed

text \<open>A negative delay does not mean immediate delivery: the facade marks such a message as waiting,
  but the driver compares the delay with zero and stores it as delayed, so it is delivered
  only after the forwarder's next round.\<close>

theorem negative_delay_is_delayed:
  assumes "redis_lua R look conv safe" and "world_ok safe look ch w" and "quiet w" and "\<forall>n. w_net w n = Delivered"
    and "seq_ok maxMessageSequence look ch (w_db w)" and "fst (seq_state look ch (w_db w)) + 1 < 10 ^ 14"
    and "NewAsyncQueue (Some (redis_driver R)) ch opts w = (Inr q, w1)" and "aq_maxAttempts q < 10 ^ 14" and "safe data" and "d < 0"
  shows "\<exists>i w2. Queue_PushTask wall_now (Some q) (Some (Inr data)) d w1 = Some (Inr i, w2) \<and>
    i \<in> zset_members (q_delayed (view look ch (w_db w2))) \<and> q_waiting (view look ch (w_db w2)) = q_waiting (view look ch (w_db w)) \<and>
    map_option Status (q_msgs (view look ch (w_db w2)) i) = Some StatusDelayed"
proof -
  note q = redis_lua.NewAsyncQueue_redis[OF assms(1-4,7)]
  have net: "\<forall>n. w_net w1 n = Delivered" using q(6) assms(4) by simp
  from redis_lua.PushTask_delivered[OF assms(1) q(4,5) net _ _ q(1-3) assms(8,9), of d] q(7) assms(5,6,10)
  show ?thesis by (fastforce simp: q_push_def q_enqueue_def)
qed

text \<open>A queue over the in-memory server.\<close>

abbreviation demo_start :: "mem world" where
  "demo_start \<equiv> demo_world (\<lambda>_. Delivered) mem_empty"

lemma demo_seq: "seq_ok maxMessageSequence m_obj ''q'' mem_empty" "seq_state m_obj ''q'' mem_empty = (0, 0)"
  by (simp_all add: seq_ok_def seq_state_def mem_empty_def holds_counter_def maxMessageSequence_def Let_def)

lemma demo_queue: "\<exists>q w1. NewAsyncQueue (Some (redis_driver mem_redis)) ''q'' [] demo_start = (Inr q, w1) \<and> aq_maxAttempts q = 3"
proof -
  have "Ping demo_start = (Inr (), after_call demo_start mem_empty)" by (simp add: Ping_def client_call_eq reply_of_def)
  then show ?thesis
    by (simp add: NewAsyncQueue_def redis_driver_def Let_def queue_settings_def defaultQueueOptions_def)
qed

theorem publish_delivers_witness:
  "\<exists>q w1 i w2 m w3. NewAsyncQueue (Some (redis_driver mem_redis)) ''q'' [] demo_start = (Inr q, w1) \<and>
     Queue_PushTask wall_now (Some q) (Some (Inr JNull)) 0 w1 = Some (Inr i, w2) \<and>
     Pop mem_redis ''q'' 0 0 None w2 = Some (Inr (i, Some m), w3) \<and> Payload m = Some (Json JNull)"
proof -
  obtain q w1 where q: "NewAsyncQueue (Some (redis_driver mem_redis)) ''q'' [] demo_start = (Inr q, w1)" "aq_maxAttempts q = 3"
    using demo_queue by blast
  then show ?thesis
    using publish_delivers[OF demo_lua demo_world_ok[OF demo_empty(1)] _ _ _ q(1), where data = JNull and pt = 0 and ht = 0]
    by (fastforce simp: demo_seq demo_empty q_empty_def mem_safe_def)
qed

theorem negative_delay_is_delayed_witness:
  "\<exists>q w1 i w2. NewAsyncQueue (Some (redis_driver mem_redis)) ''q'' [] demo_start = (Inr q, w1) \<and>
     Queue_PushTask wall_now (Some q) (Some (Inr JNull)) (-5) w1 = Some (Inr i, w2) \<and>
     i \<in> zset_members (q_delayed (demo_view (w_db w2)))"
proof -
  obtain q w1 where q: "NewAsyncQueue (Some (redis_driver mem_redis)) ''q'' [] demo_start = (Inr q, w1)" "aq_maxAttempts q = 3"
    using demo_queue by blast
  then show ?thesis
    using negative_delay_is_delayed[OF demo_lua demo_world_ok[OF demo_empty(1)] _ _ _ q(1), where data = JNull and d = "-5"]
    by (fastforce simp: demo_seq mem_safe_def)
qed

theorem NewAsyncQueue_valid_witness:
  "\<exists>q w1. NewAsyncQueue (Some (redis_driver mem_redis)) ''q'' [] demo_start = (Inr q, w1) \<and> 0 < aq_maxAttempts q \<and> 0 < aq_PopTimeout q"
proof -
  obtain q w1 where q: "NewAsyncQueue (Some (redis_driver mem_redis)) ''q'' [] demo_start = (Inr q, w1)" using demo_queue by blast
  then show ?thesis
    using NewAsyncQueue_valid[where driver = "Some (redis_driver mem_redis)" and ch = "''q''" and opts = "[]" and w = demo_start]
    by (auto simp: queue_settings_def defaultQueueOptions_def)
qed

end
