(* ===== verification/Manager.thy ===== *)
theory Manager
  imports Async_Queue Consumer_Run Forwarder "HOL-Library.AList"
begin

text \<open>
  The manager (\<^verbatim>\<open>asyncqueue/manager.go\<close>), the handler registry (\<^verbatim>\<open>servemux.go\<close>) and the configuration
  (\<^verbatim>\<open>config.go\<close>).  Go ranges over a map in no particular order: the configured queues are a list of
  entries, in the order in which one such iteration visits them, and what is proved holds for every
  list.  The goroutines the wait group counts are recorded in \<open>m_wg\<close>; the steps by which they end are
  the relation \<open>m_step\<close>.  What a worker, consumer or forwarder does while it runs is the subject of
  \<open>Worker\<close>, \<open>Consumer_Run\<close> and \<open>Forwarder\<close>.  Logging is left out.
\<close>

section \<open>Configuration and handlers\<close>

record QueueConfig =
  cfg_Name :: string
  cfg_Driver :: string
  cfg_Channel :: string
  cfg_Enabled :: bool
  cfg_PopTimeout :: int
  cfg_HandleTimeout :: int
  cfg_RetrySeconds :: "int list"
  cfg_MessageTTL :: int
  cfg_MaxAttempts :: int
  cfg_Processes :: int
  cfg_Concurrent :: int
  cfg_AutoRestart :: bool
  cfg_MaxMessages :: int
  cfg_ShutdownTimeout :: int

type_synonym Config = "(string \<times> QueueConfig) list"

record 'w ServeMux =
  mux_handlers :: "string \<rightharpoonup> 'w handler"

definition NewServeMux :: "'w ServeMux" where
  "NewServeMux = \<lparr>mux_handlers = Map.empty\<rparr>"

definition Mux_Handle :: "string \<Rightarrow> 'w handler \<Rightarrow> 'w ServeMux \<Rightarrow> 'w ServeMux" where
  "Mux_Handle name handler r = r\<lparr>mux_handlers := (mux_handlers r)(name \<mapsto> handler)\<rparr>"

definition Mux_Get :: "string \<Rightarrow> 'w ServeMux \<Rightarrow> 'w handler option" where
  "Mux_Get name r = mux_handlers r name"


section \<open>The manager\<close>

text \<open>The goroutines: a forwarder, a consumer that runs until it ends, and a consumer that is
  restarted.  The last one carries what \<^verbatim>\<open>runWorkerWithAutoRestart\<close> needs to build the next consumer.\<close>

datatype 'w mproc =
    ForwarderProc string "'w driver \<times> forwarder"
  | ConsumerProc string int "'w Consumer"
  | RestartProc string int "'w Consumer" "'w Queue" "'w handler" QueueConfig

record 'w Manager =
  m_config :: Config
  m_serveMux :: "'w ServeMux"
  m_queues :: "string \<rightharpoonup> 'w Queue"
  m_workers :: "string \<rightharpoonup> 'w Consumer list"
  m_forwarders :: "string \<rightharpoonup> 'w driver \<times> forwarder"
  m_drivers :: "string \<rightharpoonup> 'w driver"
  m_ctxDone :: bool
  m_wg :: "'w mproc list"
  m_errors :: "(string \<times> error) list option"
  m_started :: bool

definition newManager :: "Config option \<Rightarrow> 'w ServeMux option \<Rightarrow> error + 'w Manager" where
  "newManager config serveMux = (case config of
      None \<Rightarrow> Inl (ErrText ''config is nil'')
    | Some cfg \<Rightarrow> (case serveMux of
        None \<Rightarrow> Inl (ErrText ''serveMux is nil'')
      | Some mux \<Rightarrow> Inr \<lparr>m_config = cfg, m_serveMux = mux, m_queues = Map.empty, m_workers = Map.empty,
          m_forwarders = Map.empty, m_drivers = Map.empty, m_ctxDone = False, m_wg = [], m_errors = None,
          m_started = False\<rparr>))"

definition NewManager :: "Config option \<Rightarrow> 'w ServeMux option \<Rightarrow> error + 'w Manager" where
  "NewManager config serveMux = newManager config serveMux"

definition RegisterDriver :: "string \<Rightarrow> 'w driver option \<Rightarrow> 'w Manager \<Rightarrow> 'w Manager" where
  "RegisterDriver driverName d m = (case d of
      None \<Rightarrow> m
    | Some d \<Rightarrow> if driverName = '''' then m else m\<lparr>m_drivers := (m_drivers m)(driverName \<mapsto> d)\<rparr>)"

definition RegisterQueueDriver :: "string \<Rightarrow> 'w driver option \<Rightarrow> 'w Manager \<Rightarrow> 'w Manager" where
  "RegisterQueueDriver queueName d m = RegisterDriver queueName d m"

text \<open>\<^verbatim>\<open>%q\<close> of a driver name without characters to escape.\<close>

definition quoted :: "string \<Rightarrow> string" where
  "quoted t = [CHR 0x22] @ t @ [CHR 0x22]"

definition check_queue :: "'w Manager \<Rightarrow> string \<Rightarrow> QueueConfig \<Rightarrow> error option" where
  "check_queue m queueName cfg =
     (if Mux_Get queueName (m_serveMux m) = None
      then Some (ErrText (''[Async-Queue-Manager] handler not registered for queue: '' @ queueName))
      else if cfg_Driver cfg = ''''
      then Some (ErrText (''[Async-Queue-Manager] driver is empty for queue: '' @ queueName))
      else if m_drivers m (cfg_Driver cfg) = None
      then Some (ErrText (''[Async-Queue-Manager] driver '' @ quoted (cfg_Driver cfg) @ '' not registered for queue: '' @ queueName))
      else None)"

fun check_queues :: "'w Manager \<Rightarrow> Config \<Rightarrow> error option" where
  "check_queues m [] = None"
| "check_queues m ((queueName, cfg) # rest) =
     (if \<not> cfg_Enabled cfg then check_queues m rest
      else case check_queue m queueName cfg of Some err \<Rightarrow> Some err | None \<Rightarrow> check_queues m rest)"

definition checkStartWorkerOptions :: "'w Manager \<Rightarrow> error option" where
  "checkStartWorkerOptions m = check_queues m (m_config m)"


section \<open>Starting\<close>

definition queueOpts :: "string \<Rightarrow> QueueConfig \<Rightarrow> QueueOption option list" where
  "queueOpts queueName cfg = [Some (WithQueuePopTimeout (cfg_PopTimeout cfg)), Some (WithQueueHandleTimeout (cfg_HandleTimeout cfg)),
     Some (WithQueueRetrySeconds (cfg_RetrySeconds cfg)), Some (WithQueueMessageTTL (cfg_MessageTTL cfg)),
     Some (WithQueueMaxAttempts (cfg_MaxAttempts cfg)), Some (WithQueueName queueName)]"

definition new_consumer :: "string \<Rightarrow> int \<Rightarrow> 'w driver \<Rightarrow> 'w Queue \<Rightarrow> 'w handler \<Rightarrow> QueueConfig \<Rightarrow> 'w Consumer" where
  "new_consumer queueName processID d q handler cfg = NewConsumer d (aq_channel q) handler
     [Some (WithConsumerConcurrentLimit (cfg_Concurrent cfg)), Some (WithConsumerAutoRestart (cfg_AutoRestart cfg)),
      Some (WithConsumerMaxMessages (cfg_MaxMessages cfg)), Some (WithConsumerPopTimeout (aq_PopTimeout q)),
      Some (WithConsumerHandleTimeout (aq_handleTimeout q)), Some (WithConsumerRetrySeconds (aq_retrySeconds q)),
      Some (WithConsumerMessageTTL (aq_messageTTL q)), Some (WithConsumerName queueName),
      Some (WithConsumerProcessID processID)]"

definition consumer_proc :: "string \<Rightarrow> int \<Rightarrow> 'w driver \<Rightarrow> 'w Queue \<Rightarrow> 'w handler \<Rightarrow> QueueConfig \<Rightarrow> 'w mproc" where
  "consumer_proc queueName processID d q handler cfg =
     (let c = new_consumer queueName processID d q handler cfg in
      if cfg_AutoRestart cfg \<and> cfg_MaxMessages cfg > 0 then RestartProc queueName processID c q handler cfg
      else ConsumerProc queueName processID c)"

text \<open>The loop body for one enabled queue.  A negative number of processes panics in \<^verbatim>\<open>make\<close>: \<open>None\<close>.
  The driver and the handler exist after \<^verbatim>\<open>checkStartWorkerOptions\<close>.\<close>

definition start_queue :: "string \<Rightarrow> QueueConfig \<Rightarrow> 'w driver \<Rightarrow> 'w handler \<Rightarrow> 'w Manager \<Rightarrow> 'w
    \<Rightarrow> (error option \<times> 'w Manager \<times> 'w) option" where
  "start_queue queueName cfg d handler m w =
     (case NewAsyncQueue (Some d) (cfg_Channel cfg) (queueOpts queueName cfg) w of
        (Inl err, w1) \<Rightarrow> Some (Some (ErrWrap (''[Async-Queue-Manager] create queue '' @ queueName @ '': '') err), m, w1)
      | (Inr q, w1) \<Rightarrow>
          (let m1 = m\<lparr>m_queues := (m_queues m)(queueName \<mapsto> q)\<rparr>;
               m2 = (case NewForwarder (Some d) queueName (aq_channel q) of
                       None \<Rightarrow> m1
                     | Some fw \<Rightarrow> m1\<lparr>m_forwarders := (m_forwarders m1)(queueName \<mapsto> fw), m_wg := m_wg m1 @ [ForwarderProc queueName fw]\<rparr>)
           in if cfg_Processes cfg < 0 then None
              else let is = map int [0 ..< nat (cfg_Processes cfg)];
                       m3 = m2\<lparr>m_wg := m_wg m2 @ map (\<lambda>i. consumer_proc queueName i d q handler cfg) is,
                               m_workers := (m_workers m2)(queueName \<mapsto> map (\<lambda>i. new_consumer queueName i d q handler cfg) is)\<rparr>
                   in Some (None, m3, w1)))"

definition closeQueuesLocked :: "'w Manager \<Rightarrow> 'w Manager" where
  "closeQueuesLocked m = m\<lparr>m_queues := Map.empty\<rparr>"

text \<open>\<^verbatim>\<open>rollbackStartLocked\<close> waits until the goroutines started so far have ended; the wait, during which it releases the lock, is
  an emptied wait group.\<close>

definition rollbackStartLocked :: "'w Manager \<Rightarrow> 'w Manager" where
  "rollbackStartLocked m = (closeQueuesLocked (m\<lparr>m_ctxDone := True, m_wg := []\<rparr>))
     \<lparr>m_workers := Map.empty, m_forwarders := Map.empty, m_errors := None, m_started := False\<rparr>"

fun start_queues :: "Config \<Rightarrow> 'w Manager \<Rightarrow> 'w \<Rightarrow> (error option \<times> 'w Manager \<times> 'w) option" where
  "start_queues [] m w = Some (None, m\<lparr>m_started := True\<rparr>, w)"
| "start_queues ((queueName, cfg) # rest) m w =
     (if \<not> cfg_Enabled cfg then start_queues rest m w
      else case (m_drivers m (cfg_Driver cfg), Mux_Get queueName (m_serveMux m)) of
        (Some d, Some handler) \<Rightarrow>
          (case start_queue queueName cfg d handler m w of
             None \<Rightarrow> None
           | Some (Some err, m1, w1) \<Rightarrow> Some (Some err, rollbackStartLocked m1, w1)
           | Some (None, m1, w1) \<Rightarrow> start_queues rest m1 w1)
      | _ \<Rightarrow> None)"

definition StartWorker :: "'w Manager \<Rightarrow> 'w \<Rightarrow> (error option \<times> 'w Manager \<times> 'w) option" where
  "StartWorker m w =
     (if m_started m then Some (Some (ErrText ''[Async-Queue-Manager] already started''), m, w)
      else case checkStartWorkerOptions m of
        Some err \<Rightarrow> Some (Some err, m, w)
      | None \<Rightarrow> start_queues (m_config m)
          (m\<lparr>m_ctxDone := False, m_errors := Some [], m_workers := Map.empty, m_forwarders := Map.empty\<rparr>) w)"

definition Manager_GetQueue :: "string \<Rightarrow> 'w Manager \<Rightarrow> error + 'w Queue" where
  "Manager_GetQueue name m = (case m_queues m name of
      None \<Rightarrow> Inl (ErrText (''queue not found: '' @ name))
    | Some q \<Rightarrow> Inr q)"


section \<open>Running and stopping\<close>

definition forwarderProcessID :: int where
  "forwarderProcessID = -1"

definition error_key :: "string \<Rightarrow> int \<Rightarrow> string" where
  "error_key queueName processID = queueName @ '':'' @ show_int processID"

text \<open>Writing to a nil map panics: \<open>None\<close>.\<close>

definition recordError :: "string \<Rightarrow> int \<Rightarrow> error \<Rightarrow> 'w Manager \<Rightarrow> 'w Manager option" where
  "recordError queueName processID err m = (case m_errors m of
      None \<Rightarrow> None
    | Some es \<Rightarrow> Some (m\<lparr>m_errors := Some (AList.update (error_key queueName processID) err es)\<rparr>))"

definition runErrors :: "'w Manager \<Rightarrow> error option" where
  "runErrors m = (case m_errors m of
      None \<Rightarrow> None
    | Some es \<Rightarrow> if es = [] then None
                else Some (ErrJoin (''[Async-Queue-Manager] '' @ show_int (int (length es)) @ '' error(s): '') (map snd es)))"

text \<open>The end of a goroutine whose worker's \<^verbatim>\<open>Wait\<close> returned \<open>err\<close>.\<close>

definition record_exit :: "string \<Rightarrow> int \<Rightarrow> string \<Rightarrow> error option \<Rightarrow> 'w Manager \<Rightarrow> 'w Manager option" where
  "record_exit queueName processID what err m = (case err of
      None \<Rightarrow> Some m
    | Some e \<Rightarrow> recordError queueName processID (ErrWrap what e) m)"

definition without_proc :: "nat \<Rightarrow> 'w Manager \<Rightarrow> 'w Manager" where
  "without_proc k m = m\<lparr>m_wg := remove_nth k (m_wg m)\<rparr>"

text \<open>How the goroutines end.  A forwarder returns nil once the context has ended and not before
  (\<open>forwarder_runs_until_done\<close>), and an error only if it panics; a consumer may end at any time with any result, which covers more than a run can do.  \<^verbatim>\<open>Start\<close> of
  a new worker is never refused.\<close>

inductive m_step :: "'w Manager \<Rightarrow> 'w Manager \<Rightarrow> bool" where
  forwarder_ends: "k < length (m_wg m) \<Longrightarrow> m_wg m ! k = ForwarderProc queueName fw \<Longrightarrow> m_ctxDone m \<or> err \<noteq> None \<Longrightarrow>
    record_exit queueName forwarderProcessID ''forwarder-wait: '' err m = Some m1 \<Longrightarrow> m_step m (without_proc k m1)"
| consumer_ends: "k < length (m_wg m) \<Longrightarrow> m_wg m ! k = ConsumerProc queueName i c \<Longrightarrow>
    record_exit queueName i ''wait: '' err m = Some m1 \<Longrightarrow> m_step m (without_proc k m1)"
| restart_head: "k < length (m_wg m) \<Longrightarrow> m_wg m ! k = RestartProc queueName i c q handler cfg \<Longrightarrow> m_ctxDone m \<Longrightarrow>
    m_step m (without_proc k m)"
| restart_ends: "k < length (m_wg m) \<Longrightarrow> m_wg m ! k = RestartProc queueName i c q handler cfg \<Longrightarrow> m_ctxDone m \<Longrightarrow>
    record_exit queueName i ''[Async-Queue-Manager] runWorkerWithAutoRestart ctx.Done error : '' err m = Some m1 \<Longrightarrow>
    m_step m (without_proc k m1)"
| restarts: "k < length (m_wg m) \<Longrightarrow> m_wg m ! k = RestartProc queueName i c q handler cfg \<Longrightarrow> \<not> m_ctxDone m \<Longrightarrow>
    record_exit queueName i ''[Async-Queue-Manager] runWorkerWithAutoRestart error : '' err m = Some m1 \<Longrightarrow> aq_driver q = Some d \<Longrightarrow>
    m_step m (m1\<lparr>m_wg := (m_wg m1)[k := RestartProc queueName i (new_consumer queueName i d q handler cfg) q handler cfg]\<rparr>)"

text \<open>\<^verbatim>\<open>Stop\<close>: its beginning, up to the wait for the goroutines, and its end when they have ended.\<close>

definition Stop_begin :: "'w Manager \<Rightarrow> error + 'w Manager" where
  "Stop_begin m = (if \<not> m_started m then Inl (ErrText ''[Async-Queue-Manager] not started'') else Inr (m\<lparr>m_ctxDone := True\<rparr>))"

definition Stop_end :: "'w Manager \<Rightarrow> error option \<times> 'w Manager" where
  "Stop_end m = (let m1 = (closeQueuesLocked m)\<lparr>m_started := False, m_workers := Map.empty, m_forwarders := Map.empty\<rparr>
     in (runErrors m1, m1))"

definition stop_timeout :: error where
  "stop_timeout = ErrText ''[Async-Queue-Manager] stop timeout''"

text \<open>A call of \<^verbatim>\<open>Stop\<close>: refused, completed after the goroutines' steps, or given up.\<close>

inductive Manager_Stop :: "int \<Rightarrow> 'w Manager \<Rightarrow> error option \<Rightarrow> 'w Manager \<Rightarrow> bool" where
  refused: "Stop_begin m = Inl e \<Longrightarrow> Manager_Stop timeout m (Some e) m"
| completed: "Stop_begin m = Inr m1 \<Longrightarrow> m_step\<^sup>*\<^sup>* m1 m2 \<Longrightarrow> m_wg m2 = [] \<Longrightarrow> Stop_end m2 = (r, m3) \<Longrightarrow> Manager_Stop timeout m r m3"
| gave_up: "Stop_begin m = Inr m1 \<Longrightarrow> m_step\<^sup>*\<^sup>* m1 m2 \<Longrightarrow> timeout > 0 \<Longrightarrow> Manager_Stop timeout m (Some stop_timeout) m2"

text \<open>\<^verbatim>\<open>Wait\<close>, and \<^verbatim>\<open>Run\<close>: it returns what \<^verbatim>\<open>Wait\<close> does, or stops when its context ends.\<close>

inductive Manager_Wait :: "'w Manager \<Rightarrow> error option \<Rightarrow> 'w Manager \<Rightarrow> bool" where
  waited: "m_step\<^sup>*\<^sup>* m m1 \<Longrightarrow> m_wg m1 = [] \<Longrightarrow> Manager_Wait m (runErrors m1) m1"

inductive Manager_Run :: "int \<Rightarrow> 'w Manager \<Rightarrow> 'w \<Rightarrow> error option \<Rightarrow> 'w Manager \<Rightarrow> bool" where
  not_started: "StartWorker m w = Some (Some err, m1, w1) \<Longrightarrow> Manager_Run shutdownTimeout m w (Some err) m1"
| ran_out: "StartWorker m w = Some (None, m1, w1) \<Longrightarrow> Manager_Wait m1 r m2 \<Longrightarrow> Manager_Run shutdownTimeout m w r m2"
| ctx_ended: "StartWorker m w = Some (None, m1, w1) \<Longrightarrow> m_step\<^sup>*\<^sup>* m1 m2 \<Longrightarrow> Manager_Stop shutdownTimeout m2 r m3 \<Longrightarrow>
    Manager_Run shutdownTimeout m w r m3"

section \<open>What starting does\<close>

lemma check_queues_None:
  "check_queues m cfgs = None \<longleftrightarrow> (\<forall>(n, cfg) \<in> set cfgs. cfg_Enabled cfg \<longrightarrow> check_queue m n cfg = None)"
  by (induction m cfgs rule: check_queues.induct) (auto split: option.splits)

lemma check_queue_None:
  "check_queue m n cfg = None \<longleftrightarrow> Mux_Get n (m_serveMux m) \<noteq> None \<and> cfg_Driver cfg \<noteq> '''' \<and> m_drivers m (cfg_Driver cfg) \<noteq> None"
  by (auto simp: check_queue_def)

fun proc_name :: "'w mproc \<Rightarrow> string" where
  "proc_name (ForwarderProc n fw) = n" | "proc_name (ConsumerProc n i c) = n" | "proc_name (RestartProc n i c q h cfg) = n"

lemma consumer_proc_name [simp]: "proc_name (consumer_proc n i d q h cfg) = n"
  by (simp add: consumer_proc_def Let_def)

text \<open>A queue is up: its facade exists on the configured channel, with the configured maximum of attempts, one forwarder and the configured
  number of consumers, and nothing else runs under its name.\<close>

definition queue_up :: "'w Manager \<Rightarrow> string \<Rightarrow> QueueConfig \<Rightarrow> bool" where
  "queue_up m n cfg \<longleftrightarrow> (\<exists>q d h fw. m_queues m n = Some q \<and> aq_channel q = cfg_Channel cfg \<and> aq_driver q = Some d \<and>
     aq_maxAttempts q = (if cfg_MaxAttempts cfg > 0 then cfg_MaxAttempts cfg else 3) \<and>
     m_drivers m (cfg_Driver cfg) = Some d \<and> Mux_Get n (m_serveMux m) = Some h \<and> m_forwarders m n = Some fw \<and>
     m_workers m n = Some (map (\<lambda>i. new_consumer n i d q h cfg) (map int [0 ..< nat (cfg_Processes cfg)])) \<and>
     filter (\<lambda>p. proc_name p = n) (m_wg m) =
       ForwarderProc n fw # map (\<lambda>i. consumer_proc n i d q h cfg) (map int [0 ..< nat (cfg_Processes cfg)]))"

definition queue_absent :: "'w Manager \<Rightarrow> string \<Rightarrow> bool" where
  "queue_absent m n \<longleftrightarrow> (\<forall>p \<in> set (m_wg m). proc_name p \<noteq> n)"

lemma queueOpts_attempts:
  "a_maxAttempts (queue_settings ch (queueOpts n cfg)) = (if cfg_MaxAttempts cfg > 0 then cfg_MaxAttempts cfg else 3)"
  by (simp add: queue_settings_def queueOpts_def defaultQueueOptions_def)

lemma start_queue_cases:
  assumes "start_queue n cfg d h m w = Some (r, m', w')"
  obtains (failed) e where "r = Some e" "m' = m"
  | (up) q fw where "r = None" "aq_channel q = cfg_Channel cfg" "aq_driver q = Some d"
      "aq_maxAttempts q = (if cfg_MaxAttempts cfg > 0 then cfg_MaxAttempts cfg else 3)"
      "m' = m\<lparr>m_queues := (m_queues m)(n \<mapsto> q), m_forwarders := (m_forwarders m)(n \<mapsto> fw),
        m_wg := m_wg m @ ForwarderProc n fw # map (\<lambda>i. consumer_proc n i d q h cfg) (map int [0 ..< nat (cfg_Processes cfg)]),
        m_workers := (m_workers m)(n \<mapsto> map (\<lambda>i. new_consumer n i d q h cfg) (map int [0 ..< nat (cfg_Processes cfg)]))\<rparr>"
proof -
  obtain x w1 where new: "NewAsyncQueue (Some d) (cfg_Channel cfg) (queueOpts n cfg) w = (x, w1)" by force
  show ?thesis
  proof (cases x)
    case (Inl e)
    then show ?thesis using assms new by (intro failed) (auto simp: start_queue_def)
  next
    case (Inr q)
    have q: "aq_channel q = cfg_Channel cfg" "aq_driver q = Some d"
      "aq_maxAttempts q = (if cfg_MaxAttempts cfg > 0 then cfg_MaxAttempts cfg else 3)"
      using NewAsyncQueue_fields[OF new[unfolded Inr]] by (simp_all add: queueOpts_attempts)
    obtain fw where fw: "NewForwarder (Some d) n (aq_channel q) = Some fw" by (simp add: NewForwarder_def)
    show ?thesis
      by (rule up[OF _ q, of fw]) (use assms new Inr fw in \<open>simp_all add: start_queue_def Let_def split: if_splits\<close>)
  qed
qed

lemma rollback_stopped:
  "\<not> m_started (rollbackStartLocked m)" "m_wg (rollbackStartLocked m) = []" "m_queues (rollbackStartLocked m) = Map.empty"
  "m_workers (rollbackStartLocked m) = Map.empty" "m_ctxDone (rollbackStartLocked m)"
  by (simp_all add: rollbackStartLocked_def closeQueuesLocked_def)

lemma start_queue_up:
  assumes "start_queue n cfg d h m w = Some (None, m', w')" and "queue_absent m n"
    and "m_drivers m (cfg_Driver cfg) = Some d" and "Mux_Get n (m_serveMux m) = Some h"
  shows "queue_up m' n cfg" "n' \<noteq> n \<Longrightarrow> queue_up m n' cfg' \<Longrightarrow> queue_up m' n' cfg'"
    "n' \<noteq> n \<Longrightarrow> queue_absent m n' \<Longrightarrow> queue_absent m' n'"
    "m_drivers m' = m_drivers m" "m_serveMux m' = m_serveMux m" "m_ctxDone m' = m_ctxDone m" "m_errors m' = m_errors m"
    "dom (m_queues m') = insert n (dom (m_queues m))"
proof -
  from assms(1) obtain q fw where q: "aq_channel q = cfg_Channel cfg" "aq_driver q = Some d"
      "aq_maxAttempts q = (if cfg_MaxAttempts cfg > 0 then cfg_MaxAttempts cfg else 3)" and m':
    "m' = m\<lparr>m_queues := (m_queues m)(n \<mapsto> q), m_forwarders := (m_forwarders m)(n \<mapsto> fw),
        m_wg := m_wg m @ ForwarderProc n fw # map (\<lambda>i. consumer_proc n i d q h cfg) (map int [0 ..< nat (cfg_Processes cfg)]),
        m_workers := (m_workers m)(n \<mapsto> map (\<lambda>i. new_consumer n i d q h cfg) (map int [0 ..< nat (cfg_Processes cfg)]))\<rparr>"
    by (cases rule: start_queue_cases) auto
  have own: "filter (\<lambda>p. proc_name p = k) (map (\<lambda>i. consumer_proc n i d q h cfg) is) =
      (if k = n then map (\<lambda>i. consumer_proc n i d q h cfg) is else [])" for k "is"
    by (induction "is") auto
  have "filter (\<lambda>p. proc_name p = n) (m_wg m) = []" using assms(2) by (auto simp: queue_absent_def filter_empty_conv)
  then show "queue_up m' n cfg" using q assms(3,4) own[of n] unfolding m' queue_up_def by simp
  show "n' \<noteq> n \<Longrightarrow> queue_up m n' cfg' \<Longrightarrow> queue_up m' n' cfg'" using own[of n'] unfolding m' queue_up_def by simp
  show "n' \<noteq> n \<Longrightarrow> queue_absent m n' \<Longrightarrow> queue_absent m' n'" unfolding m' queue_absent_def by auto
qed (use assms(1) in \<open>cases rule: start_queue_cases; auto\<close>)+

text \<open>Every enabled queue of a configuration is up, the queues that were up before still are, and there are no others; or nothing is.\<close>

definition all_up :: "Config \<Rightarrow> 'w Manager \<Rightarrow> 'w Manager \<Rightarrow> bool" where
  "all_up cfgs m m' \<longleftrightarrow> m_started m' \<and> \<not> m_ctxDone m' \<and> m_errors m' = m_errors m \<and>
     dom (m_queues m') = dom (m_queues m) \<union> {n. \<exists>cfg. (n, cfg) \<in> set cfgs \<and> cfg_Enabled cfg} \<and>
     (\<forall>(n, cfg) \<in> set cfgs. cfg_Enabled cfg \<longrightarrow> queue_up m' n cfg) \<and>
     (\<forall>n cfg. queue_up m n cfg \<longrightarrow> n \<notin> fst ` set cfgs \<longrightarrow> queue_up m' n cfg)"

definition nothing_up :: "'w Manager \<Rightarrow> bool" where
  "nothing_up m \<longleftrightarrow> \<not> m_started m \<and> m_wg m = [] \<and> m_queues m = Map.empty \<and> m_workers m = Map.empty \<and> m_ctxDone m"

lemma all_up_skip: "all_up rest m m' \<Longrightarrow> \<not> cfg_Enabled cfg \<Longrightarrow> all_up ((n, cfg) # rest) m m'"
  by (auto simp: all_up_def)

lemma all_up_Cons:
  assumes "start_queue n cfg d h m w = Some (None, m1, w1)" and "queue_absent m n"
    and "m_drivers m (cfg_Driver cfg) = Some d" and "Mux_Get n (m_serveMux m) = Some h"
    and "all_up rest m1 m'" and "cfg_Enabled cfg" and "n \<notin> fst ` set rest"
  shows "all_up ((n, cfg) # rest) m m'"
proof -
  note up = start_queue_up[OF assms(1-4)]
  note r = assms(5)[unfolded all_up_def]
  have "\<forall>(n', cfg') \<in> set ((n, cfg) # rest). cfg_Enabled cfg' \<longrightarrow> queue_up m' n' cfg'" using r up(1) assms(7) by auto
  moreover have "\<forall>n' cfg'. queue_up m n' cfg' \<longrightarrow> n' \<notin> fst ` set ((n, cfg) # rest) \<longrightarrow> queue_up m' n' cfg'" using r up(2) by auto
  moreover have "dom (m_queues m') = dom (m_queues m) \<union> {k. \<exists>c. (k, c) \<in> set ((n, cfg) # rest) \<and> cfg_Enabled c}"
    using r up(8) assms(6) by auto
  ultimately show ?thesis unfolding all_up_def using r up(7) by simp
qed

lemma start_queues_result:
  assumes "start_queues cfgs m w = Some (r, m', w')" and "distinct (map fst cfgs)" and "\<forall>(n, cfg) \<in> set cfgs. queue_absent m n"
    and "\<not> m_ctxDone m"
  shows "case r of Some e \<Rightarrow> nothing_up m' | None \<Rightarrow> all_up cfgs m m'"
  using assms
proof (induction cfgs arbitrary: m w)
  case Nil
  then show ?case by (auto simp: all_up_def queue_up_def)
next
  case (Cons x rest)
  obtain n cfg where x: "x = (n, cfg)" by force
  note pr = Cons.prems[unfolded x]
  show ?case
  proof (cases "cfg_Enabled cfg")
    case False
    then show ?thesis using Cons.IH[of m w] pr all_up_skip by (auto simp: x split: option.splits)
  next
    case True
    then obtain d h r1 m1 w1 where dh: "m_drivers m (cfg_Driver cfg) = Some d" "Mux_Get n (m_serveMux m) = Some h"
      and st: "start_queue n cfg d h m w = Some (r1, m1, w1)"
      using pr(1) by (auto split: option.splits)
    show ?thesis
    proof (cases r1)
      case (Some e)
      then show ?thesis using pr(1) True dh st by (auto simp: rollback_stopped nothing_up_def)
    next
      case None
      have ab: "queue_absent m n" and rest: "distinct (map fst rest)" "n \<notin> fst ` set rest" using pr(2,3) by auto
      note up = start_queue_up[OF st[unfolded None] ab dh]
      have "queue_absent m1 n'" if "(n', cfg') \<in> set rest" for n' cfg'
        using up(3)[of n'] pr(3) rest(2) that by force
      then have "\<forall>(n', cfg') \<in> set rest. queue_absent m1 n'" by blast
      moreover have "start_queues rest m1 w1 = Some (r, m', w')" using pr(1) True dh st None by simp
      ultimately have "case r of Some e \<Rightarrow> nothing_up m' | None \<Rightarrow> all_up rest m1 m'" using Cons.IH rest(1) up(6) pr(4) by blast
      then show ?thesis using all_up_Cons[OF st[unfolded None] ab dh _ True rest(2)] by (cases r) (simp_all add: x)
    qed
  qed
qed

text \<open>C31. \<^verbatim>\<open>StartWorker\<close> is all or nothing.  When it succeeds every enabled queue is up, with its facade on the
  configured channel with the configured maximum of attempts, one forwarder and exactly the configured number of consumers, no other queue exists that did not before,
  and no error is recorded.  When it fails, the manager is unchanged or has nothing running and no queues; and it
  fails when it is already started or an enabled queue lacks a handler or a registered driver.\<close>

theorem StartWorker_all_or_nothing:
  assumes "distinct (map fst (m_config m))" and "m_wg m = []" and "StartWorker m w = Some (r, m', w')"
  shows "(case r of
      None \<Rightarrow> m_started m' \<and> m_errors m' = Some [] \<and> (\<forall>(n, cfg) \<in> set (m_config m). cfg_Enabled cfg \<longrightarrow> queue_up m' n cfg) \<and>
        dom (m_queues m') = dom (m_queues m) \<union> {n. \<exists>cfg. (n, cfg) \<in> set (m_config m) \<and> cfg_Enabled cfg}
    | Some e \<Rightarrow> m' = m \<or> (\<not> m_started m' \<and> m_wg m' = [] \<and> m_queues m' = Map.empty \<and> m_workers m' = Map.empty)) \<and>
    (m_started m \<or> (\<exists>(n, cfg) \<in> set (m_config m). cfg_Enabled cfg \<and>
        (Mux_Get n (m_serveMux m) = None \<or> cfg_Driver cfg = '''' \<or> m_drivers m (cfg_Driver cfg) = None)) \<longrightarrow> r \<noteq> None)"
proof (cases "m_started m \<or> checkStartWorkerOptions m \<noteq> None")
  case True
  then have "r \<noteq> None" "m' = m" using assms(3) by (cases "checkStartWorkerOptions m"; auto simp: StartWorker_def split: if_splits)+
  then show ?thesis by auto
next
  case False
  let ?m = "m\<lparr>m_ctxDone := False, m_errors := Some [], m_workers := Map.empty, m_forwarders := Map.empty\<rparr>"
  have run: "start_queues (m_config m) ?m w = Some (r, m', w')" using assms(3) False by (auto simp: StartWorker_def)
  have "\<forall>(n, cfg) \<in> set (m_config m). queue_absent ?m n" using assms(2) by (auto simp: queue_absent_def)
  note res = start_queues_result[OF run assms(1) this]
  have ok: "\<not> (\<exists>(n, cfg) \<in> set (m_config m). cfg_Enabled cfg \<and>
        (Mux_Get n (m_serveMux m) = None \<or> cfg_Driver cfg = '''' \<or> m_drivers m (cfg_Driver cfg) = None))"
    using False by (auto simp: checkStartWorkerOptions_def check_queues_None check_queue_None)
  show ?thesis using res False ok by (cases r) (simp_all add: all_up_def nothing_up_def)
qed


text \<open>C32. The configuration reaches the consumers: a queue that was configured with positive numbers runs its
  consumers with exactly these, and where a number is missing or not positive with the defaults of the
  facade; only the message lifetime differs, where an omitted 0 is taken as given, so that messages
  do not expire.\<close>

theorem config_reaches_consumers:
  assumes "NewAsyncQueue (Some d) ch (queueOpts n cfg) w = (Inr q, w')" and "cfg_PopTimeout cfg < 9 * 10 ^ 9" and "cfg_HandleTimeout cfg < 9 * 10 ^ 9"
    and "c = new_consumer n i d q h cfg"
  shows "c_driver c = d \<and> c_channel c = ch \<and> c_handler c = h \<and> c_name c = n \<and> c_processID c = i \<and>
    c_PopTimeout c = (if cfg_PopTimeout cfg > 0 then cfg_PopTimeout cfg else 1) * second_ns \<and>
    c_handleTimeout c = (if cfg_HandleTimeout cfg > 0 then cfg_HandleTimeout cfg else 180) * second_ns \<and>
    c_retrySeconds c = (if cfg_RetrySeconds cfg \<noteq> [] then cfg_RetrySeconds cfg else [30, 90, 300]) \<and>
    c_concurrentLimit c = (if cfg_Concurrent cfg > 0 then cfg_Concurrent cfg else 10) \<and>
    c_maxMessages c = max 0 (cfg_MaxMessages cfg) \<and>
    c_messageTTL c = (if cfg_MessageTTL cfg \<ge> 0 then cfg_MessageTTL cfg else 864000) \<and>
    aq_maxAttempts q = (if cfg_MaxAttempts cfg > 0 then cfg_MaxAttempts cfg else 3)"
proof -
  let ?s = "queue_settings ch (queueOpts n cfg)"
  have q: "aq_channel q = ch" "aq_messageTTL q = a_messageTTL ?s" "aq_retrySeconds q = a_retrySeconds ?s" "aq_maxAttempts q = a_maxAttempts ?s"
    "aq_PopTimeout q = int64 (a_popTimeout ?s * second_ns)" "aq_handleTimeout q = int64 (a_handleTimeout ?s * second_ns)"
    using assms(1) by (auto simp: NewAsyncQueue_def Let_def split: if_splits prod.splits sum.splits)
  have s: "a_messageTTL ?s = (if cfg_MessageTTL cfg \<ge> 0 then cfg_MessageTTL cfg else 864000)"
    "a_retrySeconds ?s = (if cfg_RetrySeconds cfg \<noteq> [] then cfg_RetrySeconds cfg else [30, 90, 300])"
    "a_maxAttempts ?s = (if cfg_MaxAttempts cfg > 0 then cfg_MaxAttempts cfg else 3)"
    "a_popTimeout ?s = (if cfg_PopTimeout cfg > 0 then cfg_PopTimeout cfg else 1)"
    "a_handleTimeout ?s = (if cfg_HandleTimeout cfg > 0 then cfg_HandleTimeout cfg else 180)"
    by (simp_all add: queue_settings_def queueOpts_def defaultQueueOptions_def defaultMessageTTLSeconds_def)
  have ns: "int64 (t * second_ns) = t * second_ns" if "0 < t" "t < 9 * 10 ^ 9" for t :: int
    using that by (subst int64_id) (auto simp: in_int64_def)
  have t: "aq_PopTimeout q = (if cfg_PopTimeout cfg > 0 then cfg_PopTimeout cfg else 1) * second_ns"
    "aq_handleTimeout q = (if cfg_HandleTimeout cfg > 0 then cfg_HandleTimeout cfg else 180) * second_ns"
    using q(5,6) s(4,5) assms(2,3) by (simp_all add: ns)
  show ?thesis unfolding assms(4)
    by (simp add: new_consumer_def NewConsumer_def consumer_settings_def defaultConsumerOptions_def Let_def q(1-4) s(1-3) t)
qed


section \<open>What stopping does\<close>

lemma record_exit_frame:
  assumes "record_exit n i t e m = Some m1"
  shows "m_wg m1 = m_wg m" "m_ctxDone m1 = m_ctxDone m" "m_started m1 = m_started m"
    "m_errors m1 = (case e of None \<Rightarrow> m_errors m | Some e \<Rightarrow> map_option (AList.update (error_key n i) (ErrWrap t e)) (m_errors m))"
  using assms by (auto simp: record_exit_def recordError_def split: option.splits)

lemma record_exit_total: "m_errors m \<noteq> None \<Longrightarrow> \<exists>m1. record_exit n i t e m = Some m1"
  by (auto simp: record_exit_def recordError_def split: option.splits)

lemma length_remove_nth: "k < length xs \<Longrightarrow> Suc (length (remove_nth k xs)) = length xs"
  by (simp add: remove_nth_def min_def)

lemma in_set_remove_nth: "x \<in> set xs \<Longrightarrow> xs ! k \<noteq> x \<Longrightarrow> x \<in> set (remove_nth k xs)"
proof (induction xs arbitrary: k)
  case (Cons y ys)
  then show ?case by (cases k) auto
qed (simp add: remove_nth_def)

lemma set_list_update_keep: "x \<in> set xs \<Longrightarrow> xs ! k \<noteq> x \<Longrightarrow> x \<in> set (xs[k := y])"
proof (induction xs arbitrary: k)
  case (Cons z zs)
  then show ?case by (cases k) auto
qed simp

lemma m_step_errors: "m_step m m' \<Longrightarrow> m_errors m \<noteq> None \<Longrightarrow> m_errors m' \<noteq> None"
  by (induction rule: m_step.induct) (auto simp: without_proc_def dest!: record_exit_frame(4) split: option.splits)

lemma m_step_ctx: "m_step m m' \<Longrightarrow> m_ctxDone m' = m_ctxDone m \<and> m_started m' = m_started m"
  by (induction rule: m_step.induct) (auto simp: without_proc_def dest: record_exit_frame(2,3))

lemma m_steps_ctx: "m_step\<^sup>*\<^sup>* m m' \<Longrightarrow> m_ctxDone m' = m_ctxDone m"
  by (induction rule: rtranclp_induct) (auto dest: m_step_ctx)

lemma m_step_shrinks: "m_step m m' \<Longrightarrow> m_ctxDone m \<Longrightarrow> Suc (length (m_wg m')) = length (m_wg m)"
  by (induction rule: m_step.induct) (auto simp: without_proc_def length_remove_nth dest!: record_exit_frame(1))

lemma m_step_progress:
  assumes "m_errors m \<noteq> None" and "m_ctxDone m" and "m_wg m \<noteq> []"
  shows "\<exists>m'. m_step m m'"
proof -
  have k: "0 < length (m_wg m)" using assms(3) by simp
  show ?thesis
  proof (cases "m_wg m ! 0")
    case (ForwarderProc n fw)
    obtain m1 where e: "record_exit n forwarderProcessID ''forwarder-wait: '' None m = Some m1" using record_exit_total[OF assms(1)] by blast
    show ?thesis using m_step.forwarder_ends[OF k ForwarderProc _ e] assms(2) by blast
  next
    case (ConsumerProc n i c)
    obtain m1 where e: "record_exit n i ''wait: '' None m = Some m1" using record_exit_total[OF assms(1)] by blast
    show ?thesis using m_step.consumer_ends[OF k ConsumerProc e] by blast
  next
    case (RestartProc n i c q h cfg)
    then show ?thesis using m_step.restart_head[OF k RestartProc assms(2)] by blast
  qed
qed

lemma m_steps_shrink:
  assumes "(m_step ^^ n) m m'" and "m_ctxDone m" and "m_errors m \<noteq> None"
  shows "n + length (m_wg m') = length (m_wg m) \<and> m_ctxDone m' \<and> m_errors m' \<noteq> None"
  using assms
proof (induction n arbitrary: m')
  case (Suc n)
  then obtain m1 where "(m_step ^^ n) m m1" "m_step m1 m'" by auto
  then show ?case using Suc.IH[of m1] Suc.prems(2,3) m_step_shrinks[of m1 m'] m_step_ctx[of m1 m'] m_step_errors[of m1 m'] by auto
qed simp

text \<open>The bookkeeping of a stop, with the ends of the goroutines as steps of their own: once \<^verbatim>\<open>Stop\<close> has canceled the context, each further step ends
  one goroutine for good (no consumer is restarted), as long as some are left one of them can end, and when none is left
  \<^verbatim>\<open>Stop\<close> closes all queues, returns the recorded errors, and the manager can be started again.\<close>

theorem manager_stop_completes:
  assumes "m_started m" and "m_errors m \<noteq> None" and "Stop_begin m = Inr m1" and "(m_step ^^ n) m1 m2"
  shows "n + length (m_wg m2) = length (m_wg m) \<and> (m_wg m2 \<noteq> [] \<longrightarrow> (\<exists>m3. m_step m2 m3)) \<and>
    (m_wg m2 = [] \<longrightarrow> (\<exists>m3. Manager_Stop timeout m (runErrors m2) m3 \<and> \<not> m_started m3 \<and> m_queues m3 = Map.empty \<and> m_wg m3 = []))"
proof -
  have m1: "m1 = m\<lparr>m_ctxDone := True\<rparr>" using assms(1,3) by (simp add: Stop_begin_def)
  have s: "n + length (m_wg m2) = length (m_wg m1)" "m_ctxDone m2" "m_errors m2 \<noteq> None"
    using m_steps_shrink[OF assms(4)] m1 assms(2) by auto
  have stop: "Manager_Stop timeout m (fst (Stop_end m2)) (snd (Stop_end m2))" if "m_wg m2 = []"
    using Manager_Stop.completed[OF assms(3) relpowp_imp_rtranclp[OF assms(4)] that, of "fst (Stop_end m2)" "snd (Stop_end m2)" timeout] by simp
  have f: "fst (Stop_end m2) = runErrors m2" "\<not> m_started (snd (Stop_end m2))" "m_queues (snd (Stop_end m2)) = Map.empty"
    "m_wg (snd (Stop_end m2)) = m_wg m2"
    by (simp_all add: Stop_end_def closeQueuesLocked_def runErrors_def Let_def)
  show ?thesis using s m1 m_step_progress[OF s(3,2)] stop f by auto
qed


section \<open>What keeps running\<close>

lemma restart_survives:
  assumes "m_step m m'" and "\<not> m_ctxDone m" and "RestartProc n i c q h cfg \<in> set (m_wg m)"
  shows "\<exists>c'. RestartProc n i c' q h cfg \<in> set (m_wg m') \<and> (c' = c \<or> (\<exists>d. aq_driver q = Some d \<and> c' = new_consumer n i d q h cfg))"
  using assms(1)
proof (cases rule: m_step.cases)
  case (forwarder_ends k qn fw err m1)
  have "RestartProc n i c q h cfg \<in> set (remove_nth k (m_wg m))" using assms(3) forwarder_ends(3) by (simp add: in_set_remove_nth)
  then show ?thesis using record_exit_frame(1)[OF forwarder_ends(5)] forwarder_ends(1) by (auto simp: without_proc_def)
next
  case (consumer_ends k qn j cc err m1)
  have "RestartProc n i c q h cfg \<in> set (remove_nth k (m_wg m))" using assms(3) consumer_ends(3) by (simp add: in_set_remove_nth)
  then show ?thesis using record_exit_frame(1)[OF consumer_ends(4)] consumer_ends(1) by (auto simp: without_proc_def)
next
  case (restarts k qn j cc qq hh cf err m1 d)
  let ?new = "RestartProc qn j (new_consumer qn j d qq hh cf) qq hh cf"
  have m': "m_wg m' = (m_wg m)[k := ?new]" using restarts(1) record_exit_frame(1)[OF restarts(5)] by simp
  show ?thesis
  proof (cases "m_wg m ! k = RestartProc n i c q h cfg")
    case True
    then have "RestartProc n i (new_consumer n i d q h cfg) q h cfg \<in> set (m_wg m')" "aq_driver q = Some d"
      using m' restarts(2,3,6) by (auto simp: set_update_memI)
    then show ?thesis by blast
  next
    case False
    then show ?thesis using m' assms(3) set_list_update_keep by metis
  qed
qed (use assms(2) in simp_all)

text \<open>Under a key an error is recorded.\<close>

definition failed_under :: "string \<Rightarrow> 'w Manager \<Rightarrow> bool" where
  "failed_under key m \<longleftrightarrow> (\<exists>es. m_errors m = Some es \<and> map_of es key \<noteq> None)"

lemma record_exit_failed:
  assumes "record_exit n i t e m = Some m1"
  shows "failed_under key m \<Longrightarrow> failed_under key m1" "e \<noteq> None \<Longrightarrow> failed_under (error_key n i) m1"
  using assms by (auto simp: record_exit_def recordError_def failed_under_def update_conv split: option.splits)

lemma failed_under_wg [simp]:
  "failed_under key (without_proc k m) = failed_under key m" "failed_under key (m\<lparr>m_wg := ps\<rparr>) = failed_under key m"
  by (simp_all add: failed_under_def without_proc_def)

lemma failed_stays: "m_step m m' \<Longrightarrow> failed_under key m \<Longrightarrow> failed_under key m'"
  by (induction rule: m_step.induct) (auto dest: record_exit_failed(1))

lemma forwarder_survives:
  assumes "m_step m m'" and "\<not> m_ctxDone m" and "ForwarderProc n fw \<in> set (m_wg m)"
  shows "ForwarderProc n fw \<in> set (m_wg m') \<or> failed_under (error_key n forwarderProcessID) m'"
  using assms(1)
proof (cases rule: m_step.cases)
  case (forwarder_ends k qn ff err m1)
  show ?thesis
  proof (cases "m_wg m ! k = ForwarderProc n fw")
    case True
    then show ?thesis using forwarder_ends(1,3,4) assms(2) record_exit_failed(2)[OF forwarder_ends(5)] by simp
  next
    case False
    then have "ForwarderProc n fw \<in> set (remove_nth k (m_wg m))" using assms(3) by (simp add: in_set_remove_nth)
    then show ?thesis using record_exit_frame(1)[OF forwarder_ends(5)] forwarder_ends(1) by (auto simp: without_proc_def)
  qed
next
  case (consumer_ends k qn j cc err m1)
  have "ForwarderProc n fw \<in> set (remove_nth k (m_wg m))" using assms(3) consumer_ends(3) by (simp add: in_set_remove_nth)
  then show ?thesis using record_exit_frame(1)[OF consumer_ends(4)] consumer_ends(1) by (auto simp: without_proc_def)
next
  case (restarts k qn j cc qq hh cf err m1 d)
  have "ForwarderProc n fw \<in> set ((m_wg m)[k := x])" for x using assms(3) restarts(3) by (simp add: set_list_update_keep)
  then show ?thesis using record_exit_frame(1)[OF restarts(5)] restarts(1) by simp
qed (use assms(2) in simp_all)

text \<open>C34. Until the context is canceled an automatically restarted consumer is always there, as the one
  started or one newly built from the same configuration, and a forwarder runs unless it panicked and its error is recorded.
  So \<^verbatim>\<open>Wait\<close> does not return while a queue with such a consumer is up; and with any queue up it returns only
  with an error, after the forwarder panicked: that all consumers of a queue have died is not enough.\<close>

theorem manager_keeps_running:
  assumes "m_step\<^sup>*\<^sup>* m m'" and "\<not> m_ctxDone m"
  shows "(RestartProc n i c q h cfg \<in> set (m_wg m) \<longrightarrow> (\<exists>c'. RestartProc n i c' q h cfg \<in> set (m_wg m') \<and>
      (c' = c \<or> (\<exists>d. aq_driver q = Some d \<and> c' = new_consumer n i d q h cfg))) \<and> \<not> Manager_Wait m r m') \<and>
    (ForwarderProc n fw \<in> set (m_wg m) \<longrightarrow> (ForwarderProc n fw \<in> set (m_wg m') \<or> failed_under (error_key n forwarderProcessID) m') \<and>
      \<not> Manager_Wait m None m')"
proof -
  have restart: "\<exists>c'. RestartProc n i c' q h cfg \<in> set (m_wg m') \<and>
      (c' = c \<or> (\<exists>d. aq_driver q = Some d \<and> c' = new_consumer n i d q h cfg))" if "RestartProc n i c q h cfg \<in> set (m_wg m)"
    using assms
  proof (induction rule: rtranclp_induct)
    case (step m1 m2)
    have "\<not> m_ctxDone m1" using m_steps_ctx[OF step(1)] assms(2) by simp
    then show ?case using step.IH[OF assms(2)] restart_survives[OF step(2)] by metis
  qed (use that in blast)
  have fwd: "ForwarderProc n fw \<in> set (m_wg m') \<or> failed_under (error_key n forwarderProcessID) m'" if "ForwarderProc n fw \<in> set (m_wg m)"
    using assms
  proof (induction rule: rtranclp_induct)
    case (step m1 m2)
    have "\<not> m_ctxDone m1" using m_steps_ctx[OF step(1)] assms(2) by simp
    then show ?case using step.IH[OF assms(2)] forwarder_survives[OF step(2)] failed_stays[OF step(2)] by blast
  qed (use that in blast)
  have "\<not> Manager_Wait m r m'" if "RestartProc n i c q h cfg \<in> set (m_wg m)"
    using restart[OF that] by (auto elim!: Manager_Wait.cases)
  moreover have "\<not> Manager_Wait m None m'" if "ForwarderProc n fw \<in> set (m_wg m)"
    using fwd[OF that] by (auto elim!: Manager_Wait.cases simp: failed_under_def runErrors_def split: if_splits)
  ultimately show ?thesis using restart fwd by blast
qed

section \<open>A manager over the in-memory server\<close>

definition demo_config :: QueueConfig where
  "demo_config = \<lparr>cfg_Name = ''q'', cfg_Driver = ''redis'', cfg_Channel = ''q'', cfg_Enabled = True, cfg_PopTimeout = 1,
     cfg_HandleTimeout = 60, cfg_RetrySeconds = [1, 5], cfg_MessageTTL = 0, cfg_MaxAttempts = 3, cfg_Processes = 2,
     cfg_Concurrent = 4, cfg_AutoRestart = True, cfg_MaxMessages = 100, cfg_ShutdownTimeout = 40\<rparr>"

definition demo_handler :: "mem world handler" where
  "demo_handler = (\<lambda>m w. (Returned ACK None, m, w))"

definition demo_manager :: "mem world Manager" where
  "demo_manager = \<lparr>m_config = [(''q'', demo_config), (''off'', demo_config\<lparr>cfg_Enabled := False\<rparr>)],
     m_serveMux = Mux_Handle ''q'' demo_handler NewServeMux, m_queues = Map.empty, m_workers = Map.empty, m_forwarders = Map.empty,
     m_drivers = [''redis'' \<mapsto> redis_driver mem_redis], m_ctxDone = False, m_wg = [], m_errors = None, m_started = False\<rparr>"

lemma demo_config_simps [simp]:
  "cfg_Enabled demo_config" "cfg_Driver demo_config = ''redis''" "cfg_Channel demo_config = ''q''" "cfg_Processes demo_config = 2"
  "cfg_AutoRestart demo_config" "cfg_MaxMessages demo_config = 100"
  by (simp_all add: demo_config_def)

lemma demo_manager_simps [simp]:
  "m_config demo_manager = [(''q'', demo_config), (''off'', demo_config\<lparr>cfg_Enabled := False\<rparr>)]" "m_wg demo_manager = []"
  "\<not> m_started demo_manager" "m_drivers demo_manager = [''redis'' \<mapsto> redis_driver mem_redis]"
  "m_serveMux demo_manager = Mux_Handle ''q'' demo_handler NewServeMux" "m_queues demo_manager = Map.empty"
  by (simp_all add: demo_manager_def)

lemma demo_mux [simp]: "Mux_Get ''q'' (Mux_Handle ''q'' demo_handler NewServeMux) = Some demo_handler"
  by (simp add: Mux_Get_def Mux_Handle_def)

lemma demo_queue_created:
  "\<exists>q w1. NewAsyncQueue (Some (redis_driver mem_redis)) ''q'' (queueOpts ''q'' demo_config) demo_start = (Inr q, w1)"
proof -
  have "Ping demo_start = (Inr (), after_call demo_start mem_empty)" by (simp add: Ping_def client_call_eq reply_of_def)
  then show ?thesis by (simp add: NewAsyncQueue_def redis_driver_def Let_def)
qed

lemma demo_started:
  "\<exists>m' w' fw c0 c1 q. StartWorker demo_manager demo_start = Some (None, m', w') \<and> m_started m' \<and> \<not> m_ctxDone m' \<and> m_errors m' = Some [] \<and>
     aq_driver q = Some (redis_driver mem_redis) \<and> m_wg m' = [ForwarderProc ''q'' fw, RestartProc ''q'' 0 c0 q demo_handler demo_config,
       RestartProc ''q'' 1 c1 q demo_handler demo_config]"
proof -
  obtain q w1 where q: "NewAsyncQueue (Some (redis_driver mem_redis)) ''q'' (queueOpts ''q'' demo_config) demo_start = (Inr q, w1)"
    using demo_queue_created by blast
  have chk: "checkStartWorkerOptions demo_manager = None"
    by (simp add: checkStartWorkerOptions_def check_queue_def)
  obtain fw where fw: "NewForwarder (Some (redis_driver mem_redis)) ''q'' (aq_channel q) = Some fw" by (simp add: NewForwarder_def)
  have two: "[0 ..< 2] = [0, Suc 0]" by (simp add: numeral_2_eq_2)
  have proc: "consumer_proc ''q'' i d q demo_handler demo_config =
      RestartProc ''q'' i (new_consumer ''q'' i d q demo_handler demo_config) q demo_handler demo_config" for i d
    by (simp add: consumer_proc_def)
  let ?m = "demo_manager\<lparr>m_ctxDone := False, m_errors := Some [], m_workers := Map.empty, m_forwarders := Map.empty\<rparr>"
  obtain m1 where sq: "start_queue ''q'' demo_config (redis_driver mem_redis) demo_handler ?m demo_start = Some (None, m1, w1)"
    and m1: "m_ctxDone m1 = False" "m_errors m1 = Some []" "m_wg m1 = [ForwarderProc ''q'' fw,
      RestartProc ''q'' 0 (new_consumer ''q'' 0 (redis_driver mem_redis) q demo_handler demo_config) q demo_handler demo_config,
      RestartProc ''q'' 1 (new_consumer ''q'' 1 (redis_driver mem_redis) q demo_handler demo_config) q demo_handler demo_config]"
    unfolding start_queue_def by (simp add: q fw two proc Let_def)
  have "StartWorker demo_manager demo_start = start_queues [(''q'', demo_config), (''off'', demo_config\<lparr>cfg_Enabled := False\<rparr>)] ?m demo_start"
    using chk by (simp add: StartWorker_def)
  also have "\<dots> = Some (None, m1\<lparr>m_started := True\<rparr>, w1)" by (simp add: sq)
  finally show ?thesis using m1 NewAsyncQueue_fields(1)[OF q] by auto
qed

theorem StartWorker_all_or_nothing_witness:
  "\<exists>m' w'. StartWorker demo_manager demo_start = Some (None, m', w') \<and> queue_up m' ''q'' demo_config \<and> dom (m_queues m') = {''q''}"
proof -
  obtain m' w' where st: "StartWorker demo_manager demo_start = Some (None, m', w')" using demo_started by blast
  have "distinct (map fst (m_config demo_manager))" by simp
  note all = StartWorker_all_or_nothing[OF this demo_manager_simps(2) st]
  have up: "queue_up m' ''q'' demo_config" using all by simp
  have "dom (m_queues m') = {n. \<exists>cfg. (n, cfg) \<in> set (m_config demo_manager) \<and> cfg_Enabled cfg}" using all by simp
  also have "{n. \<exists>cfg. (n, cfg) \<in> set xs \<and> cfg_Enabled cfg} = fst ` set (filter (\<lambda>x. cfg_Enabled (snd x)) xs)" for xs by force
  finally have "dom (m_queues m') = {''q''}" by simp
  then show ?thesis using st up by blast
qed

theorem config_reaches_consumers_witness:
  "\<exists>q w1. NewAsyncQueue (Some (redis_driver mem_redis)) ''q'' (queueOpts ''q'' demo_config) demo_start = (Inr q, w1) \<and>
     c_concurrentLimit (new_consumer ''q'' 0 (redis_driver mem_redis) q demo_handler demo_config) = 4 \<and>
     c_messageTTL (new_consumer ''q'' 0 (redis_driver mem_redis) q demo_handler demo_config) = 0"
proof -
  obtain q w1 where q: "NewAsyncQueue (Some (redis_driver mem_redis)) ''q'' (queueOpts ''q'' demo_config) demo_start = (Inr q, w1)"
    using demo_queue_created by blast
  show ?thesis using q config_reaches_consumers[OF q _ _ refl, of 0 demo_handler] by (simp add: demo_config_def)
qed

lemma stop_drains:
  assumes "m_errors m \<noteq> None" and "m_ctxDone m"
  shows "\<exists>m'. (m_step ^^ length (m_wg m)) m m' \<and> m_wg m' = []"
  using assms
proof (induction "length (m_wg m)" arbitrary: m)
  case (Suc n)
  then obtain m1 where "m_step m m1" using m_step_progress[of m] by fastforce
  moreover from this have "length (m_wg m1) = n" "m_errors m1 \<noteq> None" "m_ctxDone m1"
    using Suc.hyps(2) Suc.prems m_step_shrinks[of m m1] m_step_errors[of m m1] m_step_ctx[of m m1] by auto
  ultimately show ?case using Suc.hyps(1)[of m1] Suc.hyps(2) by (metis relpowp_Suc_I2)
qed auto

theorem manager_stop_completes_witness:
  "\<exists>m m3 w' r. StartWorker demo_manager demo_start = Some (None, m, w') \<and> Manager_Stop 0 m r m3 \<and> \<not> m_started m3 \<and> m_wg m3 = []"
proof -
  obtain m w' where st: "StartWorker demo_manager demo_start = Some (None, m, w')" "m_started m" "m_errors m = Some []"
    using demo_started by blast
  have b: "Stop_begin m = Inr (m\<lparr>m_ctxDone := True\<rparr>)" using st by (simp add: Stop_begin_def)
  obtain m2 where "(m_step ^^ length (m_wg m)) (m\<lparr>m_ctxDone := True\<rparr>) m2" "m_wg m2 = []"
    using stop_drains[of "m\<lparr>m_ctxDone := True\<rparr>"] st by auto
  then show ?thesis using manager_stop_completes[OF st(2) _ b, of "length (m_wg m)" m2 0] st by blast
qed

theorem manager_keeps_running_witness:
  "\<exists>m w' m' c' q. StartWorker demo_manager demo_start = Some (None, m, w') \<and> m_step m m' \<and>
     RestartProc ''q'' 0 c' q demo_handler demo_config \<in> set (m_wg m')"
proof -
  obtain m w' fw c0 c1 q where st: "StartWorker demo_manager demo_start = Some (None, m, w')" "\<not> m_ctxDone m"
    "aq_driver q = Some (redis_driver mem_redis)"
    "m_wg m = [ForwarderProc ''q'' fw, RestartProc ''q'' 0 c0 q demo_handler demo_config, RestartProc ''q'' 1 c1 q demo_handler demo_config]"
    using demo_started by blast
  have "record_exit ''q'' 0 ''[Async-Queue-Manager] runWorkerWithAutoRestart error : '' None m = Some m" by (simp add: record_exit_def)
  from m_step.restarts[OF _ _ st(2) this st(3), of 1 c0 demo_handler demo_config] st(4)
  obtain m' where s: "m_step m m'" by auto
  have "RestartProc ''q'' 0 c0 q demo_handler demo_config \<in> set (m_wg m)" using st(4) by simp
  then show ?thesis using manager_keeps_running[OF r_into_rtranclp[of m_step, OF s] st(2)] st(1) s by blast
qed

end
