(* ===== verification/Server.thy ===== *)
theory Server
  imports Manager
begin

text \<open>
  The server (\<^verbatim>\<open>asyncqueue/server.go\<close>, \<^verbatim>\<open>server_option.go\<close>), the process-wide default server
  (\<^verbatim>\<open>defaultserver.go\<close>) and the publishing functions that go through it.  A \<^verbatim>\<open>*Server\<close> is \<open>None\<close> for nil or the
  address of a server in \<open>g_servers\<close>.  The handler registry that a server and its manager share through
  one pointer is written in both.  Logging, and the option for it, are left out.
\<close>

section \<open>State\<close>

record 'w Server =
  srv_config :: "Config option"
  srv_serveMux :: "'w ServeMux option"
  srv_manager :: "'w Manager option"
  srv_drivers :: "(string \<times> 'w driver) list"

text \<open>The servers of the process, and the global pointer.\<close>

record 'w globals =
  g_servers :: "'w Server list"
  g_defaultServer :: "nat option"

definition deref :: "nat option \<Rightarrow> 'w globals \<Rightarrow> 'w Server option" where
  "deref p g = (case p of None \<Rightarrow> None | Some a \<Rightarrow> if a < length (g_servers g) then Some (g_servers g ! a) else None)"

definition store :: "nat \<Rightarrow> 'w Server \<Rightarrow> 'w globals \<Rightarrow> 'w globals" where
  "store a s g = g\<lparr>g_servers := (g_servers g)[a := s]\<rparr>"


section \<open>The default server\<close>

definition DefaultServer :: "'w globals \<Rightarrow> nat option" where
  "DefaultServer g = g_defaultServer g"

definition SetDefaultServer :: "nat option \<Rightarrow> 'w globals \<Rightarrow> 'w globals" where
  "SetDefaultServer s g = g\<lparr>g_defaultServer := s\<rparr>"

definition setDefaultWithWarn :: "nat option \<Rightarrow> 'w globals \<Rightarrow> 'w globals" where
  "setDefaultWithWarn s g = g\<lparr>g_defaultServer := s\<rparr>"

definition CompareAndSwap :: "nat option \<Rightarrow> nat option \<Rightarrow> 'w globals \<Rightarrow> 'w globals" where
  "CompareAndSwap old new g = (if g_defaultServer g = old then g\<lparr>g_defaultServer := new\<rparr> else g)"


section \<open>Construction and registration\<close>

datatype 'w Option = WithDriver string "'w driver option"

fun apply_server_option :: "'w Option \<Rightarrow> 'w Server \<Rightarrow> 'w Server" where
  "apply_server_option (WithDriver driverName driver) s = (case driver of
      None \<Rightarrow> s
    | Some d \<Rightarrow> if driverName = '''' then s else s\<lparr>srv_drivers := AList.update driverName d (srv_drivers s)\<rparr>)"

definition NewServer :: "Config option \<Rightarrow> 'w Option list \<Rightarrow> 'w globals \<Rightarrow> (error + nat) \<times> 'w globals" where
  "NewServer cfg opts g = (case cfg of
      None \<Rightarrow> (Inl (ErrText ''config is required''), g)
    | Some _ \<Rightarrow>
        (let serveMux = NewServeMux;
             s = fold apply_server_option opts \<lparr>srv_config = cfg, srv_serveMux = Some serveMux, srv_manager = None, srv_drivers = []\<rparr>
         in case newManager cfg (Some serveMux) of
              Inl err \<Rightarrow> (Inl err, g)
            | Inr manager \<Rightarrow>
                (let manager = fold (\<lambda>(driverName, driver). RegisterDriver driverName (Some driver)) (srv_drivers s) manager;
                     s = s\<lparr>srv_manager := Some manager\<rparr>;
                     a = length (g_servers g);
                     g = g\<lparr>g_servers := g_servers g @ [s]\<rparr>
                 in (Inr a, setDefaultWithWarn (Some a) g))))"

text \<open>Writing the registry the server and its manager share.\<close>

definition put_mux :: "'w ServeMux \<Rightarrow> 'w Server \<Rightarrow> 'w Server" where
  "put_mux mux s = s\<lparr>srv_serveMux := Some mux, srv_manager := map_option (\<lambda>m. m\<lparr>m_serveMux := mux\<rparr>) (srv_manager s)\<rparr>"

definition Server_Handle :: "nat option \<Rightarrow> string \<Rightarrow> 'w handler \<Rightarrow> 'w globals \<Rightarrow> 'w globals" where
  "Server_Handle p queueName handler g = (case (p, deref p g) of
      (Some a, Some s) \<Rightarrow> (case srv_serveMux s of
          None \<Rightarrow> g
        | Some mux \<Rightarrow> store a (put_mux (Mux_Handle queueName handler mux) s) g)
    | _ \<Rightarrow> g)"

definition Server_Bind :: "nat option \<Rightarrow> string \<Rightarrow> 'w handler \<Rightarrow> 'w globals \<Rightarrow> 'w globals" where
  "Server_Bind p queueName handler g = (case (p, deref p g) of
      (Some a, Some s) \<Rightarrow> (case srv_serveMux s of
          None \<Rightarrow> g
        | Some mux \<Rightarrow> store a (put_mux (Mux_Handle queueName handler mux) s) g)
    | _ \<Rightarrow> g)"


section \<open>Running and stopping\<close>

definition server_is_nil :: error where
  "server_is_nil = ErrText ''server is nil''"

fun max_timeout :: "Config \<Rightarrow> int \<Rightarrow> int" where
  "max_timeout [] maxTimeout = maxTimeout"
| "max_timeout ((_, cfg) # rest) maxTimeout =
     max_timeout rest (if cfg_Enabled cfg \<and> cfg_ShutdownTimeout cfg > maxTimeout then cfg_ShutdownTimeout cfg else maxTimeout)"

definition shutdownTimeout :: "'w Server option \<Rightarrow> int" where
  "shutdownTimeout s = (case s of
      None \<Rightarrow> 30 * second_ns
    | Some s \<Rightarrow> (case srv_config s of
        None \<Rightarrow> 30 * second_ns
      | Some cfg \<Rightarrow> int64 (max_timeout cfg 30 * second_ns)))"

text \<open>The first part of \<^verbatim>\<open>Run\<close>: the handlers of the given registry are copied, one by one with different names, so in
  any order.\<close>

definition merge_mux :: "'w ServeMux option \<Rightarrow> 'w Server \<Rightarrow> 'w Server" where
  "merge_mux serveMux s = (case serveMux of
      None \<Rightarrow> s
    | Some other \<Rightarrow> (case srv_serveMux s of
        None \<Rightarrow> s
      | Some mux \<Rightarrow> put_mux (mux\<lparr>mux_handlers := mux_handlers mux ++ mux_handlers other\<rparr>) s))"

text \<open>What \<^verbatim>\<open>Run\<close> has done when the workers have been started, or could not be: the result of \<^verbatim>\<open>StartWorker\<close>.\<close>

definition Run_begin :: "nat \<Rightarrow> 'w ServeMux option \<Rightarrow> 'w globals \<Rightarrow> 'w \<Rightarrow> (error option \<times> 'w globals \<times> 'w) option" where
  "Run_begin a serveMux g w = (case deref (Some a) g of
      None \<Rightarrow> Some (Some server_is_nil, g, w)
    | Some s \<Rightarrow> (case srv_manager s of
        None \<Rightarrow> Some (Some server_is_nil, g, w)
      | Some _ \<Rightarrow>
          (let s = merge_mux serveMux s in
           case StartWorker (the (srv_manager s)) w of
             None \<Rightarrow> None
           | Some (err, m, w1) \<Rightarrow> Some (err, store a (s\<lparr>srv_manager := Some m\<rparr>) g, w1))))"

inductive Server_Run :: "nat option \<Rightarrow> 'w ServeMux option \<Rightarrow> 'w globals \<Rightarrow> 'w \<Rightarrow> error option \<Rightarrow> 'w globals \<Rightarrow> bool" where
  run_nil: "Option.bind (deref p g) srv_manager = None \<Longrightarrow> Server_Run p serveMux g w (Some server_is_nil) g"
| run: "deref (Some a) g = Some s \<Longrightarrow> srv_manager s \<noteq> None \<Longrightarrow> s1 = merge_mux serveMux s \<Longrightarrow> srv_manager s1 = Some m \<Longrightarrow>
    Manager_Run (shutdownTimeout (Some s1)) m w r m1 \<Longrightarrow> Server_Run (Some a) serveMux g w r (store a (s1\<lparr>srv_manager := Some m1\<rparr>) g)"

inductive Server_Stop :: "int \<Rightarrow> nat option \<Rightarrow> 'w globals \<Rightarrow> error option \<Rightarrow> 'w globals \<Rightarrow> bool" where
  stop_nil: "Option.bind (deref p g) srv_manager = None \<Longrightarrow> Server_Stop timeout p g (Some server_is_nil) g"
| stop: "deref (Some a) g = Some s \<Longrightarrow> srv_manager s = Some m \<Longrightarrow> Manager_Stop timeout m r m1 \<Longrightarrow>
    Server_Stop timeout (Some a) g r (CompareAndSwap (Some a) None (store a (s\<lparr>srv_manager := Some m1\<rparr>) g))"

definition Server_Queue :: "nat option \<Rightarrow> string \<Rightarrow> 'w globals \<Rightarrow> error + 'w Queue" where
  "Server_Queue p name g = (case Option.bind (deref p g) srv_manager of
      None \<Rightarrow> Inl server_is_nil
    | Some m \<Rightarrow> Manager_GetQueue name m)"

definition Server_Config :: "nat option \<Rightarrow> 'w globals \<Rightarrow> Config option" where
  "Server_Config p g = (case deref p g of None \<Rightarrow> None | Some s \<Rightarrow> srv_config s)"


section \<open>Publishing through the default server\<close>

definition GetQueue :: "string \<Rightarrow> 'w globals \<Rightarrow> error + 'w Queue" where
  "GetQueue name g = (case g_defaultServer g of
      None \<Rightarrow> Inl (ErrText ''no default server: call NewServer first'')
    | Some a \<Rightarrow> Server_Queue (Some a) name g)"

definition PushTask :: "('w \<Rightarrow> int) \<Rightarrow> string \<Rightarrow> (error + json) option \<Rightarrow> int \<Rightarrow> 'w globals \<Rightarrow> 'w \<Rightarrow> ((error + string) \<times> 'w) option" where
  "PushTask wall queueName task delaySeconds g w = (case GetQueue queueName g of
      Inl err \<Rightarrow> Some (Inl err, w)
    | Inr q \<Rightarrow> Queue_PushTask wall (Some q) task delaySeconds w)"

definition Push_task :: "('w \<Rightarrow> int) \<Rightarrow> string \<Rightarrow> (error + json) option \<Rightarrow> int \<Rightarrow> 'w globals \<Rightarrow> 'w \<Rightarrow> ((error + string) \<times> 'w) option" where
  "Push_task wall queueName task delaySeconds g w = PushTask wall queueName task delaySeconds g w"

definition PushMessage :: "('w \<Rightarrow> int) \<Rightarrow> string \<Rightarrow> Message option \<Rightarrow> int \<Rightarrow> 'w globals \<Rightarrow> 'w
    \<Rightarrow> (error + string) \<times> Message option \<times> 'w" where
  "PushMessage wall queueName msg delaySeconds g w = (case GetQueue queueName g of
      Inl err \<Rightarrow> (Inl err, msg, w)
    | Inr q \<Rightarrow> Queue_PushMessage wall (Some q) msg delaySeconds w)"

section \<open>The shutdown timeout\<close>

lemma Max_insert2_if:
  fixes t u :: int
  assumes "finite S"
  shows "Max (insert t (insert u S)) = Max (insert (if u > t then u else t) S)"
  using assms by (cases "S = {}") (auto simp: max_def)

lemma max_timeout_spec:
  "max_timeout cfgs t = Max (insert t {cfg_ShutdownTimeout cfg | n cfg. (n, cfg) \<in> set cfgs \<and> cfg_Enabled cfg})"
proof (induction cfgs t rule: max_timeout.induct)
  case (2 n cfg rest t)
  let ?S = "\<lambda>cs. {cfg_ShutdownTimeout c | k c. (k, c) \<in> set cs \<and> cfg_Enabled c}"
  have fin: "finite (?S rest)"
    by (rule finite_subset[of _ "(\<lambda>(k, c). cfg_ShutdownTimeout c) ` set rest"]) force+
  have "?S ((n, cfg) # rest) = (if cfg_Enabled cfg then insert (cfg_ShutdownTimeout cfg) (?S rest) else ?S rest)" by auto
  then show ?case using 2 Max_insert2_if[OF fin, of t "cfg_ShutdownTimeout cfg"] by auto
qed simp

text \<open>The time \<^verbatim>\<open>Run\<close> grants its workers to stop is the largest of thirty seconds and the timeouts of the
  enabled queues, up to 285 years.\<close>

theorem shutdownTimeout_max:
  assumes "srv_config s = Some cfgs" and "\<forall>(n, cfg) \<in> set cfgs. cfg_ShutdownTimeout cfg < 9 * 10 ^ 9"
  shows "shutdownTimeout (Some s) =
    Max (insert 30 {cfg_ShutdownTimeout cfg | n cfg. (n, cfg) \<in> set cfgs \<and> cfg_Enabled cfg}) * second_ns"
proof -
  let ?S = "{cfg_ShutdownTimeout cfg | n cfg. (n, cfg) \<in> set cfgs \<and> cfg_Enabled cfg}"
  have fin: "finite ?S" by (rule finite_subset[of _ "(\<lambda>(k, c). cfg_ShutdownTimeout c) ` set cfgs"]) force+
  have "30 \<le> Max (insert 30 ?S)" using fin by simp
  moreover have "Max (insert 30 ?S) < 9 * 10 ^ 9" using fin assms(2) by auto
  ultimately have "int64 (Max (insert 30 ?S) * second_ns) = Max (insert 30 ?S) * second_ns" by (subst int64_id) (auto simp: in_int64_def)
  then show ?thesis using assms(1) by (simp add: shutdownTimeout_def max_timeout_spec)
qed


section \<open>The default server\<close>

lemma deref_store: "deref p (store a s g) = (if p = Some a \<and> a < length (g_servers g) then Some s else deref p g)"
  by (auto simp: deref_def store_def split: option.splits)

lemma default_store [simp]: "g_defaultServer (store a s g) = g_defaultServer g"
  by (simp add: store_def)

text \<open>Stopping a server touches no other: only this server's manager changes, and the global pointer is
  cleared exactly when it still points to this server, whether the stop succeeded, timed out or was
  refused.  After that, publishing through the package functions fails with an error and changes nothing.\<close>

theorem server_stop_default:
  assumes "Server_Stop timeout (Some a) g r g'" and "Option.bind (deref (Some a) g) srv_manager \<noteq> None"
  shows "DefaultServer g' = (if DefaultServer g = Some a then None else DefaultServer g) \<and>
    (\<forall>b. b \<noteq> a \<longrightarrow> deref (Some b) g' = deref (Some b) g) \<and>
    (DefaultServer g = Some a \<longrightarrow> PushTask wall n task d g' w = Some (Inl (ErrText ''no default server: call NewServer first''), w))"
  using assms(1)
proof (cases rule: Server_Stop.cases)
  case stop_nil
  then show ?thesis using assms(2) by simp
next
  case (stop s m m1)
  have "deref (Some b) g' = deref (Some b) g" if "b \<noteq> a" for b
    using that by (auto simp: stop(1) CompareAndSwap_def deref_def store_def)
  moreover have "g_defaultServer g' = (if g_defaultServer g = Some a then None else g_defaultServer g)"
    by (auto simp: stop(1) CompareAndSwap_def)
  ultimately show ?thesis by (simp add: DefaultServer_def PushTask_def GetQueue_def)
qed

section \<open>From the configuration to a delivered task\<close>

lemma NewServer_made:
  assumes "NewServer (Some cfgs) [WithDriver dn (Some d)] g = (Inr a, g')" and "dn \<noteq> ''''"
  obtains s m where "deref (Some a) g' = Some s" "srv_manager s = Some m" "srv_serveMux s = Some (m_serveMux m)" "m_config m = cfgs"
    "m_drivers m = [dn \<mapsto> d]" "m_wg m = []" "\<not> m_started m" "m_queues m = Map.empty" "g_defaultServer g' = Some a" "a < length (g_servers g')"
  using assms by (auto simp: NewServer_def newManager_def setDefaultWithWarn_def deref_def RegisterDriver_def Let_def)

lemma merge_mux_manager:
  assumes "srv_manager s = Some m"
  obtains mux where "srv_manager (merge_mux smux s) = Some (m\<lparr>m_serveMux := mux\<rparr>)"
proof -
  have "m = m\<lparr>m_serveMux := m_serveMux m\<rparr>" by simp
  then have "\<exists>mux. srv_manager (merge_mux smux s) = Some (m\<lparr>m_serveMux := mux\<rparr>)"
    using assms unfolding merge_mux_def put_mux_def by (cases smux; cases "srv_serveMux s") (auto intro: exI[of _ "m_serveMux m"])
  then show thesis using that by blast
qed

lemma start_queues_drivers: "start_queues cfgs m w = Some (r, m', w') \<Longrightarrow> m_drivers m' = m_drivers m"
  by (induction cfgs m w rule: start_queues.induct)
    (auto simp: rollbackStartLocked_def closeQueuesLocked_def split: if_splits option.splits elim!: start_queue_cases)

context redis_lua begin

lemma start_queues_world:
  assumes "start_queues cfgs m w = Some (r, m', w')" and "ran (m_drivers m) \<subseteq> {redis_driver R}" and "wok ch w" and "quiet w"
    and "\<forall>n. w_net w n = Delivered"
  shows "wok ch w' \<and> quiet w' \<and> w_net w' = w_net w \<and> w_db w' = w_db w"
  using assms
proof (induction cfgs arbitrary: m w)
  case (Cons x rest)
  obtain n cfg where x: "x = (n, cfg)" by force
  note pr = Cons.prems[unfolded x]
  show ?case
  proof (cases "cfg_Enabled cfg")
    case False
    then show ?thesis using Cons.IH[of m w] pr by simp
  next
    case True
    then obtain d h where dh: "m_drivers m (cfg_Driver cfg) = Some d" "Mux_Get n (m_serveMux m) = Some h"
      using pr(1) by (auto split: option.splits)
    obtain r1 m1 w1 where st: "start_queue n cfg d h m w = Some (r1, m1, w1)"
      using pr(1) True dh by (cases "start_queue n cfg d h m w") auto
    have d: "d = redis_driver R" using pr(2) dh(1) by (auto simp: ran_def)
    have "Ping w = (Inr (), after_call w (db_at w))" using pr(5) by (simp add: Ping_def client_call_eq reply_of_def)
    then have "w1 = w \<or> w1 = after_call w (db_at w)" using st d
      by (auto simp: start_queue_def NewAsyncQueue_def redis_driver_def Let_def split: if_splits)
    then have w1: "wok ch w1" "quiet w1" "w_net w1 = w_net w" "w_db w1 = w_db w"
      using world_ok_after[OF pr(3) world_ok_db_at[OF pr(3)]] pr(3-5) by (auto simp: executed_def)
    have dr: "m_drivers m1 = m_drivers m" using st by (cases rule: start_queue_cases) auto
    show ?thesis
    proof (cases r1)
      case None
      then have "start_queues rest m1 w1 = Some (r, m', w')" using pr(1) True dh st by simp
      then show ?thesis using Cons.IH[of m1 w1] w1 dr pr(2,5) by simp
    next
      case (Some e)
      then show ?thesis using pr(1) True dh st w1 by simp
    qed
  qed
qed simp

end

text \<open>When \<^verbatim>\<open>Run\<close> has started the workers, the server and the package functions find every enabled queue, on its channel of the driver; starting
  changes nothing in the database.\<close>

lemma run_begin_queue:
  assumes "redis_lua R look conv safe" and "world_ok safe look ch w" and "quiet w" and "\<forall>n. w_net w n = Delivered"
    and "distinct (map fst cfgs)" and "NewServer (Some cfgs) [WithDriver dn (Some (redis_driver R))] g = (Inr a, g1)" and "dn \<noteq> ''''"
    and "Run_begin a smux g1 w = Some (None, g2, w1)" and "(n, cfg) \<in> set cfgs" and "cfg_Enabled cfg" and "cfg_Channel cfg = ch"
  obtains q where "GetQueue n g2 = Inr q" "Server_Queue (Some a) n g2 = Inr q" "aq_driver q = Some (redis_driver R)" "aq_channel q = ch"
    "aq_maxAttempts q = (if cfg_MaxAttempts cfg > 0 then cfg_MaxAttempts cfg else 3)"
    "world_ok safe look ch w1" "quiet w1" "w_net w1 = w_net w" "w_db w1 = w_db w"
proof -
  obtain s m0 where s: "deref (Some a) g1 = Some s" "srv_manager s = Some m0" "m_config m0 = cfgs"
    "m_drivers m0 = [dn \<mapsto> redis_driver R]" "m_wg m0 = []" "g_defaultServer g1 = Some a" "a < length (g_servers g1)"
    by (rule NewServer_made[OF assms(6,7)]) blast
  obtain mux where mux: "srv_manager (merge_mux smux s) = Some (m0\<lparr>m_serveMux := mux\<rparr>)" by (rule merge_mux_manager[OF s(2)])
  let ?m = "m0\<lparr>m_serveMux := mux\<rparr>"
  obtain m' where st: "StartWorker ?m w = Some (None, m', w1)" and g2: "g2 = store a ((merge_mux smux s)\<lparr>srv_manager := Some m'\<rparr>) g1"
    using assms(8) s mux by (auto simp: Run_begin_def Let_def split: option.splits)
  from st obtain m2 where run: "start_queues cfgs m2 w = Some (None, m', w1)" and m2: "m_drivers m2 = [dn \<mapsto> redis_driver R]"
    "m_wg m2 = []" "\<not> m_ctxDone m2"
    using s(3-5) by (auto simp: StartWorker_def split: if_splits option.splits)
  have "\<forall>(n, cfg) \<in> set cfgs. queue_absent m2 n" using m2(2) by (simp add: queue_absent_def)
  from start_queues_result[OF run assms(5) this m2(3)] assms(9,10) have "queue_up m' n cfg" by (auto simp: all_up_def)
  then obtain q where q: "m_queues m' n = Some q" "aq_channel q = ch" "aq_maxAttempts q = (if cfg_MaxAttempts cfg > 0 then cfg_MaxAttempts cfg else 3)"
    and "aq_driver q \<in> Some ` ran (m_drivers m')" using assms(11) by (auto simp: queue_up_def ran_def)
  moreover have "m_drivers m' = m_drivers m2" by (rule start_queues_drivers[OF run])
  ultimately have qd: "aq_driver q = Some (redis_driver R)" using m2(1) by (auto simp: ran_def split: if_splits)
  have w1: "world_ok safe look ch w1" "quiet w1" "w_net w1 = w_net w" "w_db w1 = w_db w"
    using redis_lua.start_queues_world[OF assms(1) run _ assms(2-4)] m2(1) by (auto simp: ran_def)
  have "Server_Queue (Some a) n g2 = Inr q" "GetQueue n g2 = Inr q"
    using s(6,7) q(1) by (simp_all add: GetQueue_def Server_Queue_def Manager_GetQueue_def g2 deref_store)
  then show ?thesis using that qd q(2,3) w1 by blast
qed

lemma run_begin_push:
  assumes "redis_lua R look conv safe" and "world_ok safe look ch w" and "quiet w" and "\<forall>n. w_net w n = Delivered"
    and "seq_ok maxMessageSequence look ch (w_db w)" and "fst (seq_state look ch (w_db w)) + 1 < 10 ^ 14" and "safe data"
    and "distinct (map fst cfgs)" and "NewServer (Some cfgs) [WithDriver dn (Some (redis_driver R))] g = (Inr a, g1)" and "dn \<noteq> ''''"
    and "Run_begin a smux g1 w = Some (None, g2, w1)" and "(n, cfg) \<in> set cfgs" and "cfg_Enabled cfg" and "cfg_Channel cfg = ch"
    and "cfg_MaxAttempts cfg < 10 ^ 14"
  obtains q i m score w2 where "GetQueue n g2 = Inr q" "Server_Queue (Some a) n g2 = Inr q" "aq_driver q = Some (redis_driver R)" "aq_channel q = ch"
    "Queue_PushTask wall_now (Some q) (Some (Inr data)) d w1 = Some (Inr i, w2)" "i \<noteq> ''''"
    "world_ok safe look ch w2" "quiet w2" "w_net w2 = w_net w" "Payload m = Some (Json data)" "Attempts m = 0"
    "MaxAttempts m = (if cfg_MaxAttempts cfg > 0 then cfg_MaxAttempts cfg else 3)" "Status m = (if d = 0 then StatusWaiting else StatusDelayed)"
    "view look ch (w_db w2) = q_push i m (if d = 0 then ''waiting'' else ''delayed'') score (view look ch (w_db w))"
proof -
  obtain q where q: "GetQueue n g2 = Inr q" "Server_Queue (Some a) n g2 = Inr q" "aq_driver q = Some (redis_driver R)" "aq_channel q = ch"
    "aq_maxAttempts q = (if cfg_MaxAttempts cfg > 0 then cfg_MaxAttempts cfg else 3)"
    and w1: "world_ok safe look ch w1" "quiet w1" "w_net w1 = w_net w" "w_db w1 = w_db w"
    by (rule run_begin_queue[OF assms(1-4,8-14)])
  have at: "0 < aq_maxAttempts q" "aq_maxAttempts q < 10 ^ 14" using q(5) assms(15) by auto
  have "\<forall>n. w_net w1 n = Delivered" using w1(3) assms(4) by simp
  from redis_lua.PushTask_delivered[OF assms(1) w1(1,2) this _ _ q(3,4) at assms(7), of d] w1(3,4) assms(5,6) q(5)
  show ?thesis using that[OF q(1-4)] by metis
qed

text \<open>C35. A task pushed through the package function while the server runs reaches a consumer: for a server made
  with a Redis driver, once \<^verbatim>\<open>Run\<close> has started its workers, \<^verbatim>\<open>PushTask\<close> on any enabled queue returns a
  nonempty id, and the next \<^verbatim>\<open>Pop\<close> on the configured channel, if nothing was waiting there, delivers this id
  with the marshalled task and the configured maximum of attempts.\<close>

theorem global_push_delivers:
  assumes "redis_lua R look conv safe" and "world_ok safe look ch w" and "quiet w" and "\<forall>n. w_net w n = Delivered"
    and "seq_ok maxMessageSequence look ch (w_db w)" and "fst (seq_state look ch (w_db w)) + 1 < 10 ^ 14"
    and "q_waiting (view look ch (w_db w)) = []" and "safe data"
    and "distinct (map fst cfgs)" and "NewServer (Some cfgs) [WithDriver dn (Some (redis_driver R))] g = (Inr a, g1)" and "dn \<noteq> ''''"
    and "Run_begin a smux g1 w = Some (None, g2, w1)" and "(n, cfg) \<in> set cfgs" and "cfg_Enabled cfg" and "cfg_Channel cfg = ch"
    and "cfg_MaxAttempts cfg < 10 ^ 14"
  shows "\<exists>i w2 m w3. PushTask wall_now n (Some (Inr data)) 0 g2 w1 = Some (Inr i, w2) \<and> i \<noteq> '''' \<and>
    Pop R ch pt ht None w2 = Some (Inr (i, Some m), w3) \<and> ID m = i \<and> Payload m = Some (Json data) \<and> Attempts m = 0 \<and>
    MaxAttempts m = (if cfg_MaxAttempts cfg > 0 then cfg_MaxAttempts cfg else 3) \<and> Status m = StatusReserved"
proof -
  obtain q where q: "GetQueue n g2 = Inr q" "Server_Queue (Some a) n g2 = Inr q" "aq_driver q = Some (redis_driver R)" "aq_channel q = ch"
    "aq_maxAttempts q = (if cfg_MaxAttempts cfg > 0 then cfg_MaxAttempts cfg else 3)"
    and w1: "world_ok safe look ch w1" "quiet w1" "w_net w1 = w_net w" "w_db w1 = w_db w"
    by (rule run_begin_queue[OF assms(1-4,9-15)])
  have "0 < aq_maxAttempts q" "aq_maxAttempts q < 10 ^ 14" using q(5) assms(16) by auto
  from redis_lua.pushed_task_pops[OF assms(1) w1(1,2) _ _ _ q(3,4) this assms(8), of pt ht] w1(3,4) assms(4-7) q(1,5)
  show ?thesis by (simp add: PushTask_def)
qed

section \<open>A server over the in-memory server\<close>

definition demo_globals :: "mem world globals" where
  "demo_globals = \<lparr>g_servers = [], g_defaultServer = None\<rparr>"

abbreviation demo_configs :: Config where
  "demo_configs \<equiv> [(''q'', demo_config)]"

definition demo_server :: "mem world Server" where
  "demo_server = \<lparr>srv_config = Some demo_configs, srv_serveMux = Some NewServeMux, srv_manager = Some
     \<lparr>m_config = demo_configs, m_serveMux = NewServeMux, m_queues = Map.empty, m_workers = Map.empty, m_forwarders = Map.empty,
      m_drivers = [''redis'' \<mapsto> redis_driver mem_redis], m_ctxDone = False, m_wg = [], m_errors = None, m_started = False\<rparr>,
     srv_drivers = [(''redis'', redis_driver mem_redis)]\<rparr>"

abbreviation demo_globals1 :: "mem world globals" where
  "demo_globals1 \<equiv> \<lparr>g_servers = [demo_server], g_defaultServer = Some 0\<rparr>"

lemma demo_new_server:
  "NewServer (Some demo_configs) [WithDriver ''redis'' (Some (redis_driver mem_redis))] demo_globals = (Inr 0, demo_globals1)"
  by (simp add: NewServer_def newManager_def setDefaultWithWarn_def RegisterDriver_def Let_def demo_globals_def demo_server_def)

theorem shutdownTimeout_max_witness: "shutdownTimeout (Some demo_server) = 40 * second_ns"
proof -
  have "{cfg_ShutdownTimeout cfg | n cfg. (n, cfg) \<in> set demo_configs \<and> cfg_Enabled cfg} = {40}" by (auto simp: demo_config_def)
  then show ?thesis using shutdownTimeout_max[of demo_server demo_configs] by (simp add: demo_server_def demo_config_def)
qed

theorem server_stop_default_witness:
  "\<exists>r g'. Server_Stop 0 (Some 0) demo_globals1 r g' \<and> DefaultServer g' = None \<and>
     PushTask wall_now ''q'' None 0 g' demo_start = Some (Inl (ErrText ''no default server: call NewServer first''), demo_start)"
proof -
  let ?m = "the (srv_manager demo_server)"
  have m: "deref (Some 0) demo_globals1 = Some demo_server" "srv_manager demo_server = Some ?m" "\<not> m_started ?m"
    by (simp_all add: deref_def demo_server_def)
  have "Manager_Stop 0 ?m (Some (ErrText ''[Async-Queue-Manager] not started'')) ?m"
    using m(3) by (intro Manager_Stop.refused) (simp add: Stop_begin_def)
  then obtain r g' where s: "Server_Stop 0 (Some 0) demo_globals1 r g'" using Server_Stop.stop[OF m(1,2)] by blast
  have live: "Option.bind (deref (Some 0) demo_globals1) srv_manager \<noteq> None" by (simp add: deref_def demo_server_def)
  have "DefaultServer demo_globals1 = Some 0" by (simp add: DefaultServer_def)
  then show ?thesis using server_stop_default[OF s live] s by metis
qed

lemma demo_run_begin:
  "\<exists>g2 w1. Run_begin 0 (Some (Mux_Handle ''q'' demo_handler NewServeMux)) demo_globals1 demo_start = Some (None, g2, w1)"
proof -
  let ?mux = "Mux_Handle ''q'' demo_handler NewServeMux"
  have s: "deref (Some 0) demo_globals1 = Some demo_server" "srv_manager demo_server \<noteq> None"
    by (simp_all add: deref_def demo_server_def)
  obtain m where m: "srv_manager (merge_mux (Some ?mux) demo_server) = Some m" "m_config m = demo_configs" "Mux_Get ''q'' (m_serveMux m) = Some demo_handler"
    "m_drivers m = [''redis'' \<mapsto> redis_driver mem_redis]" "\<not> m_started m"
    by (simp add: merge_mux_def put_mux_def demo_server_def Mux_Get_def Mux_Handle_def)
  obtain q w1 where q: "NewAsyncQueue (Some (redis_driver mem_redis)) ''q'' (queueOpts ''q'' demo_config) demo_start = (Inr q, w1)"
    using demo_queue_created by blast
  have "checkStartWorkerOptions m = None" using m by (simp add: checkStartWorkerOptions_def check_queue_def)
  then obtain m1 where "StartWorker m demo_start = Some (None, m1, w1)"
    using m(2-5) q by (simp add: StartWorker_def start_queue_def Let_def)
  then show ?thesis using s m(1) by (auto simp: Run_begin_def Let_def)
qed

theorem global_push_delivers_witness:
  "\<exists>g2 w1 i w2 m w3. Run_begin 0 (Some (Mux_Handle ''q'' demo_handler NewServeMux)) demo_globals1 demo_start = Some (None, g2, w1) \<and>
     PushTask wall_now ''q'' (Some (Inr JNull)) 0 g2 w1 = Some (Inr i, w2) \<and>
     Pop mem_redis ''q'' 0 0 None w2 = Some (Inr (i, Some m), w3) \<and> Payload m = Some (Json JNull) \<and> MaxAttempts m = 3"
proof -
  let ?mux = "Mux_Handle ''q'' demo_handler NewServeMux"
  obtain g2 w1 where run: "Run_begin 0 (Some ?mux) demo_globals1 demo_start = Some (None, g2, w1)"
    using demo_run_begin by blast
  have "cfg_MaxAttempts demo_config = 3" by (simp add: demo_config_def)
  then show ?thesis
    using run global_push_delivers[OF demo_lua demo_world_ok[OF demo_empty(1)] _ _ _ _ _ _ demo_new_server _ run,
        where data = JNull and n = "''q''" and cfg = demo_config and pt = 0 and ht = 0]
    by (fastforce simp: demo_seq demo_empty q_empty_def mem_safe_def)
qed

end
