(* ===== verification/Fleet.thy ===== *)
theory Fleet
  imports Server
begin

text \<open>
  What the manager starts for one queue, together: its consumers and its forwarder on one channel of one driver
  (\<^verbatim>\<open>asyncqueue/manager.go\<close>, \<^verbatim>\<open>StartWorker\<close> and \<^verbatim>\<open>runWorkerWithAutoRestart\<close>).  Each consumer is a \<open>crun\<close> of \<open>Consumer_Run\<close>; they
  share the world, and their steps interleave in any order with rounds of the forwarder and with whatever other clients do.  A call of the
  driver is one step; what other clients do between the Redis calls of one method is the subject of \<open>Delivery\<close> and \<open>Driver_Properties\<close>.
\<close>

section \<open>Interleaving\<close>

text \<open>No reservation has passed its deadline.\<close>

definition unexpired :: "int \<Rightarrow> qstate \<Rightarrow> bool" where
  "unexpired now q \<longleftrightarrow> (\<forall>(deadline, i) \<in> set (q_reserved q). now < deadline)"

text \<open>The goroutines \<^verbatim>\<open>StartWorker\<close> starts for the consumers \<open>cs\<close> of one queue, on the channel \<open>ch\<close> of the driver \<open>D\<close>: a step of a member, which finds
  the shared world; in the restart mode a fresh consumer with the settings of one that has returned while the context is open, as in
  \<^verbatim>\<open>runWorkerWithAutoRestart\<close>; a round of the forwarder; a step of other clients.  The moments at which forwarding is considered are given by \<open>timely\<close>.\<close>

inductive fleet_step :: "('w \<Rightarrow> int) \<Rightarrow> 'w Consumer list \<Rightarrow> 'w driver \<Rightarrow> string \<Rightarrow> ('w \<Rightarrow> bool) \<Rightarrow> ('w \<Rightarrow> 'w \<Rightarrow> bool)
    \<Rightarrow> 'w \<times> 'w crun list \<Rightarrow> 'w \<times> 'w crun list \<Rightarrow> bool"
  for wall cs D ch timely others where
  member: "k < length rs \<Longrightarrow> run_step wall ((rs ! k)\<lparr>r_world := w\<rparr>) s' \<Longrightarrow>
    fleet_step wall cs D ch timely others (w, rs) (r_world s', rs[k := s'])"
| restart: "k < length rs \<Longrightarrow> r_phase (rs ! k) = Exited e \<Longrightarrow> r_ctx (rs ! k) = None \<Longrightarrow>
    c_autoRestart (cs ! k) \<Longrightarrow> 0 < c_maxMessages (cs ! k) \<Longrightarrow>
    fleet_step wall cs D ch timely others (w, rs) (w, rs[k := run_init (cs ! k) ctx w])"
| forwards: "timely w \<Longrightarrow> D_ForwardMessages D ch w = (r, w') \<Longrightarrow> fleet_step wall cs D ch timely others (w, rs) (w', rs)"
| other: "others w w' \<Longrightarrow> fleet_step wall cs D ch timely others (w, rs) (w', rs)"

definition fleet_member :: "('w \<Rightarrow> int) \<Rightarrow> 'w \<times> 'w crun list \<Rightarrow> 'w \<times> 'w crun list \<Rightarrow> bool" where
  "fleet_member wall f f' \<longleftrightarrow> (\<exists>k s'. k < length (snd f) \<and> run_step wall ((snd f ! k)\<lparr>r_world := fst f\<rparr>) s' \<and>
     f' = (r_world s', (snd f)[k := s']))"

definition fleet_init :: "'w Consumer list \<Rightarrow> error option \<Rightarrow> 'w \<Rightarrow> 'w \<times> 'w crun list" where
  "fleet_init cs ctx w = (w, map (\<lambda>c. run_init c ctx w) cs)"

text \<open>The rely: what other clients may do while messages are being processed.\<close>

definition keeps_claims :: "(string \<Rightarrow> 'w \<Rightarrow> bool) \<Rightarrow> (string \<Rightarrow> 'w \<Rightarrow> qstate) \<Rightarrow> ('w \<Rightarrow> bool) \<Rightarrow> string \<Rightarrow> 'w \<Rightarrow> 'w \<Rightarrow> bool" where
  "keeps_claims dok after calm ch w w' \<longleftrightarrow> (dok ch w \<longrightarrow> calm w \<longrightarrow> good (after ch w) \<longrightarrow>
     dok ch w' \<and> calm w' \<and> good (after ch w') \<and> reserved_ids (after ch w) \<subseteq> reserved_ids (after ch w'))"


lemma distinct_concat_parts:
  assumes "\<And>k. k < length xss \<Longrightarrow> distinct (xss ! k)"
    and "\<And>j k. j < length xss \<Longrightarrow> k < length xss \<Longrightarrow> j \<noteq> k \<Longrightarrow> set (xss ! j) \<inter> set (xss ! k) = {}"
  shows "distinct (concat xss)"
  using assms
proof (induction xss)
  case (Cons xs xss)
  have "distinct (concat xss)" using Cons.prems(1)[of "Suc _"] Cons.prems(2)[of "Suc _" "Suc _"] by (intro Cons.IH) auto
  moreover have "set xs \<inter> set (xss ! k) = {}" if "k < length xss" for k using Cons.prems(2)[of 0 "Suc k"] that by simp
  then have "set xs \<inter> set (concat xss) = {}" by (fastforce simp: in_set_conv_nth)
  ultimately show ?case using Cons.prems(1)[of 0] by simp
qed simp

section \<open>The forwarder keeps claims\<close>

lemma forward_keeps:
  assumes "good q"
  shows "good (q_forward now q) \<and> q_reserved (q_forward now q) = q_reserved q"
proof -
  have res: "q_reserved (fold (q_forward1 now) xs q) = q_reserved q" for xs
    by (induction xs arbitrary: q) (simp_all add: q_forward1_def Let_def)
  have "distinct (map snd (q_delayed q))" using assms by (simp add: good_def exclusive_unfold)
  then have "distinct (zset_due now 100 (q_delayed q))" "set (zset_due now 100 (q_delayed q)) \<subseteq> delayed_ids q"
    using set_take_subset[of 100 "map snd (filter (\<lambda>(sc, _). sc \<le> now) (q_delayed q))"]
    by (auto simp: zset_due_def zset_members_def intro!: distinct_take distinct_map_filter)
  then have "q_steps True q (q_forward now q)" unfolding q_forward_def by (intro forward_steps) simp_all
  then show ?thesis using q_steps_good assms res by (simp add: q_forward_def)
qed

lemma unexpired_expire: "unexpired now q \<Longrightarrow> q_expire now q = q"
proof -
  assume "unexpired now q"
  then have "filter (\<lambda>(sc, _). sc \<le> now) (q_reserved q) = []" by (fastforce simp: unexpired_def filter_empty_conv)
  then show ?thesis by (simp add: q_expire_def zset_due_def)
qed

lemma forwarded_keeps:
  assumes "q_forwarded now e q q'" and "good q" and "unexpired now q"
  shows "good q' \<and> reserved_ids q \<subseteq> reserved_ids q'"
proof -
  note f = forward_keeps[OF assms(2), of "now + 1"]
  have "unexpired now (q_forward (now + 1) q)" using f assms(3) by (simp add: unexpired_def)
  then have "q' \<in> {q, q_forward (now + 1) q}" using assms(1) unexpired_expire
    by (auto simp: q_forwarded_def Let_def split: if_splits)
  then show ?thesis using f assms(2) by auto
qed

context queue_driver begin

lemma Forward_keeps_claims:
  assumes "D_ForwardMessages D ch w = (r, w')" and "unexpired (clk w) (after ch w)"
  shows "keeps_claims wf after calm ch w w'"
proof -
  obtain d t e where r: "r = (d, t, e)" by (metis prod_cases3)
  show ?thesis unfolding keeps_claims_def
  proof (intro impI)
    assume w: "wf ch w" "calm w" "good (after ch w)"
    from Forward_law[OF w(1) assms(1)[unfolded r]] have "wf ch w'" "calm w'" "q_forwarded (clk w) e (after ch w) (after ch w')"
      using w(2) calm_before by auto
    then show "wf ch w' \<and> calm w' \<and> good (after ch w') \<and> reserved_ids (after ch w) \<subseteq> reserved_ids (after ch w')"
      using forwarded_keeps w(3) assms(2) by blast
  qed
qed


section \<open>Members keep the claims of the others\<close>

text \<open>The guarantee of a step: it gives up at most reservations of its own, and what it claims anew was reserved by nobody.\<close>

definition guarantee :: "string \<Rightarrow> 'w crun \<Rightarrow> 'w crun \<Rightarrow> bool" where
  "guarantee ch s s' \<longleftrightarrow>
     reserved_ids (after ch (r_world s)) - set (in_flight s) \<subseteq> reserved_ids (after ch (r_world s')) \<and>
     (set (in_flight s') - set (in_flight s)) \<inter> reserved_ids (after ch (r_world s)) = {}"

lemma guarantee_still: "r_world s' = r_world s \<Longrightarrow> set (in_flight s') \<subseteq> set (in_flight s) \<Longrightarrow> guarantee ch s s'"
  by (auto simp: guarantee_def)

lemma member_guarantee:
  assumes "run_step wall s s'" and h: "held_inv c s" and D: "c_driver c = D" and al: "aloof wf calm after c"
    and "in_int64 (c_maxMessages c)"
  shows "guarantee (c_channel c) s s'"
proof -
  have be: "benign wf c" "silent_hooks (c_hooks c)" using al by (simp_all add: aloof_def benign_def)
  have su: "same_setup c (r_con s)" using h by (simp add: held_inv_def live_inv_def run_inv_def)
  from assms(1) show ?thesis
  proof (cases rule: run_step.cases)
    case (pop ctx p w)
    then show ?thesis using held_pop[OF h, of "c_PopTimeout (r_con s)" "c_handleTimeout (r_con s)" ctx p w] D su
      by (auto simp: guarantee_def same_setup_def in_flight_def)
  next
    case (pop_idle i mo)
    then show ?thesis by (intro guarantee_still) (auto simp: in_flight_def)
  next
    case (handle k i m out m' w)
    then show ?thesis using al su ids_split[OF handle(3)] ids_update(1)[OF handle(3), of "Handled i out m'"]
      by (auto simp: guarantee_def in_flight_def aloof_def same_setup_def)
  next
    case (commit k i out m err c1 m' w)
    have "set (in_flight s') \<subseteq> set (in_flight s)"
      using ids_split[OF commit(3)] ids_update(1)[OF commit(3), of Committed] commit(1) by (auto simp: in_flight_def)
    then show ?thesis using held_commit[OF h D be(2) commit(3-5)] commit(1) by (auto simp: guarantee_def)
  next
    case (crash k i out m c1 m' w)
    then show ?thesis using live_inv_step[OF assms(1) _ D be(1) assms(5)] h by (simp add: held_inv_def live_inv_def)
  next
    case (unlock k)
    then show ?thesis using ids_split[OF unlock(3)] ids_update(1)[OF unlock(3), of Unlocked]
      by (intro guarantee_still) (auto simp: in_flight_def)
  next
    case (finish k)
    then show ?thesis using ids_split[OF finish(3)] ids_update(2)[OF finish(3)]
      by (intro guarantee_still) (auto simp: in_flight_def)
  qed (intro guarantee_still; simp add: in_flight_def)+
qed

text \<open>All members hold what they process, and no two hold the same.\<close>

definition fleet_inv :: "'w Consumer list \<Rightarrow> string \<Rightarrow> 'w \<times> 'w crun list \<Rightarrow> bool" where
  "fleet_inv cs ch f \<longleftrightarrow> length (snd f) = length cs \<and> wf ch (fst f) \<and> calm (fst f) \<and> good (after ch (fst f)) \<and>
     (\<forall>k < length cs. held_inv (cs ! k) ((snd f ! k)\<lparr>r_world := fst f\<rparr>)) \<and>
     (\<forall>j < length cs. \<forall>k < length cs. j \<noteq> k \<longrightarrow> set (in_flight (snd f ! j)) \<inter> set (in_flight (snd f ! k)) = {})"

definition crew :: "'w Consumer list \<Rightarrow> string \<Rightarrow> bool" where
  "crew cs ch \<longleftrightarrow> (\<forall>c \<in> set cs. c_driver c = D \<and> c_channel c = ch \<and> aloof wf calm after c \<and> in_int64 (c_maxMessages c) \<and>
     0 \<le> c_concurrentLimit c \<and> in_int64 (c_processed c))"

lemma in_flight_world [simp]: "in_flight (s\<lparr>r_world := w\<rparr>) = in_flight s"
  by (simp add: in_flight_def)

lemma held_inv_world:
  assumes "held_inv c (s\<lparr>r_world := w\<rparr>)" and "wf (c_channel c) w'" and "calm w'" and "good (after (c_channel c) w')"
    and "set (in_flight s) \<subseteq> reserved_ids (after (c_channel c) w')"
  shows "held_inv c (s\<lparr>r_world := w'\<rparr>)"
  using assms by (simp add: held_inv_def live_inv_def run_inv_def)

lemma held_inv_init:
  assumes "crew cs ch" and "c \<in> set cs" and "wf ch w" and "calm w" and "good (after ch w)"
  shows "held_inv c (run_init c ctx w)"
  using assms run_inv_init[of c ctx w] by (auto simp: crew_def held_inv_def live_inv_def) (simp_all add: run_init_def in_flight_def)

lemma fleet_inv_env:
  assumes "fleet_inv cs ch (w, rs)" and "crew cs ch" and "keeps_claims wf after calm ch w w'"
  shows "fleet_inv cs ch (w', rs)"
proof -
  have w: "wf ch w'" "calm w'" "good (after ch w')" "reserved_ids (after ch w) \<subseteq> reserved_ids (after ch w')"
    using assms(1,3) by (auto simp: fleet_inv_def keeps_claims_def)
  have "held_inv (cs ! k) ((rs ! k)\<lparr>r_world := w'\<rparr>)" if k: "k < length cs" for k
  proof (rule held_inv_world)
    show h: "held_inv (cs ! k) ((rs ! k)\<lparr>r_world := w\<rparr>)" using assms(1) k by (simp add: fleet_inv_def)
    have "c_channel (cs ! k) = ch" using assms(2) k by (simp add: crew_def)
    then show "wf (c_channel (cs ! k)) w'" "good (after (c_channel (cs ! k)) w')"
      "set (in_flight (rs ! k)) \<subseteq> reserved_ids (after (c_channel (cs ! k)) w')" using w h by (auto simp: held_inv_def)
  qed (rule w)
  then show ?thesis using assms(1) w by (simp add: fleet_inv_def)
qed

lemma fleet_inv_update:
  assumes "fleet_inv cs ch (w, rs)" and "crew cs ch" and k: "k < length cs" and h: "held_inv (cs ! k) s'"
    and g: "guarantee ch ((rs ! k)\<lparr>r_world := w\<rparr>) s'"
  shows "fleet_inv cs ch (r_world s', rs[k := s'])"
proof -
  have ch: "c_channel (cs ! j) = ch" if "j < length cs" for j using assms(2) that by (simp add: crew_def)
  have w: "wf ch (r_world s')" "calm (r_world s')" "good (after ch (r_world s'))" using h ch[OF k] by (simp_all add: held_inv_def live_inv_def)
  have len: "length rs = length cs" using assms(1) by (simp add: fleet_inv_def)
  have hj: "held_inv (cs ! j) ((rs ! j)\<lparr>r_world := w\<rparr>)" if "j < length cs" for j using assms(1) that by (simp add: fleet_inv_def)
  have claims: "set (in_flight (rs ! j)) \<subseteq> reserved_ids (after ch w)" if "j < length cs" for j
    using hj[OF that] ch[OF that] by (simp add: held_inv_def)
  have apart: "set (in_flight (rs ! j)) \<inter> set (in_flight (rs ! k)) = {}" if "j < length cs" "j \<noteq> k" for j
    using assms(1) that k by (simp add: fleet_inv_def)
  have "held_inv (cs ! j) ((rs[k := s'] ! j)\<lparr>r_world := r_world s'\<rparr>)" if j: "j < length cs" for j
  proof (cases "j = k")
    case False
    have "set (in_flight (rs ! j)) \<subseteq> reserved_ids (after ch (r_world s'))"
      using g claims[OF j] apart[OF j False] by (auto simp: guarantee_def)
    then show ?thesis using held_inv_world[OF hj[OF j]] w ch[OF j] False by simp
  qed (use h k len in simp)
  moreover have "set (in_flight (rs[k := s'] ! i)) \<inter> set (in_flight (rs[k := s'] ! j)) = {}"
    if "i < length cs" "j < length cs" "i \<noteq> j" for i j
  proof -
    have new: "set (in_flight (rs ! l)) \<inter> set (in_flight s') = {}" if "l < length cs" "l \<noteq> k" for l
      using g claims[OF that(1)] apart[OF that] by (auto simp: guarantee_def)
    show ?thesis using that new[of i] new[of j] assms(1) k len by (cases "i = k"; cases "j = k") (auto simp: fleet_inv_def)
  qed
  ultimately show ?thesis using w len by (simp add: fleet_inv_def)
qed

lemma fleet_inv_step:
  assumes "fleet_step wall cs D ch (\<lambda>w. unexpired (clk w) (after ch w)) others f f'" and i: "fleet_inv cs ch f" and cr: "crew cs ch"
    and "\<And>w w'. others w w' \<Longrightarrow> keeps_claims wf after calm ch w w'"
  shows "fleet_inv cs ch f'"
  using assms(1)
proof cases
  case (member k rs w s')
  then have k: "k < length cs" using i by (simp add: fleet_inv_def)
  then have c: "c_driver (cs ! k) = D" "c_channel (cs ! k) = ch" "aloof wf calm after (cs ! k)" "in_int64 (c_maxMessages (cs ! k))"
    using cr by (simp_all add: crew_def)
  have h: "held_inv (cs ! k) ((rs ! k)\<lparr>r_world := w\<rparr>)" using i k member(1) by (simp add: fleet_inv_def)
  show ?thesis unfolding member(2)
    using fleet_inv_update[OF i[unfolded member(1)] cr k held_inv_step[OF member(4) h c(1,3,4)]] member_guarantee[OF member(4) h c(1,3,4)] c(2) by simp
next
  case (restart k rs e w ctx)
  then have k: "k < length cs" using i by (simp add: fleet_inv_def)
  have "held_inv (cs ! k) (run_init (cs ! k) ctx w)" using held_inv_init[OF cr] k i restart(1) by (simp add: fleet_inv_def)
  moreover have "guarantee ch ((rs ! k)\<lparr>r_world := w\<rparr>) (run_init (cs ! k) ctx w)"
    using i k restart(1,4)
    by (intro guarantee_still) (simp_all add: run_init_def in_flight_def)
  ultimately have "fleet_inv cs ch (r_world (run_init (cs ! k) ctx w), rs[k := run_init (cs ! k) ctx w])"
    using fleet_inv_update[OF _ cr k] i restart(1) by blast
  then show ?thesis unfolding restart(2) by (simp add: run_init_def)
next
  case (forwards w r w' rs)
  then show ?thesis using fleet_inv_env[OF _ cr Forward_keeps_claims] i by blast
next
  case (other w w' rs)
  then show ?thesis using fleet_inv_env[OF _ cr assms(4)] i by blast
qed

lemma fleet_inv_steps:
  assumes "(fleet_step wall cs D ch (\<lambda>w. unexpired (clk w) (after ch w)) others)\<^sup>*\<^sup>* f f'" and "fleet_inv cs ch f" and "crew cs ch"
    and "\<And>w w'. others w w' \<Longrightarrow> keeps_claims wf after calm ch w w'"
  shows "fleet_inv cs ch f'"
  using assms(1,2) by (induction rule: rtranclp_induct) (auto intro: fleet_inv_step[OF _ _ assms(3,4)])

lemma fleet_inv_init:
  assumes "crew cs ch" and "wf ch w" and "calm w" and "good (after ch w)"
  shows "fleet_inv cs ch (fleet_init cs ctx w)"
proof -
  have "held_inv (cs ! k) ((run_init (cs ! k) ctx w)\<lparr>r_world := w\<rparr>)" if "k < length cs" for k
    using held_inv_init[OF assms(1) nth_mem[OF that] assms(2-4)] by (simp add: run_init_def)
  then show ?thesis using assms by (simp add: fleet_inv_def fleet_init_def) (simp add: run_init_def in_flight_def)
qed

lemma fleet_inv_exclusive:
  assumes "fleet_inv cs ch (w, rs)" and "crew cs ch"
  shows "length rs = length cs \<and> distinct (concat (map in_flight rs)) \<and> set (concat (map in_flight rs)) \<subseteq> reserved_ids (after ch w)"
proof -
  have len: "length rs = length cs" using assms(1) by (simp add: fleet_inv_def)
  have one: "distinct (in_flight (rs ! k))" "set (in_flight (rs ! k)) \<subseteq> reserved_ids (after ch w)" if "k < length rs" for k
    using assms that len by (simp_all add: fleet_inv_def held_inv_def crew_def)
  have "distinct (concat (map in_flight rs))"
    using distinct_concat_parts[of "map in_flight rs"] assms(1) one(1) len by (simp add: fleet_inv_def)
  moreover have "set (concat (map in_flight rs)) \<subseteq> reserved_ids (after ch w)" using one(2) by (fastforce simp: in_set_conv_nth)
  ultimately show ?thesis using len by simp
qed

section \<open>Stopping together\<close>

text \<open>The members go on as long as the shared world stays well-formed, whatever becomes of the claims.\<close>

definition fleet_live :: "'w Consumer list \<Rightarrow> string \<Rightarrow> 'w \<times> 'w crun list \<Rightarrow> bool" where
  "fleet_live cs ch f \<longleftrightarrow> length (snd f) = length cs \<and> wf ch (fst f) \<and>
     (\<forall>k < length cs. live_inv (cs ! k) ((snd f ! k)\<lparr>r_world := fst f\<rparr>))"

definition staff :: "'w Consumer list \<Rightarrow> string \<Rightarrow> bool" where
  "staff cs ch \<longleftrightarrow> (\<forall>c \<in> set cs. c_driver c = D \<and> c_channel c = ch \<and> benign wf c \<and> in_int64 (c_maxMessages c) \<and>
     0 < c_concurrentLimit c \<and> in_int64 (c_processed c))"

lemma live_inv_world: "live_inv c (s\<lparr>r_world := w\<rparr>) \<Longrightarrow> wf (c_channel c) w' \<Longrightarrow> live_inv c (s\<lparr>r_world := w'\<rparr>)"
  by (simp add: live_inv_def run_inv_def)

lemma fleet_live_update:
  assumes "fleet_live cs ch (w, rs)" and "staff cs ch" and "k < length cs" and "live_inv (cs ! k) s'"
  shows "fleet_live cs ch (r_world s', rs[k := s'])"
proof -
  have ch: "c_channel (cs ! j) = ch" if "j < length cs" for j using assms(2) that by (simp add: staff_def)
  have w: "wf ch (r_world s')" using assms(4) ch[OF assms(3)] by (simp add: live_inv_def)
  have len: "length rs = length cs" using assms(1) by (simp add: fleet_live_def)
  have "live_inv (cs ! j) ((rs[k := s'] ! j)\<lparr>r_world := r_world s'\<rparr>)" if j: "j < length cs" for j
    using assms(1,3,4) w ch[OF j] j len live_inv_world[of "cs ! j" w "rs ! j" "r_world s'"] by (cases "j = k") (auto simp: fleet_live_def)
  then show ?thesis using w len by (simp add: fleet_live_def)
qed

lemma fleet_live_world:
  assumes "fleet_live cs ch (w, rs)" and "staff cs ch" and "wf ch w'"
  shows "fleet_live cs ch (w', rs)"
  using assms live_inv_world by (auto simp: fleet_live_def staff_def)

lemma live_inv_start: "staff cs ch \<Longrightarrow> c \<in> set cs \<Longrightarrow> wf ch w \<Longrightarrow> live_inv c (run_init c ctx w)"
  using run_inv_init[of c ctx w] by (auto simp: staff_def live_inv_def) (simp_all add: run_init_def)

lemma fleet_live_init:
  assumes "staff cs ch" and "wf ch w"
  shows "fleet_live cs ch (fleet_init cs ctx w)"
proof -
  have "live_inv (cs ! k) ((run_init (cs ! k) ctx w)\<lparr>r_world := w\<rparr>)" if "k < length cs" for k
    using live_inv_start[OF assms(1) nth_mem[OF that] assms(2)] by (simp add: run_init_def)
  then show ?thesis using assms by (simp add: fleet_live_def fleet_init_def)
qed

lemma fleet_live_step:
  assumes "fleet_step wall cs D ch timely others f f'" and i: "fleet_live cs ch f" and st: "staff cs ch"
    and "\<And>w w'. others w w' \<Longrightarrow> wf ch w \<Longrightarrow> wf ch w'"
  shows "fleet_live cs ch f'"
  using assms(1)
proof cases
  case (member k rs w s')
  then have k: "k < length cs" using i by (simp add: fleet_live_def)
  then have c: "c_driver (cs ! k) = D" "benign wf (cs ! k)" "in_int64 (c_maxMessages (cs ! k))" using st by (simp_all add: staff_def)
  have "live_inv (cs ! k) ((rs ! k)\<lparr>r_world := w\<rparr>)" using i k member(1) by (simp add: fleet_live_def)
  then show ?thesis unfolding member(2) using fleet_live_update[OF i[unfolded member(1)] st k live_inv_step[OF member(4) _ c]] by simp
next
  case (restart k rs e w ctx)
  then have k: "k < length cs" using i by (simp add: fleet_live_def)
  have "live_inv (cs ! k) (run_init (cs ! k) ctx w)" using live_inv_start[OF st nth_mem[OF k]] i restart(1) by (simp add: fleet_live_def)
  from fleet_live_update[OF i[unfolded restart(1)] st k this] show ?thesis unfolding restart(2) by (simp add: run_init_def)
next
  case (forwards w r w' rs)
  obtain d t e where r: "r = (d, t, e)" by (metis prod_cases3)
  have "wf ch w'" using Forward_law[OF _ forwards(4)[unfolded r]] i forwards(1) by (simp add: fleet_live_def)
  then show ?thesis using fleet_live_world[OF i[unfolded forwards(1)] st] forwards(2) by simp
next
  case (other w w' rs)
  then show ?thesis using fleet_live_world[OF _ st] assms(4)[OF other(3)] i by (simp add: fleet_live_def)
qed

lemma fleet_live_steps:
  assumes "(fleet_step wall cs D ch timely others)\<^sup>*\<^sup>* f f'" and "fleet_live cs ch f" and "staff cs ch"
    and "\<And>w w'. others w w' \<Longrightarrow> wf ch w \<Longrightarrow> wf ch w'"
  shows "fleet_live cs ch f'"
  using assms(1,2) by (induction rule: rtranclp_induct) (auto intro: fleet_live_step[OF _ _ assms(3,4)])

lemma fleet_progress:
  assumes "fleet_live cs ch f" and "staff cs ch" and "\<nexists>f'. fleet_member wall f f'"
  shows "\<forall>r \<in> set (snd f). (\<exists>e. r_phase r = Exited e) \<and> r_jobs r = []"
proof
  fix r assume "r \<in> set (snd f)"
  then obtain k where k: "k < length (snd f)" "snd f ! k = r" by (auto simp: in_set_conv_nth)
  then have kc: "k < length cs" and lv: "live_inv (cs ! k) (r\<lparr>r_world := fst f\<rparr>)" using assms(1) by (auto simp: fleet_live_def)
  have "\<nexists>s'. run_step wall (r\<lparr>r_world := fst f\<rparr>) s'" using assms(3) k by (auto simp: fleet_member_def)
  then obtain e where "r_phase r = Exited e" using run_progress[OF lv, of wall] assms(2) kc by (auto simp: staff_def)
  then show "(\<exists>e. r_phase r = Exited e) \<and> r_jobs r = []" using lv by (simp add: live_inv_def run_inv_def)
qed

end

text \<open>Once the context of every member has ended, each step of a member uses up some of the work left, and nothing else adds to it.\<close>

definition fleet_weight :: "'w \<times> 'w crun list \<Rightarrow> nat" where
  "fleet_weight f = (\<Sum>r \<leftarrow> snd f. weight r)"

abbreviation all_ended :: "'w \<times> 'w crun list \<Rightarrow> bool" where
  "all_ended f \<equiv> (\<forall>r \<in> set (snd f). r_ctx r \<noteq> None)"

lemma sum_list_update_less:
  fixes g :: "'a \<Rightarrow> nat"
  assumes "k < length xs" and "g x < g (xs ! k)"
  shows "(\<Sum>y \<leftarrow> xs[k := x]. g y) < (\<Sum>y \<leftarrow> xs. g y)"
  using assms by (induction xs arbitrary: k) (auto simp: less_Suc_eq_0_disj split: nat.split)

lemma member_weight:
  assumes "fleet_member wall f f'" and "all_ended f"
  shows "all_ended f' \<and> fleet_weight f' < fleet_weight f"
proof -
  obtain k s' where k: "k < length (snd f)" and st: "run_step wall ((snd f ! k)\<lparr>r_world := fst f\<rparr>) s'" and f': "f' = (r_world s', (snd f)[k := s'])"
    using assms(1) by (auto simp: fleet_member_def)
  have w: "weight s' < weight (snd f ! k)" "r_ctx s' \<noteq> None" using weight_step[OF st] assms(2) k by auto
  have "all_ended f'" using assms(2) w(2) set_update_subset_insert[of "snd f" k s'] unfolding f' by auto
  then show ?thesis using sum_list_update_less[OF k w(1)] by (simp add: fleet_weight_def f')
qed

lemma fleet_step_weight:
  assumes "fleet_step wall cs D ch timely others f f'" and "all_ended f"
  shows "all_ended f' \<and> fleet_weight f' \<le> fleet_weight f"
  using assms(1)
proof cases
  case (member k rs w s')
  then have "fleet_member wall f f'" by (auto simp: fleet_member_def)
  then show ?thesis using member_weight[OF _ assms(2)] by (simp add: less_imp_le)
next
  case (restart k rs e w ctx)
  then show ?thesis using assms(2) nth_mem[OF restart(3)] by auto
qed (use assms(2) in \<open>simp_all add: fleet_weight_def\<close>)

lemma fleet_steps_weight:
  assumes "(fleet_step wall cs D ch timely others)\<^sup>*\<^sup>* f f'" and "all_ended f"
  shows "all_ended f' \<and> fleet_weight f' \<le> fleet_weight f"
  using assms by (induction rule: rtranclp_induct) (auto dest: fleet_step_weight)

lemma fleet_rounds_weight:
  assumes "(((fleet_step wall cs D ch timely others)\<^sup>*\<^sup>* OO fleet_member wall) ^^ n) f f'" and "all_ended f"
  shows "all_ended f' \<and> n + fleet_weight f' \<le> fleet_weight f"
  using assms(1)
proof (induction n arbitrary: f')
  case (Suc n)
  then obtain f1 f2 where f: "(((fleet_step wall cs D ch timely others)\<^sup>*\<^sup>* OO fleet_member wall) ^^ n) f f1"
    "(fleet_step wall cs D ch timely others)\<^sup>*\<^sup>* f1 f2" "fleet_member wall f2 f'" by auto
  note i1 = Suc.IH[OF f(1)]
  note i2 = fleet_steps_weight[OF f(2) conjunct1[OF i1]]
  show ?case using i1 i2 member_weight[OF f(3) conjunct1[OF i2]] by (simp del: not_None_eq)
qed (use assms(2) in simp)

lemma fleet_weight_bound: "fleet_weight f \<le> (\<Sum>r \<leftarrow> snd f. 10 + 4 * length (r_jobs r))"
  unfolding fleet_weight_def by (rule sum_list_mono) (rule weight_bound)


section \<open>Messages in one place only\<close>

lemma start_queues_mux: "start_queues cfgs m w = Some (r, m', w') \<Longrightarrow> m_serveMux m' = m_serveMux m"
  by (induction cfgs m w rule: start_queues.induct)
    (auto simp: rollbackStartLocked_def closeQueuesLocked_def split: if_splits option.splits elim!: start_queue_cases)

lemma StartWorker_crew:
  assumes "distinct (map fst (m_config m))" and "m_wg m = []" and "StartWorker m w0 = Some (None, m', w0')"
    and "(n, cfg) \<in> set (m_config m)" and "cfg_Enabled cfg" and "m_drivers m (cfg_Driver cfg) = Some D"
  obtains q h where "m_workers m' n = Some (map (\<lambda>i. new_consumer n i D q h cfg) (map int [0 ..< nat (cfg_Processes cfg)]))"
    "aq_channel q = cfg_Channel cfg" "Mux_Get n (m_serveMux m) = Some h"
proof -
  let ?m = "m\<lparr>m_ctxDone := False, m_errors := Some [], m_workers := Map.empty, m_forwarders := Map.empty\<rparr>"
  have run: "start_queues (m_config m) ?m w0 = Some (None, m', w0')" using assms(3) by (auto simp: StartWorker_def split: if_splits option.splits)
  have "\<forall>(n, cfg) \<in> set (m_config m). queue_absent ?m n" using assms(2) by (auto simp: queue_absent_def)
  from start_queues_result[OF run assms(1) this] have "queue_up m' n cfg" using assms(4,5) by (auto simp: all_up_def)
  moreover have "m_drivers m' (cfg_Driver cfg) = Some D" using start_queues_drivers[OF run] assms(6) by simp
  ultimately obtain q h where "aq_channel q = cfg_Channel cfg" "Mux_Get n (m_serveMux m') = Some h"
    "m_workers m' n = Some (map (\<lambda>i. new_consumer n i D q h cfg) (map int [0 ..< nat (cfg_Processes cfg)]))"
    unfolding queue_up_def by (metis option.inject)
  moreover have "m_serveMux m' = m_serveMux m" using start_queues_mux[OF run] by simp
  ultimately show ?thesis using that by metis
qed

lemma new_consumer_fields:
  "c_maxMessages (new_consumer n i d q h cfg) = (if cfg_MaxMessages cfg < 0 then 0 else cfg_MaxMessages cfg)"
  "0 \<le> c_concurrentLimit (new_consumer n i d q h cfg)" "c_autoRestart (new_consumer n i d q h cfg) = cfg_AutoRestart cfg"
  "c_driver (new_consumer n i d q h cfg) = d" "c_channel (new_consumer n i d q h cfg) = aq_channel q"
  "c_handler (new_consumer n i d q h cfg) = h" "c_processed (new_consumer n i d q h cfg) = 0"
  "silent_hooks (c_hooks (new_consumer n i d q h cfg))"
  by (simp_all add: new_consumer_def less_imp_le[OF NewConsumer_limit])
    (simp_all add: NewConsumer_def consumer_settings_def defaultConsumerOptions_def Let_def silent_hooks_def silent_hook_def no_hooks_def)

text \<open>A handler that does not touch the channel it serves.\<close>

definition aloof_handler :: "(string \<Rightarrow> 'w \<Rightarrow> bool) \<Rightarrow> ('w \<Rightarrow> bool) \<Rightarrow> (string \<Rightarrow> 'w \<Rightarrow> qstate) \<Rightarrow> string \<Rightarrow> 'w handler \<Rightarrow> bool" where
  "aloof_handler dok calm after ch h \<longleftrightarrow> (\<forall>m w out m' w'. h m w = (out, m', w') \<longrightarrow>
     (dok ch w \<longrightarrow> dok ch w') \<and> (calm w \<longrightarrow> calm w') \<and> after ch w' = after ch w)"

text \<open>A handler that leaves the channel well-formed, whatever it does with its messages.\<close>

definition tidy_handler :: "(string \<Rightarrow> 'w \<Rightarrow> bool) \<Rightarrow> string \<Rightarrow> 'w handler \<Rightarrow> bool" where
  "tidy_handler dok ch h \<longleftrightarrow> (\<forall>m w out m' w'. h m w = (out, m', w') \<longrightarrow> dok ch w \<longrightarrow> dok ch w')"

text \<open>C17. The consumers of a queue never work on the same message.  Whatever the manager started for an enabled queue - the configured
  number of consumers, each with its own goroutines, restarted when they have processed their share, beside the forwarder -
  interleaves in any order with itself and with other clients, each call of the driver being one step: as long as no reservation has expired when the
  forwarder runs, the others leave reservations alone and the handler does not touch the channel, the messages in the hands of all consumers
  together are different and all reserved.\<close>

theorem fleet_exclusive:
  assumes "queue_driver D dok clk before after calm" and "distinct (map fst (m_config m))" and "m_wg m = []"
    and "StartWorker m w0 = Some (None, m', w0')" and "(n, cfg) \<in> set (m_config m)" and "cfg_Enabled cfg"
    and "m_drivers m (cfg_Driver cfg) = Some D" and "in_int64 (cfg_MaxMessages cfg)"
    and "m_workers m' n = Some cs" and "Mux_Get n (m_serveMux m) = Some h" and "aloof_handler dok calm after (cfg_Channel cfg) h"
    and "dok (cfg_Channel cfg) w" and "calm w" and "good (after (cfg_Channel cfg) w)"
    and "\<And>w w'. others w w' \<Longrightarrow> keeps_claims dok after calm (cfg_Channel cfg) w w'"
    and "(fleet_step wall cs D (cfg_Channel cfg) (\<lambda>w. unexpired (clk w) (after (cfg_Channel cfg) w)) others)\<^sup>*\<^sup>*
           (fleet_init cs ctx w) (w', rs)"
  shows "length rs = nat (cfg_Processes cfg) \<and> distinct (concat (map in_flight rs)) \<and>
    set (concat (map in_flight rs)) \<subseteq> reserved_ids (after (cfg_Channel cfg) w')"
proof -
  note qd = assms(1)
  obtain q where cs: "cs = map (\<lambda>i. new_consumer n i D q h cfg) (map int [0 ..< nat (cfg_Processes cfg)])" "aq_channel q = cfg_Channel cfg"
    using StartWorker_crew[OF assms(2-7)] assms(9,10) by (metis option.inject)
  have c: "c_driver c = D \<and> c_channel c = cfg_Channel cfg \<and> in_int64 (c_maxMessages c) \<and> 0 \<le> c_concurrentLimit c \<and> in_int64 (c_processed c) \<and>
      aloof dok calm after c" if "c \<in> set cs" for c
    using that assms(8,11) unfolding cs(1) by (auto simp: new_consumer_fields cs(2) in_int64_def aloof_def benign_def aloof_handler_def)
  then have crew: "queue_driver.crew D dok after calm cs (cfg_Channel cfg)"
    by (auto simp: queue_driver.crew_def[OF qd])
  have "queue_driver.fleet_inv dok after calm cs (cfg_Channel cfg) (w', rs)"
    by (rule queue_driver.fleet_inv_steps[OF qd assms(16) queue_driver.fleet_inv_init[OF qd crew assms(12-14)] crew assms(15)])
  from queue_driver.fleet_inv_exclusive[OF qd this crew] show ?thesis using cs(1) by simp
qed


text \<open>C33. A stop reaches every consumer of a queue.  Whatever the manager started for an enabled queue, once the context of all its consumers has ended
  no consumer is started again and what they still do together, each with all its goroutines, is bounded by the messages in their hands, in
  whatever order they run beside the forwarder and other clients; as long as one has not returned or still runs a handler, some goroutine of
  a consumer can go on, so the only place where they all come to rest is where every consumer has returned.  Handlers return and leave the
  channel's keys well-formed, the other clients too.\<close>

theorem fleet_stops:
  assumes "queue_driver D dok clk before after calm" and "distinct (map fst (m_config m))" and "m_wg m = []"
    and "StartWorker m w0 = Some (None, m', w0')" and "(n, cfg) \<in> set (m_config m)" and "cfg_Enabled cfg"
    and "m_drivers m (cfg_Driver cfg) = Some D" and "in_int64 (cfg_MaxMessages cfg)"
    and "m_workers m' n = Some cs" and "Mux_Get n (m_serveMux m) = Some h"
    and "tidy_handler dok (cfg_Channel cfg) h"
    and "\<And>w w'. others w w' \<Longrightarrow> dok (cfg_Channel cfg) w \<Longrightarrow> dok (cfg_Channel cfg) w'" and "dok (cfg_Channel cfg) w"
    and "(fleet_step wall cs D (cfg_Channel cfg) timely others)\<^sup>*\<^sup>* (fleet_init cs ctx w) (w1, rs)" and "\<forall>r \<in> set rs. r_ctx r \<noteq> None"
  shows "(\<forall>j f. (((fleet_step wall cs D (cfg_Channel cfg) timely others)\<^sup>*\<^sup>* OO fleet_member wall) ^^ j) (w1, rs) f \<longrightarrow>
      j \<le> (\<Sum>r \<leftarrow> rs. 10 + 4 * length (r_jobs r))) \<and>
    (\<forall>f. (fleet_step wall cs D (cfg_Channel cfg) timely others)\<^sup>*\<^sup>* (w1, rs) f \<longrightarrow>
      (\<forall>r \<in> set (snd f). (\<exists>e. r_phase r = Exited e) \<and> r_jobs r = []) \<or> (\<exists>f'. fleet_member wall f f'))"
proof -
  note qd = assms(1)
  obtain q where cs: "cs = map (\<lambda>i. new_consumer n i D q h cfg) (map int [0 ..< nat (cfg_Processes cfg)])" "aq_channel q = cfg_Channel cfg"
    using StartWorker_crew[OF assms(2-7)] assms(9,10) by (metis option.inject)
  have benign: "benign dok (new_consumer n i D q h cfg)" for i
    unfolding benign_def new_consumer_fields cs(2) using assms(11)[unfolded tidy_handler_def] new_consumer_fields(8) by blast
  have "0 < c_concurrentLimit (new_consumer n i D q h cfg)" for i by (simp add: new_consumer_def NewConsumer_limit)
  then have "c_driver c = D \<and> c_channel c = cfg_Channel cfg \<and> in_int64 (c_maxMessages c) \<and> 0 < c_concurrentLimit c \<and> in_int64 (c_processed c) \<and>
      benign dok c" if "c \<in> set cs" for c
    using that assms(8) benign unfolding cs(1) by (auto simp: new_consumer_fields cs(2) in_int64_def)
  then have staff: "queue_driver.staff D dok cs (cfg_Channel cfg)" by (auto simp: queue_driver.staff_def[OF qd])
  have live: "queue_driver.fleet_live dok cs (cfg_Channel cfg) f"
    if "(fleet_step wall cs D (cfg_Channel cfg) timely others)\<^sup>*\<^sup>* (w1, rs) f" for f
    by (rule queue_driver.fleet_live_steps[OF qd rtranclp_trans[OF assms(14) that] queue_driver.fleet_live_init[OF qd staff assms(13)] staff assms(12)])
  have "j \<le> (\<Sum>r \<leftarrow> rs. 10 + 4 * length (r_jobs r))"
    if "(((fleet_step wall cs D (cfg_Channel cfg) timely others)\<^sup>*\<^sup>* OO fleet_member wall) ^^ j) (w1, rs) f" for j f
    using fleet_rounds_weight[OF that] fleet_weight_bound[of "(w1, rs)"] assms(15) by simp
  then show ?thesis using queue_driver.fleet_progress[OF qd live staff] by blast
qed


text \<open>The two consumers of the demo manager: the first has claimed the only message.\<close>

lemma demo_fleet_claims:
  assumes "c_driver c = redis_driver mem_redis" and "c_channel c = ''q''" and "c_maxMessages c = 100" and "cs = [c, c']"
  shows "\<exists>w s. (fleet_step wall cs D ch timely others)\<^sup>*\<^sup>* (fleet_init cs None demo_one) (w, [s, run_init c' None demo_one]) \<and> in_flight s = [''a''] \<and>
    r_ctx s = None \<and> r_jobs s = [] \<and> (\<forall>e. r_phase s \<notin> {Exited e, Crashed})"
proof -
  have "q_waiting (demo_view (w_db demo_one)) = [] @ ''a'' # []" "q_msgs (demo_view (w_db demo_one)) ''a'' = Some (demo_msg ''a'')"
    by (simp_all add: demo_simps)
  then obtain m w1 where pop: "Pop mem_redis ''q'' (c_PopTimeout c) (c_handleTimeout c) None demo_one = Some (Inr (''a'', Some m), w1)"
    using mem_lua.Pop_delivered[OF demo_one_ok, of "[]" "''a''" "[]" "demo_msg ''a''" "c_PopTimeout c" "c_handleTimeout c" None] by auto
  let ?s0 = "run_init c None demo_one" and ?t = "run_init c' None demo_one"
  let ?s1 = "?s0\<lparr>r_phase := Popping\<rparr>"
  let ?s2 = "?s1\<lparr>r_phase := Popped (Inr (''a'', Some m)), r_ctx := None, r_world := w1\<rparr>"
  have "run_step wall ?s0 ?s1" by (rule run_step.poll) (simp_all add: run_init_def limit_reached_def assms)
  then have 1: "fleet_step wall cs D ch timely others (demo_one, [?s0, ?t]) (demo_one, [?s1, ?t])"
    using fleet_step.member[of 0 "[?s0, ?t]" wall demo_one ?s1] by (simp add: run_init_def)
  have "run_step wall ?s1 ?s2" by (rule run_step.pop) (use pop in \<open>simp_all add: run_init_def redis_driver_def assms\<close>)
  then have 2: "fleet_step wall cs D ch timely others (demo_one, [?s1, ?t]) (w1, [?s2, ?t])"
    using fleet_step.member[of 0 "[?s1, ?t]" wall demo_one ?s2] by (simp add: run_init_def)
  have "(fleet_step wall cs D ch timely others)\<^sup>*\<^sup>* (fleet_init cs None demo_one) (w1, [?s2, ?t])"
    using converse_rtranclp_into_rtranclp[of "fleet_step wall cs D ch timely others", OF 1] r_into_rtranclp[of "fleet_step wall cs D ch timely others", OF 2]
    by (simp add: fleet_init_def assms)
  then show ?thesis by (intro exI[of _ w1] exI[of _ ?s2]) (simp add: in_flight_def run_init_def)
qed

theorem fleet_exclusive_witness:
  "\<exists>m' w0' c c' w s s'. StartWorker demo_manager demo_start = Some (None, m', w0') \<and> m_workers m' ''q'' = Some [c, c'] \<and>
     (fleet_step wall_now [c, c'] (redis_driver mem_redis) ''q'' (\<lambda>w. unexpired (secs w) (demo_view (w_db w))) (\<lambda>_ _. False))\<^sup>*\<^sup>*
       (fleet_init [c, c'] None demo_one) (w, [s, s']) \<and> in_flight s = [''a''] \<and> distinct (in_flight s @ in_flight s')"
proof -
  let ?D = "redis_driver mem_redis" and ?timely = "\<lambda>w. unexpired (secs w) (demo_view (w_db w))"
  obtain m' w0' where st: "StartWorker demo_manager demo_start = Some (None, m', w0')" using demo_started by blast
  have m: "distinct (map fst (m_config demo_manager))" "m_wg demo_manager = []" "(''q'', demo_config) \<in> set (m_config demo_manager)"
    "m_drivers demo_manager (cfg_Driver demo_config) = Some ?D" "in_int64 (cfg_MaxMessages demo_config)" by (simp_all add: in_int64_def)
  obtain q h where ws: "m_workers m' ''q'' = Some (map (\<lambda>i. new_consumer ''q'' i ?D q h demo_config) (map int [0 ..< nat (cfg_Processes demo_config)]))"
    "aq_channel q = cfg_Channel demo_config" "Mux_Get ''q'' (m_serveMux demo_manager) = Some h"
    using StartWorker_crew[OF m(1,2) st m(3) demo_config_simps(1) m(4)] by blast
  let ?c = "\<lambda>i. new_consumer ''q'' i ?D q h demo_config"
  have cs: "m_workers m' ''q'' = Some [?c 0, ?c 1]" using ws(1) by (simp add: numeral_2_eq_2 One_nat_def)
  have al: "Mux_Get ''q'' (m_serveMux demo_manager) = Some demo_handler"
    "aloof_handler (world_ok mem_safe m_obj) quiet (\<lambda>ch w. view m_obj ch (w_db w)) (cfg_Channel demo_config) demo_handler"
    by simp (simp add: aloof_handler_def demo_handler_def)
  have g: "good (demo_view (w_db demo_one))" by (auto simp: demo_simps good_def exclusive_unfold placed_def demo_msg_def zset_members_def)
  obtain w s where run: "(fleet_step wall_now [?c 0, ?c 1] ?D ''q'' ?timely (\<lambda>_ _. False))\<^sup>*\<^sup>* (fleet_init [?c 0, ?c 1] None demo_one)
      (w, [s, run_init (?c 1) None demo_one])" "in_flight s = [''a'']"
    using demo_fleet_claims[of "?c 0" "[?c 0, ?c 1]" "?c 1" wall_now ?D "''q''" ?timely "\<lambda>_ _. False"] ws(2)
    by (auto simp: new_consumer_fields simp del: insert_iff)
  have "distinct (concat (map in_flight [s, run_init (?c 1) None demo_one]))"
    using fleet_exclusive[OF mem_lua.drv.queue_driver_axioms m(1,2) st m(3) _ m(4,5) cs al,
        of demo_one "\<lambda>_ _. False" wall_now None w "[s, run_init (?c 1) None demo_one]"] g demo_one_ok run(1) by fastforce
  then have "distinct (in_flight s @ in_flight (run_init (?c 1) None demo_one))" by simp
  then show ?thesis using st cs run by blast
qed

text \<open>Both consumers are told to stop while the first holds a message.\<close>

lemma demo_fleet_cancelled:
  assumes "r_ctx s = None" and "\<forall>e. r_phase s \<notin> {Exited e, Crashed}"
  shows "\<exists>w2. (fleet_step wall cs D ch timely others)\<^sup>*\<^sup>* (w, [s, run_init c None w1])
    (w2, [s\<lparr>r_world := w, r_ctx := Some ErrCanceled\<rparr>, (run_init c None w1)\<lparr>r_world := w, r_ctx := Some ErrCanceled\<rparr>])"
proof -
  let ?s = "s\<lparr>r_world := w, r_ctx := Some ErrCanceled\<rparr>" and ?t = "run_init c None w1"
  have "run_step wall (s\<lparr>r_world := w\<rparr>) ?s"
    using run_step.cancelled[of "s\<lparr>r_world := w\<rparr>" wall ErrCanceled] assms by simp
  then have 1: "fleet_step wall cs D ch timely others (w, [s, ?t]) (w, [?s, ?t])"
    using fleet_step.member[of 0 "[s, ?t]" wall w ?s] by simp
  have "run_step wall (?t\<lparr>r_world := w\<rparr>) (?t\<lparr>r_world := w, r_ctx := Some ErrCanceled\<rparr>)"
    using run_step.cancelled[of "?t\<lparr>r_world := w\<rparr>" wall ErrCanceled] by (simp add: run_init_def)
  then have 2: "fleet_step wall cs D ch timely others (w, [?s, ?t]) (w, [?s, ?t\<lparr>r_world := w, r_ctx := Some ErrCanceled\<rparr>])"
    using fleet_step.member[of 1 "[?s, ?t]" wall w "?t\<lparr>r_world := w, r_ctx := Some ErrCanceled\<rparr>"] by simp
  show ?thesis
    using converse_rtranclp_into_rtranclp[of "fleet_step wall cs D ch timely others", OF 1] r_into_rtranclp[of "fleet_step wall cs D ch timely others", OF 2]
    by blast
qed

theorem fleet_stops_witness:
  "\<exists>m' w0' c c' w s s'. StartWorker demo_manager demo_start = Some (None, m', w0') \<and> m_workers m' ''q'' = Some [c, c'] \<and>
     (fleet_step wall_now [c, c'] (redis_driver mem_redis) ''q'' (\<lambda>_. True) (\<lambda>_ _. False))\<^sup>*\<^sup>* (fleet_init [c, c'] None demo_one) (w, [s, s']) \<and>
     in_flight s = [''a''] \<and> (\<exists>f'. fleet_member wall_now (w, [s, s']) f') \<and>
     (\<forall>j f. (((fleet_step wall_now [c, c'] (redis_driver mem_redis) ''q'' (\<lambda>_. True) (\<lambda>_ _. False))\<^sup>*\<^sup>* OO fleet_member wall_now) ^^ j)
        (w, [s, s']) f \<longrightarrow> j \<le> 20)"
proof -
  let ?D = "redis_driver mem_redis"
  obtain m' w0' where st: "StartWorker demo_manager demo_start = Some (None, m', w0')" using demo_started by blast
  have m: "distinct (map fst (m_config demo_manager))" "m_wg demo_manager = []" "(''q'', demo_config) \<in> set (m_config demo_manager)"
    "m_drivers demo_manager (cfg_Driver demo_config) = Some ?D" "in_int64 (cfg_MaxMessages demo_config)" by (simp_all add: in_int64_def)
  obtain q h where ws: "m_workers m' ''q'' = Some (map (\<lambda>i. new_consumer ''q'' i ?D q h demo_config) (map int [0 ..< nat (cfg_Processes demo_config)]))"
    "aq_channel q = cfg_Channel demo_config" "Mux_Get ''q'' (m_serveMux demo_manager) = Some h"
    using StartWorker_crew[OF m(1,2) st m(3) demo_config_simps(1) m(4)] by blast
  let ?c = "\<lambda>i. new_consumer ''q'' i ?D q h demo_config"
  let ?step = "fleet_step wall_now [?c 0, ?c 1] ?D ''q'' (\<lambda>_. True) (\<lambda>_ _. False)"
  have cs: "m_workers m' ''q'' = Some [?c 0, ?c 1]" using ws(1) by (simp add: numeral_2_eq_2 One_nat_def)
  have h: "Mux_Get ''q'' (m_serveMux demo_manager) = Some demo_handler" by simp
  obtain w s where run: "?step\<^sup>*\<^sup>* (fleet_init [?c 0, ?c 1] None demo_one) (w, [s, run_init (?c 1) None demo_one])" and
    s: "in_flight s = [''a'']" "r_ctx s = None" "r_jobs s = []" "\<forall>e. r_phase s \<notin> {Exited e, Crashed}"
    using demo_fleet_claims[of "?c 0" "[?c 0, ?c 1]" "?c 1" wall_now ?D "''q''" "\<lambda>_. True" "\<lambda>_ _. False"] ws(2)
    by (auto simp: new_consumer_fields simp del: insert_iff)
  let ?s = "s\<lparr>r_world := w, r_ctx := Some ErrCanceled\<rparr>"
  let ?s' = "(run_init (?c 1) None demo_one)\<lparr>r_world := w, r_ctx := Some ErrCanceled\<rparr>"
  obtain w2 where w2: "?step\<^sup>*\<^sup>* (w, [s, run_init (?c 1) None demo_one]) (w2, [?s, ?s'])"
    using demo_fleet_cancelled[OF s(2,4)] by blast
  have reach: "?step\<^sup>*\<^sup>* (fleet_init [?c 0, ?c 1] None demo_one) (w2, [?s, ?s'])" using rtranclp_trans[OF run w2] .
  have keep: "tidy_handler (world_ok mem_safe m_obj) (cfg_Channel demo_config) demo_handler" by (simp add: tidy_handler_def demo_handler_def)
  have ended: "\<forall>r \<in> set [?s, ?s']. r_ctx r \<noteq> None" by simp
  note stops = fleet_stops[OF mem_lua.drv.queue_driver_axioms m(1,2) st m(3) demo_config_simps(1) m(4,5) cs h keep, unfolded demo_config_simps(3),
      OF _ demo_one_ok(1) reach ended]
  have "\<not> (\<forall>r \<in> set (snd (w2, [?s, ?s'])). (\<exists>e. r_phase r = Exited e) \<and> r_jobs r = [])" using s(4) by auto
  then have "\<exists>f'. fleet_member wall_now (w2, [?s, ?s']) f'" using conjunct2[OF stops] by blast
  moreover have "(\<Sum>r \<leftarrow> [?s, ?s']. 10 + 4 * length (r_jobs r)) = 20" using s(3) by (simp add: run_init_def)
  then have "\<forall>j f. ((?step\<^sup>*\<^sup>* OO fleet_member wall_now) ^^ j) (w2, [?s, ?s']) f \<longrightarrow> j \<le> 20" using conjunct1[OF stops] by auto
  moreover have "in_flight ?s = [''a'']" using s(1) by (simp add: in_flight_def)
  ultimately show ?thesis using st cs reach by blast
qed

end
