(* ===== verification/Logger.thy ===== *)
theory Logger
  imports Go_Prelude
begin

text \<open>
  The logger (\<^verbatim>\<open>pkg/logger\<close>): levels, the default logger and the lazy trace.  A call of \<^verbatim>\<open>log.Printf\<close> is recorded as its format
  with its arguments; rendering them is left to Go's \<^verbatim>\<open>fmt\<close>.
\<close>

type_synonym LogLevel = int

definition Silent_level :: LogLevel where "Silent_level = 0"
definition Error_level :: LogLevel where "Error_level = 1"
definition Warn_level :: LogLevel where "Warn_level = 2"
definition Info_level :: LogLevel where "Info_level = 3"

lemmas level_defs = Silent_level_def Error_level_def Warn_level_def Info_level_def

datatype 'a printed = Printf string "'a list"

record defaultLogger =
  lg_level :: LogLevel

definition Default_logger :: defaultLogger where
  "Default_logger = \<lparr>lg_level = Info_level\<rparr>"

definition LogMode :: "LogLevel \<Rightarrow> defaultLogger \<Rightarrow> defaultLogger" where
  "LogMode level l = \<lparr>lg_level = level\<rparr>"

definition Log_Info :: "string \<Rightarrow> 'a list \<Rightarrow> defaultLogger \<Rightarrow> 'a printed list" where
  "Log_Info msg args l = (if lg_level l \<ge> Info_level then [Printf (''[async-queue] INFO  '' @ msg) args] else [])"

definition Log_Warn :: "string \<Rightarrow> 'a list \<Rightarrow> defaultLogger \<Rightarrow> 'a printed list" where
  "Log_Warn msg args l = (if lg_level l \<ge> Warn_level then [Printf (''[async-queue] WARN  '' @ msg) args] else [])"

definition Log_Error :: "string \<Rightarrow> 'a list \<Rightarrow> defaultLogger \<Rightarrow> 'a printed list" where
  "Log_Error msg args l = (if lg_level l \<ge> Error_level then [Printf (''[async-queue] ERROR '' @ msg) args] else [])"

text \<open>\<^verbatim>\<open>Trace\<close>: \<open>fc\<close> is user code that may change the world \<open>'w\<close>; the arguments are the queue, the disposition, the elapsed time
  and the error.\<close>

datatype trace_arg = TStr string | TElapsed int | TErr error

definition Log_Trace :: "int \<Rightarrow> int \<Rightarrow> ('w \<Rightarrow> (string \<times> string) \<times> 'w) \<Rightarrow> error option \<Rightarrow> defaultLogger \<Rightarrow> 'w
    \<Rightarrow> trace_arg printed list \<times> 'w" where
  "Log_Trace now begin fc err l w =
     (if lg_level l < Info_level then ([], w)
      else case fc w of ((queue, disposition), w') \<Rightarrow>
        (let elapsed = int64 (now - begin) in
         case err of
           Some e \<Rightarrow> ([Printf ''[async-queue] TRACE queue=%s disposition=%s elapsed=%v err=%v''
                        [TStr queue, TStr disposition, TElapsed elapsed, TErr e]], w')
         | None \<Rightarrow> ([Printf ''[async-queue] TRACE queue=%s disposition=%s elapsed=%v''
                        [TStr queue, TStr disposition, TElapsed elapsed]], w')))"

text \<open>Raising the level only adds output, a call never prints more than one line, and the closure of a trace runs exactly when
  its line is printed.\<close>

lemma log_monotone:
  assumes "lg_level l \<le> lg_level l'"
  shows "set (Log_Info msg args l) \<subseteq> set (Log_Info msg args l')" "set (Log_Warn msg args l) \<subseteq> set (Log_Warn msg args l')"
    "set (Log_Error msg args l) \<subseteq> set (Log_Error msg args l')"
  using assms by (auto simp: Log_Info_def Log_Warn_def Log_Error_def split: if_splits)

lemma log_nested:
  "Log_Info msg args l \<noteq> [] \<Longrightarrow> Log_Warn msg' args' l \<noteq> []" "Log_Warn msg args l \<noteq> [] \<Longrightarrow> Log_Error msg' args' l \<noteq> []"
  by (auto simp: Log_Info_def Log_Warn_def Log_Error_def level_defs split: if_splits)

lemma trace_lazy:
  assumes "Log_Trace now begin fc err l w = (out, w')"
  shows "(out = [] \<and> w' = w \<and> lg_level l < Info_level) \<or> (length out = 1 \<and> w' = snd (fc w) \<and> lg_level l \<ge> Info_level)"
  using assms by (auto simp: Log_Trace_def Let_def split: if_splits prod.splits option.splits)

lemma silent_mode:
  "Log_Info msg args (LogMode Silent_level l) = []" "Log_Warn msg args (LogMode Silent_level l) = []"
  "Log_Error msg args (LogMode Silent_level l) = []" "Log_Trace now begin fc err (LogMode Silent_level l) w = ([], w)"
  by (simp_all add: LogMode_def Log_Info_def Log_Warn_def Log_Error_def Log_Trace_def level_defs)

end
