(* ===== verification/Utils.thy ===== *)
theory Utils
  imports Go_Prelude "HOL-Library.Sublist"
begin

text \<open>
  The call site of a log line (\<^verbatim>\<open>pkg/utils/utils.go\<close>).  The call stack that \<^verbatim>\<open>runtime.Caller\<close> reads is an argument: its frames, innermost
  first, each with its file and line.  A path is a list of bytes, so the wildcard of the regular expression stands for one byte, the path separator.
\<close>

section \<open>The source directory\<close>

text \<open>A match of \<^verbatim>\<open>utils.utils\.go\<close> at the start of a text, and \<^verbatim>\<open>ReplaceAllString(file, "")\<close>, which removes the matches from left to right.\<close>

definition utils_match :: "string \<Rightarrow> bool" where
  "utils_match s \<longleftrightarrow> take 5 s = ''utils'' \<and> 5 < length s \<and> s ! 5 \<noteq> CHR 0x0A \<and> take 8 (drop 6 s) = ''utils.go''"

fun remove_matches :: "string \<Rightarrow> string" where
  "remove_matches [] = []"
| "remove_matches (c # s) = (if utils_match (c # s) then remove_matches (drop 13 s) else c # remove_matches s)"

definition asyncQueueSourceDir :: "(string \<times> int) list \<Rightarrow> string" where
  "asyncQueueSourceDir stack = remove_matches (case stack of [] \<Rightarrow> [] | (file, line) # _ \<Rightarrow> file)"


section \<open>The call site\<close>

definition Caller :: "(string \<times> int) list \<Rightarrow> nat \<Rightarrow> (string \<times> int) option" where
  "Caller stack i = (if i < length stack then Some (stack ! i) else None)"

definition reported :: "string \<Rightarrow> string \<times> int \<Rightarrow> bool" where
  "reported dir frame \<longleftrightarrow> \<not> prefix dir (fst frame) \<or> suffix ''_test.go'' (fst frame)"

text \<open>The loop of \<^verbatim>\<open>FileWithLineNum\<close> from index \<open>i\<close>; \<open>left\<close> counts the indices that remain below 15.\<close>

fun call_site :: "string \<Rightarrow> (string \<times> int) list \<Rightarrow> nat \<Rightarrow> nat \<Rightarrow> string" where
  "call_site dir stack i 0 = ''''"
| "call_site dir stack i (Suc left) = (case Caller stack i of
      None \<Rightarrow> call_site dir stack (Suc i) left
    | Some (file, line) \<Rightarrow>
        if reported dir (file, line) then file @ '':'' @ show_int line else call_site dir stack (Suc i) left)"

definition FileWithLineNum :: "string \<Rightarrow> (string \<times> int) list \<Rightarrow> string" where
  "FileWithLineNum dir stack = call_site dir stack 2 (15 - 2)"


section \<open>What it reports\<close>

lemma call_site_find:
  "call_site dir stack i n = (case find (reported dir) (take n (drop i stack)) of None \<Rightarrow> '''' | Some (file, line) \<Rightarrow> file @ '':'' @ show_int line)"
proof (induction n arbitrary: i)
  case (Suc n)
  show ?case
  proof (cases "i < length stack")
    case True
    then show ?thesis using Suc.IH[of "Suc i"] by (simp add: Caller_def Cons_nth_drop_Suc[symmetric] split: prod.split)
  qed (simp add: Caller_def Suc.IH)
qed simp

text \<open>The call site is the innermost of the frames 2 to 14 that lies outside the source directory or in a test, and it is empty
  exactly when there is none.\<close>

lemma FileWithLineNum_innermost:
  "FileWithLineNum dir stack = (case find (reported dir) (take 13 (drop 2 stack)) of None \<Rightarrow> '''' | Some (file, line) \<Rightarrow> file @ '':'' @ show_int line)"
  by (simp add: FileWithLineNum_def call_site_find)

lemma FileWithLineNum_empty: "FileWithLineNum dir stack = '''' \<longleftrightarrow> (\<forall>frame \<in> set (take 13 (drop 2 stack)). \<not> reported dir frame)"
  unfolding FileWithLineNum_innermost using find_None_iff[of "reported dir" "take 13 (drop 2 stack)"]
  by (cases "find (reported dir) (take 13 (drop 2 stack))") auto

text \<open>The source directory is the parent of \<^verbatim>\<open>utils\<close>, whatever the path before it, unless this path itself has a match.\<close>

lemma remove_matches_prefix:
  assumes "\<And>k. k < length root \<Longrightarrow> \<not> utils_match (drop k (root @ s))"
  shows "remove_matches (root @ s) = root @ remove_matches s"
  using assms
proof (induction root)
  case (Cons c root)
  then have "\<not> utils_match (c # root @ s)" using Cons.prems[of 0] by simp
  moreover have "remove_matches (root @ s) = root @ remove_matches s" using Cons.prems[of "Suc _"] by (intro Cons.IH) simp
  ultimately show ?case by simp
qed simp

lemma source_dir:
  assumes "\<And>k. k < length root \<Longrightarrow> \<not> utils_match (drop k (root @ ''utils/utils.go''))"
  shows "asyncQueueSourceDir ((root @ ''utils/utils.go'', line) # frames) = root"
  using remove_matches_prefix[OF assms] by (simp add: asyncQueueSourceDir_def utils_match_def)

text \<open>So it is \<^verbatim>\<open>pkg/\<close> and not the root of the repository: a frame of the package \<^verbatim>\<open>asyncqueue\<close> counts as a call site.\<close>

lemma facade_is_call_site:
  "FileWithLineNum (asyncQueueSourceDir [(''/r/pkg/utils/utils.go'', 13)])
     [(''/r/pkg/utils/utils.go'', 20), (''/r/pkg/logger/default.go'', 40), (''/r/pkg/queue/consumer.go'', 50),
      (''/r/asyncqueue/manager.go'', 201), (''/app/main.go'', 7)] = ''/r/asyncqueue/manager.go:201''"
  by code_simp

end
