(* ===== verification/Order_Example.thy ===== *)
theory Order_Example
  imports Server
begin

text \<open>
  The order example (\<^verbatim>\<open>examples/demo/order/main.go\<close>), an application on top of the library: an in-memory order store, the
  HTTP handlers that create an order and confirm its payment, and the queue handler that asks for the payment later.
  Each access to the store holds its lock; between two accesses other handlers run, which the
  relation \<open>shop_step\<close> describes.  Logging, the HTTP server and the signal handling of \<^verbatim>\<open>main\<close> are left out.
\<close>

section \<open>Orders\<close>

definition queueOrderPayment :: string where "queueOrderPayment = ''order:payment''"
definition queueChannel :: string where "queueChannel = ''order:payment''"
definition defaultQueryDelay :: int where "defaultQueryDelay = 30"

type_synonym OrderStatus = string

definition OrderStatusUnpaid :: OrderStatus where "OrderStatusUnpaid = ''unpaid''"
definition OrderStatusPaid :: OrderStatus where "OrderStatusPaid = ''paid''"
definition OrderStatusCanceled :: OrderStatus where "OrderStatusCanceled = ''canceled''"

lemmas order_status_defs = OrderStatusUnpaid_def OrderStatusPaid_def OrderStatusCanceled_def

record Order =
  ord_OrderNo :: string
  ord_Status :: OrderStatus
  ord_JobID :: string

type_synonym orderStore = "string \<rightharpoonup> Order"

definition newOrderStore :: orderStore where
  "newOrderStore = Map.empty"

definition order_save :: "Order \<Rightarrow> orderStore \<Rightarrow> Order \<times> orderStore" where
  "order_save order s = (order, s(ord_OrderNo order \<mapsto> order))"

definition order_get :: "string \<Rightarrow> orderStore \<Rightarrow> Order option" where
  "order_get orderNo s = s orderNo"

text \<open>The JSON of \<^verbatim>\<open>OrderPaymentQueryTask\<close> and of \<^verbatim>\<open>orderRequest\<close>, which have the same one field: what \<^verbatim>\<open>json.Marshal\<close> makes of it,
  and what \<^verbatim>\<open>json.Unmarshal\<close> and \<^verbatim>\<open>Decode\<close> read.\<close>

definition task_json :: "string \<Rightarrow> json" where
  "task_json orderNo = JObj [(''order_no'', JStr orderNo)]"

fun order_no_members :: "(string \<times> json) list \<Rightarrow> string \<Rightarrow> error + string" where
  "order_no_members [] no = Inr no"
| "order_no_members ((k, j) # fs) no =
     (if lower k = ''order_no'' then (case decode_string j of
          Inl e \<Rightarrow> Inl e | Inr None \<Rightarrow> order_no_members fs no | Inr (Some v) \<Rightarrow> order_no_members fs v)
      else order_no_members fs no)"

fun order_no_of :: "bytes option \<Rightarrow> error + string" where
  "order_no_of (Some (Json (JObj fs))) = order_no_members fs ''''"
| "order_no_of (Some (Json JNull)) = Inr ''''"
| "order_no_of (Some (Json _)) = Inl unmarshal_type_error"
| "order_no_of (Some (Text _)) = Inl (ErrText ''invalid character in JSON input'')"
| "order_no_of None = Inl (ErrText ''unexpected end of JSON input'')"


section \<open>The handlers\<close>

text \<open>\<^verbatim>\<open>OrderQueryHandler.Handle\<close> up to and including its read of the store: a result, or the unpaid order it goes on with.\<close>

definition query_read :: "Message \<Rightarrow> orderStore \<Rightarrow> Result + Order" where
  "query_read m s = (case order_no_of (Payload m) of
      Inl err \<Rightarrow> Inl DROP
    | Inr orderNo \<Rightarrow> (case order_get orderNo s of
        None \<Rightarrow> Inl ACK
      | Some order \<Rightarrow> if ord_Status order \<noteq> OrderStatusUnpaid then Inl ACK else Inr order))"

text \<open>The rest, with the outcome of \<^verbatim>\<open>rand.Intn(4) == 0\<close>.\<close>

definition query_write :: "bool \<Rightarrow> Message \<Rightarrow> Order \<Rightarrow> orderStore \<Rightarrow> Result \<times> orderStore" where
  "query_write lucky m order s =
     (if lucky \<or> Attempts m \<ge> MaxAttempts m
      then (ACK, snd (order_save (order\<lparr>ord_Status := OrderStatusPaid\<rparr>) s))
      else (RETRY, snd (order_save order s)))"

definition OrderQueryHandler_Handle :: "bool \<Rightarrow> Message \<Rightarrow> orderStore \<Rightarrow> Result \<times> orderStore" where
  "OrderQueryHandler_Handle lucky m s = (case query_read m s of
      Inl r \<Rightarrow> (r, s)
    | Inr order \<Rightarrow> query_write lucky m order s)"

text \<open>The answers of the HTTP handlers: \<^verbatim>\<open>writeJSON\<close> of an order with code 200, and \<^verbatim>\<open>writeError\<close>.\<close>

datatype response = writeJSON int Order | writeError int string

definition orderCreate :: "('w \<Rightarrow> int) \<Rightarrow> int \<Rightarrow> bytes option \<Rightarrow> 'w globals \<Rightarrow> orderStore \<Rightarrow> 'w
    \<Rightarrow> (response \<times> orderStore \<times> 'w) option" where
  "orderCreate wall nanos body g s w = (case order_no_of body of
      Inl err \<Rightarrow> Some (writeError 400 ''invalid json body'', s, w)
    | Inr no \<Rightarrow>
        (let orderNo = (if no = '''' then ''ORD-'' @ show_int nanos else no) in
         case GetQueue queueOrderPayment g of
           Inl err \<Rightarrow> Some (writeError 500 (''queue not ready: '' @ error_text err), s, w)
         | Inr q \<Rightarrow>
             (case Queue_PushTask wall (Some q) (Some (Inr (task_json orderNo))) defaultQueryDelay w of
                None \<Rightarrow> None
              | Some (Inl err, w1) \<Rightarrow> Some (writeError 500 (''push payment-query job failed: '' @ error_text err), s, w1)
              | Some (Inr jobID, w1) \<Rightarrow>
                  (case order_save \<lparr>ord_OrderNo = orderNo, ord_Status = OrderStatusUnpaid, ord_JobID = jobID\<rparr> s of
                     (order, s1) \<Rightarrow> Some (writeJSON 200 order, s1, w1)))))"

text \<open>\<^verbatim>\<open>paymentCallback\<close>: its read of the store, its write, and the cancellation of the job, whose result is only logged.\<close>

definition callback_read :: "bytes option \<Rightarrow> orderStore \<Rightarrow> response + Order" where
  "callback_read body s = (case order_no_of body of
      Inl err \<Rightarrow> Inl (writeError 400 ''invalid json body'')
    | Inr no \<Rightarrow> (case order_get no s of
        None \<Rightarrow> Inl (writeError 404 ''order not found'')
      | Some order \<Rightarrow>
          if ord_Status order = OrderStatusPaid then Inl (writeJSON 200 order)
          else if ord_Status order = OrderStatusCanceled then Inl (writeError 409 ''order already canceled'')
          else Inr order))"

definition callback_write :: "Order \<Rightarrow> orderStore \<Rightarrow> Order \<times> orderStore" where
  "callback_write order s = order_save (order\<lparr>ord_Status := OrderStatusPaid\<rparr>) s"

definition callback_cancel :: "Order \<Rightarrow> 'w globals \<Rightarrow> 'w \<Rightarrow> 'w" where
  "callback_cancel order g w = (case GetQueue queueOrderPayment g of
      Inl err \<Rightarrow> w
    | Inr q \<Rightarrow> snd (Queue_Cancel (Some q) (ord_JobID order) w))"

definition paymentCallback :: "bytes option \<Rightarrow> 'w globals \<Rightarrow> orderStore \<Rightarrow> 'w \<Rightarrow> response \<times> orderStore \<times> 'w" where
  "paymentCallback body g s w = (case callback_read body s of
      Inl r \<Rightarrow> (r, s, w)
    | Inr order \<Rightarrow> (case callback_write order s of
        (order, s1) \<Rightarrow> (writeJSON 200 order, s1, callback_cancel order g w)))"

text \<open>The configuration in \<^verbatim>\<open>main\<close>.\<close>

definition order_config :: Config where
  "order_config = [(queueOrderPayment, \<lparr>cfg_Name = '''', cfg_Driver = ''redis'', cfg_Channel = queueChannel, cfg_Enabled = True,
     cfg_PopTimeout = 3, cfg_HandleTimeout = 180, cfg_RetrySeconds = [30, 90, 180], cfg_MessageTTL = 864000, cfg_MaxAttempts = 3,
     cfg_Processes = 2, cfg_Concurrent = 20, cfg_AutoRestart = False, cfg_MaxMessages = 0, cfg_ShutdownTimeout = 240\<rparr>)]"


section \<open>Interleaving\<close>

text \<open>The handlers in progress: a query before and after its read, a confirmation before and after its read, and
  finished ones with what they returned.  \<^verbatim>\<open>orderCreate\<close> writes the store once, at its end.\<close>

datatype shop_proc =
    Query Message
  | QueryHas Message Order
  | QueryDone Result
  | Callback "bytes option"
  | CallbackHas Order
  | CallbackDone response
  | CreateDone Order

inductive shop_step :: "orderStore \<times> shop_proc list \<Rightarrow> orderStore \<times> shop_proc list \<Rightarrow> bool" where
  query_comes: "shop_step (s, ps) (s, ps @ [Query m])"
| query_ends: "k < length ps \<Longrightarrow> ps ! k = Query m \<Longrightarrow> query_read m s = Inl r \<Longrightarrow> shop_step (s, ps) (s, ps[k := QueryDone r])"
| query_reads: "k < length ps \<Longrightarrow> ps ! k = Query m \<Longrightarrow> query_read m s = Inr order \<Longrightarrow> shop_step (s, ps) (s, ps[k := QueryHas m order])"
| query_writes: "k < length ps \<Longrightarrow> ps ! k = QueryHas m order \<Longrightarrow> query_write lucky m order s = (r, s1) \<Longrightarrow>
    shop_step (s, ps) (s1, ps[k := QueryDone r])"
| callback_comes: "shop_step (s, ps) (s, ps @ [Callback body])"
| callback_ends: "k < length ps \<Longrightarrow> ps ! k = Callback body \<Longrightarrow> callback_read body s = Inl r \<Longrightarrow> shop_step (s, ps) (s, ps[k := CallbackDone r])"
| callback_reads: "k < length ps \<Longrightarrow> ps ! k = Callback body \<Longrightarrow> callback_read body s = Inr order \<Longrightarrow>
    shop_step (s, ps) (s, ps[k := CallbackHas order])"
| callback_writes: "k < length ps \<Longrightarrow> ps ! k = CallbackHas order \<Longrightarrow> callback_write order s = (order', s1) \<Longrightarrow>
    shop_step (s, ps) (s1, ps[k := CallbackDone (writeJSON 200 order')])"
| created: "order_save \<lparr>ord_OrderNo = orderNo, ord_Status = OrderStatusUnpaid, ord_JobID = jobID\<rparr> s = (order, s1) \<Longrightarrow>
    shop_step (s, ps) (s1, ps @ [CreateDone order])"


section \<open>Payments\<close>

definition store_ok :: "orderStore \<Rightarrow> bool" where
  "store_ok s \<longleftrightarrow> (\<forall>no order. s no = Some order \<longrightarrow> ord_OrderNo order = no)"

definition paid_in :: "orderStore \<Rightarrow> string \<Rightarrow> bool" where
  "paid_in s no \<longleftrightarrow> (\<exists>order. s no = Some order \<and> ord_Status order = OrderStatusPaid)"

text \<open>A query that has read the order as unpaid and will write it.\<close>

definition query_pending :: "string \<Rightarrow> shop_proc list \<Rightarrow> bool" where
  "query_pending no ps \<longleftrightarrow> (\<exists>m order. QueryHas m order \<in> set ps \<and> ord_OrderNo order = no)"

definition created_in :: "string \<Rightarrow> shop_proc list \<Rightarrow> bool" where
  "created_in no ps \<longleftrightarrow> (\<exists>order. CreateDone order \<in> set ps \<and> ord_OrderNo order = no)"

lemma order_save_ok [simp]: "store_ok s \<Longrightarrow> store_ok (snd (order_save order s))"
  by (simp add: store_ok_def order_save_def)

lemma query_read_order:
  assumes "query_read m s = Inr order" and "store_ok s"
  shows "s (ord_OrderNo order) = Some order" "ord_Status order = OrderStatusUnpaid"
  using assms by (auto simp: query_read_def order_get_def store_ok_def split: sum.splits option.splits if_splits)

lemma pending_update: "query_pending no (ps[k := p]) \<Longrightarrow> query_pending no ps \<or> query_pending no [p]"
  by (auto simp: query_pending_def dest!: set_update_subset_insert[THEN subsetD])

lemma created_update: "created_in no ps \<Longrightarrow> (\<And>order. ps ! k \<noteq> CreateDone order) \<Longrightarrow> created_in no (ps[k := p])"
  unfolding created_in_def by (metis set_list_update_keep)

lemma pending_append [simp]: "query_pending no (ps @ qs) \<longleftrightarrow> query_pending no ps \<or> query_pending no qs"
  by (auto simp: query_pending_def)

lemma pending_single [simp]: "query_pending no [p] \<longleftrightarrow> (\<exists>m order. p = QueryHas m order \<and> ord_OrderNo order = no)"
  by (auto simp: query_pending_def)

lemma created_append [simp]: "created_in no (ps @ qs) \<longleftrightarrow> created_in no ps \<or> created_in no qs"
  by (auto simp: created_in_def)

text \<open>Finished creations are never forgotten.\<close>

lemma created_stays: "shop_step (s, ps) (s1, ps1) \<Longrightarrow> created_in no ps \<Longrightarrow> created_in no ps1"
  by (induction "(s, ps)" "(s1, ps1)" rule: shop_step.induct) (auto intro!: created_update)

lemma paid_step:
  assumes "shop_step (s, ps) (s1, ps1)" and "store_ok s" and "paid_in s no" and "\<not> query_pending no ps" and "\<not> created_in no ps1"
  shows "store_ok s1 \<and> paid_in s1 no \<and> \<not> query_pending no ps1"
  using assms
proof (induction "(s, ps)" "(s1, ps1)" rule: shop_step.induct)
  case (query_comes m)
  then show ?case by auto
next
  case (query_reads k m order)
  have "ord_OrderNo order \<noteq> no"
    using query_read_order[OF query_reads(3)] query_reads by (auto simp: paid_in_def order_status_defs)
  then show ?case using query_reads by (auto dest!: pending_update)
next
  case (query_writes k m order lucky r)
  have "QueryHas m order \<in> set ps" using query_writes(1,2) nth_mem by metis
  then have "ord_OrderNo order \<noteq> no" using query_writes by (auto simp: query_pending_def)
  then show ?case using query_writes 
    by (auto simp: query_write_def order_save_def store_ok_def paid_in_def split: if_splits dest!: pending_update)
next
  case (callback_comes body)
  then show ?case by auto
next
  case (callback_writes k order order')
  then show ?case 
    by (auto simp: callback_write_def order_save_def store_ok_def paid_in_def split: if_splits dest!: pending_update)
next
  case (created orderNo jobID order)
  then show ?case by (auto simp: order_save_def store_ok_def paid_in_def created_in_def split: if_splits)
qed (auto dest!: pending_update)

definition demo_order :: Order where
  "demo_order = \<lparr>ord_OrderNo = ''A1'', ord_Status = OrderStatusUnpaid, ord_JobID = ''j''\<rparr>"

definition demo_query :: Message where
  "demo_query = \<lparr>ID = ''j'', Payload = Some (Json (task_json ''A1'')), Attempts = 0, MaxAttempts = 3,
     Status = ''pending'', CreatedAt = 1, UpdatedAt = 1\<rparr>"

definition demo_paid :: orderStore where
  "demo_paid = [''A1'' \<mapsto> demo_order\<lparr>ord_Status := OrderStatusPaid\<rparr>]"

text \<open>C38. A payment is final as long as no query of the order was between its read and its write when it was
  recorded, and nobody creates the order again: whatever queries and confirmations run and interleave, the order
  stays paid.\<close>

theorem order_paid_stays:
  assumes "shop_step\<^sup>*\<^sup>* (s, ps) (s', ps')" and "store_ok s" and "paid_in s no" and "\<not> query_pending no ps" and "\<not> created_in no ps'"
  shows "paid_in s' no"
proof -
  have "store_ok s' \<and> paid_in s' no \<and> \<not> query_pending no ps'"
    using assms(1,5)
  proof (induction "(s', ps')" arbitrary: s' ps' rule: rtranclp_induct)
    case base
    then show ?case using assms(2-4) by simp
  next
    case (step y)
    obtain s1 ps1 where y: "y = (s1, ps1)" by force
    have st: "shop_step (s1, ps1) (s', ps')" using step(2) y by simp
    have "\<not> created_in no ps1" using created_stays[OF st] step(4) by blast
    then show ?case using step(3)[OF y] paid_step[OF st] step(4) by blast
  qed
  then show ?thesis by simp
qed

lemma order_paid_stays_witness: "shop_step\<^sup>*\<^sup>* (demo_paid, [Query demo_query]) (demo_paid, [QueryDone ACK]) \<and> paid_in demo_paid ''A1''"
proof -
  have "query_read demo_query demo_paid = Inl ACK"
    by (simp add: query_read_def demo_query_def task_json_def lower_def lower_char_def order_get_def demo_paid_def demo_order_def order_status_defs)
  then have st: "shop_step (demo_paid, [Query demo_query]) (demo_paid, [QueryDone ACK])"
    using shop_step.query_ends[of 0 "[Query demo_query]"] by simp
  then have "paid_in demo_paid ''A1''"
    using order_paid_stays[of demo_paid "[Query demo_query]" demo_paid "[QueryDone ACK]" "''A1''"]
    by (simp add: store_ok_def paid_in_def created_in_def query_pending_def demo_paid_def demo_order_def)
  then show ?thesis using st by blast
qed

text \<open>A payment can be lost: when a query has read the unpaid order and the confirmation comes before the query writes, the
  confirmation is answered with the paid order, and then the query stores its old copy and asks for a retry: the order is unpaid.\<close>

theorem order_payment_lost:
  assumes "s no = Some order" and "ord_OrderNo order = no" and "ord_Status order = OrderStatusUnpaid"
    and "Payload m = Some (Json (task_json no))" and "Attempts m < MaxAttempts m"
  shows "\<exists>s'. shop_step\<^sup>*\<^sup>* (s, [Query m, Callback (Some (Json (task_json no)))])
      (s', [QueryDone RETRY, CallbackDone (writeJSON 200 (order\<lparr>ord_Status := OrderStatusPaid\<rparr>))]) \<and> s' no = Some order"
proof -
  let ?b = "Some (Json (task_json no))" and ?paid = "order\<lparr>ord_Status := OrderStatusPaid\<rparr>"
  have no: "order_no_of ?b = Inr no" by (simp add: task_json_def lower_def lower_char_def)
  have 1: "shop_step (s, [Query m, Callback ?b]) (s, [QueryHas m order, Callback ?b])"
    using shop_step.query_reads[of 0 "[Query m, Callback ?b]" m s order] assms no by (simp add: query_read_def order_get_def)
  have 2: "shop_step (s, [QueryHas m order, Callback ?b]) (s, [QueryHas m order, CallbackHas order])"
    using shop_step.callback_reads[of 1 "[QueryHas m order, Callback ?b]" ?b s order] assms no
    by (simp add: callback_read_def order_get_def order_status_defs)
  have 3: "shop_step (s, [QueryHas m order, CallbackHas order]) (s(no \<mapsto> ?paid), [QueryHas m order, CallbackDone (writeJSON 200 ?paid)])"
    using shop_step.callback_writes[of 1 "[QueryHas m order, CallbackHas order]" order s ?paid] assms(2)
    by (simp add: callback_write_def order_save_def)
  have 4: "shop_step (s(no \<mapsto> ?paid), [QueryHas m order, CallbackDone (writeJSON 200 ?paid)])
      (s(no \<mapsto> ?paid, no \<mapsto> order), [QueryDone RETRY, CallbackDone (writeJSON 200 ?paid)])"
    using shop_step.query_writes[of 0 "[QueryHas m order, CallbackDone (writeJSON 200 ?paid)]" m order False "s(no \<mapsto> ?paid)"] assms(2,5)
    by (simp add: query_write_def order_save_def)
  show ?thesis using 1 2 3 4 by (intro exI[of _ "s(no \<mapsto> ?paid, no \<mapsto> order)"]) auto
qed

lemma order_payment_lost_witness: "\<exists>s'. shop_step\<^sup>*\<^sup>* ([''A1'' \<mapsto> demo_order], [Query demo_query, Callback (Some (Json (task_json ''A1'')))])
    (s', [QueryDone RETRY, CallbackDone (writeJSON 200 (demo_order\<lparr>ord_Status := OrderStatusPaid\<rparr>))]) \<and> s' ''A1'' = Some demo_order"
  by (rule order_payment_lost) (simp_all add: demo_order_def demo_query_def)

section \<open>The job over the queue\<close>

text \<open>A driver beside state of the application that no driver method touches; the driver contract carries over, and with it any
  fact about that state.\<close>

definition beside :: "('w \<Rightarrow> 'r \<times> 'w) \<Rightarrow> 'w \<times> 'x \<Rightarrow> 'r \<times> 'w \<times> 'x" where
  "beside f wx = (case f (fst wx) of (r, w') \<Rightarrow> (r, w', snd wx))"

definition driver_beside :: "'w driver \<Rightarrow> ('w \<times> 'x) driver" where
  "driver_beside D = \<lparr>
     D_Ping = beside (D_Ping D), D_Info = (\<lambda>ch. beside (D_Info D ch)),
     D_Push = (\<lambda>ch m d ttl wx. case D_Push D ch m d ttl (fst wx) of (r, m', w') \<Rightarrow> (r, m', w', snd wx)),
     D_Pop = (\<lambda>ch pt ht ctx wx. map_option (\<lambda>(r, w'). (r, w', snd wx)) (D_Pop D ch pt ht ctx (fst wx))),
     D_Get = (\<lambda>ch i. beside (D_Get D ch i)), D_Cancel = (\<lambda>ch i. beside (D_Cancel D ch i)),
     D_Ack = (\<lambda>ch i. beside (D_Ack D ch i)), D_Requeue = (\<lambda>ch i. beside (D_Requeue D ch i)),
     D_Retry = (\<lambda>ch i d. beside (D_Retry D ch i d)), D_Drop = (\<lambda>ch i. beside (D_Drop D ch i)),
     D_Fail = (\<lambda>ch i. beside (D_Fail D ch i)), D_ForwardMessages = (\<lambda>ch. beside (D_ForwardMessages D ch)),
     D_Reload = (\<lambda>ch b wx. map_option (\<lambda>(r, w'). (r, w', snd wx)) (D_Reload D ch b (fst wx))),
     D_Flush = (\<lambda>ch b. beside (D_Flush D ch b))\<rparr>"

lemma beside_eq [simp]: "beside f wx = (r, wx') \<longleftrightarrow> f (fst wx) = (r, fst wx') \<and> snd wx' = snd wx"
  by (cases wx') (auto simp: beside_def split: prod.splits)

lemma driver_beside_contract:
  assumes "queue_driver D dok clk before after calm"
  shows "queue_driver (driver_beside D) (\<lambda>ch wx. dok ch (fst wx) \<and> P (snd wx)) (\<lambda>wx. clk (fst wx))
    (\<lambda>ch wx. before ch (fst wx)) (\<lambda>ch wx. after ch (fst wx)) (\<lambda>wx. calm (fst wx))"
proof (unfold_locales, unfold driver_beside_def driver.select_convs beside_eq, goal_cases)
  case (1 w ch)
  then show ?case by (rule queue_driver.calm_before[OF assms])
next
  case (2 ch w i r w')
  then show ?case using queue_driver.Ack_law[OF assms] by auto
next
  case (3 ch w i r w')
  then show ?case using queue_driver.Drop_law[OF assms] by auto
next
  case (4 ch w i r w')
  then show ?case using queue_driver.Fail_law[OF assms] by auto
next
  case (5 ch w i r w')
  then show ?case using queue_driver.Requeue_law[OF assms] by auto
next
  case (6 ch w i d b w')
  then show ?case using queue_driver.Retry_law[OF assms] by auto
next
  case (7 ch w pt ht ctx)
  then show ?case using queue_driver.Pop_law[OF assms, of ch "fst w" pt ht ctx] by fastforce
next
  case (8 ch w d t e w')
  then show ?case using queue_driver.Forward_law[OF assms] by auto
qed

text \<open>\<^verbatim>\<open>Handle\<close> as the handler of a consumer, with the random draws of the runs.\<close>

definition order_handler :: "('w \<Rightarrow> bool) \<Rightarrow> ('w \<times> orderStore) handler" where
  "order_handler lucky m wx = (case OrderQueryHandler_Handle (lucky (fst wx)) m (snd wx) of
     (r, s') \<Rightarrow> (Returned r None, m, fst wx, s'))"

lemma Handle_result:
  "OrderQueryHandler_Handle lucky m s = (r, s') \<Longrightarrow> r \<in> {ACK, DROP} \<or> r = RETRY \<and> Attempts m < MaxAttempts m"
  by (auto simp: OrderQueryHandler_Handle_def query_read_def query_write_def split: sum.splits option.splits if_splits)

lemma Handle_last:
  assumes "OrderQueryHandler_Handle lucky m s = (r, s')" and "store_ok s" and "Attempts m \<ge> MaxAttempts m"
    and "order_no_of (Payload m) = Inr no" and "s no = Some order"
  shows "\<exists>order'. s' no = Some order' \<and> ord_Status order' \<noteq> OrderStatusUnpaid"
  using assms by (auto simp: OrderQueryHandler_Handle_def query_read_def query_write_def order_get_def order_save_def
      store_ok_def order_status_defs split: if_splits)

lemma applied_failed:
  "applied d i now q q' \<Longrightarrow> d \<noteq> ToFail \<Longrightarrow> set (q_failed q') \<subseteq> set (q_failed q)"
  by (cases d) (auto simp: q_ack_def q_drop_def q_requeue_def q_mark_def q_unreserve_def q_moved_def q_retry_def q_push_def
      q_enqueue_def q_forget_def split: option.splits if_splits)

lemma counted_failed: "d \<noteq> ToFail \<Longrightarrow> c_failed (counted d c) = c_failed c"
  by (cases d) simp_all

lemma settled_not_failed:
  assumes "settled d i now q c r c' q'" and "d \<noteq> ToFail"
  shows "c_failed c' = c_failed c \<and> set (q_failed q') \<subseteq> set (q_failed q)"
  using assms(1) applied_failed[OF _ assms(2)] counted_failed[OF assms(2)] unfolding settled_def by blast

text \<open>C36. Payment queries never end among the failed messages: whatever the message, the store and the draw, processing one
  with the shop's handler counts no failure and adds nothing to the failed list, whether or not its commit reports an error; and
  after a query without attempts left the order, if it exists, is no longer unpaid.\<close>

theorem order_query_settles:
  assumes "queue_driver D dok clk before after calm" and "c_driver c = driver_beside D" and "c_handler c = order_handler lucky"
    and "dok (c_channel c) w" and "calm w" and "silent_hooks (c_hooks c)" and "store_ok s"
    and "handleOne wall c i m (w, s) = (r, c', m', (w', s'))"
  shows "c_failed c' = c_failed c \<and> set (q_failed (after (c_channel c) w')) \<subseteq> set (q_failed (before (c_channel c) w)) \<and>
    (\<forall>no order. Attempts m \<ge> MaxAttempts m \<longrightarrow> order_no_of (Payload m) = Inr no \<longrightarrow> s no = Some order \<longrightarrow>
      (\<exists>order'. s' no = Some order' \<and> ord_Status order' \<noteq> OrderStatusUnpaid))"
proof -
  obtain x s1 where h: "OrderQueryHandler_Handle (lucky w) m s = (x, s1)" by force
  then have hd: "c_handler c m (w, s) = (Returned x None, m, w, s1)" using assms(3) by (simp add: order_handler_def)
  note res = Handle_result[OF h]
  obtain r0 where st: "settled (decide (c_retrySeconds c) (Returned x None) m) i (clk w) (before (c_channel c) w) c r0 c' (after (c_channel c) w')"
    and s': "s' = s1"
    using queue_driver.handleOne_settles[OF driver_beside_contract[OF assms(1), where P = "\<lambda>s. s = s1"] assms(2) hd, of wall i r c' m' "(w', s')"]
      assms(4-6,8) by auto
  have "decide (c_retrySeconds c) (Returned x None) m \<noteq> ToFail"
    using res by (auto simp: retry_or_fail_def result_defs)
  then show ?thesis using settled_not_failed[OF st] Handle_last[OF h assms(7)] s' by blast
qed

definition order_consumer :: "(mem world \<times> orderStore) Consumer" where
  "order_consumer = NewConsumer (driver_beside (redis_driver mem_redis)) ''q'' (order_handler (\<lambda>_. False)) []"

lemma order_query_settles_witness:
  "\<exists>r c' m' w' s' order'. handleOne (\<lambda>wx. wall_now (fst wx)) order_consumer ''j'' (demo_query\<lparr>Attempts := 3\<rparr>) (demo_one, [''A1'' \<mapsto> demo_order]) =
     (r, c', m', (w', s')) \<and> c_failed c' = 0 \<and> s' ''A1'' = Some order' \<and> ord_Status order' \<noteq> OrderStatusUnpaid"
proof -
  let ?m = "demo_query\<lparr>Attempts := 3\<rparr>" and ?s = "[''A1'' \<mapsto> demo_order]"
  obtain r c' m' w' s' where run: "handleOne (\<lambda>wx. wall_now (fst wx)) order_consumer ''j'' ?m (demo_one, ?s) = (r, c', m', (w', s'))"
    by (metis prod_cases5)
  have c: "c_driver order_consumer = driver_beside (redis_driver mem_redis)" "c_handler order_consumer = order_handler (\<lambda>_. False)"
    "c_channel order_consumer = ''q''" "silent_hooks (c_hooks order_consumer)" "c_failed order_consumer = 0"
    by (simp_all add: order_consumer_def NewConsumer_def consumer_settings_def defaultConsumerOptions_def no_hooks_def
        silent_hooks_def silent_hook_def Let_def)
  have o: "store_ok ?s" "order_no_of (Payload ?m) = Inr ''A1''"
    by (simp_all add: store_ok_def demo_order_def demo_query_def task_json_def lower_def lower_char_def)
  have "c_failed c' = 0 \<and> (\<exists>order'. s' ''A1'' = Some order' \<and> ord_Status order' \<noteq> OrderStatusUnpaid)"
    using order_query_settles[OF mem_lua.drv.queue_driver_axioms c(1,2) _ _ c(4) o(1) run] demo_one_ok o(2) c(3,5)
    by (simp add: demo_query_def)
  then show ?thesis using run by blast
qed


section \<open>Creating and paying\<close>

lemma order_config_queue:
  obtains cfg where "(queueOrderPayment, cfg) \<in> set order_config" "cfg_Enabled cfg" "cfg_Channel cfg = queueChannel" "cfg_MaxAttempts cfg = 3"
    "distinct (map fst order_config)"
  by (simp add: order_config_def)

lemma order_no_task [simp]: "order_no_of (Some (Json (task_json no))) = Inr no"
proof -
  have "lower ''order_no'' = ''order_no''" by code_simp
  then show ?thesis by (simp add: task_json_def)
qed

lemma pushed_delayed: "i \<in> zset_members (zset_add score i z)" "zset_rem i (zset_add score i z) = zset_rem i z" "i \<notin> zset_members (zset_rem i z)"
  by (auto simp: zset_add_def zset_rem_def zset_members_def filter_insort_triv set_insort_key)

text \<open>A delayed job that was just stored can be cancelled, and the queue is as before except for the entity of the job.\<close>

lemma cancel_pushed:
  "q_cancel i now (q_push i m ''delayed'' score q) =
     (Canceled, q_mark i StatusCanceled now (q\<lparr>q_msgs := (q_msgs q)(i \<mapsto> m), q_delayed := zset_rem i (q_delayed q)\<rparr>))"
  by (auto simp: q_cancel_def q_push_def q_enqueue_def pushed_delayed)

text \<open>C37. Paying at once cancels the query: while the server runs with the configuration of the example, all calls are delivered and no other client uses
  the channel, \<^verbatim>\<open>orderCreate\<close> answers with the unpaid order and leaves its query delayed, and \<^verbatim>\<open>paymentCallback\<close> called for this order directly
  after that, before the delay of the query has passed, answers with the order paid, stores it so, and removes the
  query from the delayed jobs with the status cancelled; nothing was made waiting or reserved in between.\<close>

theorem callback_cancels_query:
  assumes "redis_lua R look conv safe" and "world_ok safe look queueChannel w" and "quiet w" and "\<forall>n. w_net w n = Delivered"
    and "seq_ok maxMessageSequence look queueChannel (w_db w)" and "fst (seq_state look queueChannel (w_db w)) + 1 < 10 ^ 14"
    and "NewServer (Some order_config) [WithDriver ''redis'' (Some (redis_driver R))] g = (Inr a, g1)"
    and "Run_begin a smux g1 w = Some (None, g2, w1)" and "no \<noteq> ''''" and "safe (task_json no)"
  defines "q \<equiv> view look queueChannel (w_db w)"
  shows "\<exists>jobID w2 w3 order. order = \<lparr>ord_OrderNo = no, ord_Status = OrderStatusUnpaid, ord_JobID = jobID\<rparr> \<and>
    orderCreate wall_now nanos (Some (Json (task_json no))) g2 s w1 = Some (writeJSON 200 order, s(no \<mapsto> order), w2) \<and>
    paymentCallback (Some (Json (task_json no))) g2 (s(no \<mapsto> order)) w2 =
      (writeJSON 200 (order\<lparr>ord_Status := OrderStatusPaid\<rparr>), s(no \<mapsto> order\<lparr>ord_Status := OrderStatusPaid\<rparr>), w3) \<and>
    jobID \<in> delayed_ids (view look queueChannel (w_db w2)) \<and> jobID \<notin> delayed_ids (view look queueChannel (w_db w3)) \<and>
    q_waiting (view look queueChannel (w_db w3)) = q_waiting q \<and> q_reserved (view look queueChannel (w_db w3)) = q_reserved q \<and>
    map_option Status (q_msgs (view look queueChannel (w_db w3)) jobID) = Some StatusCanceled"
proof -
  obtain cfg where cfg: "(queueOrderPayment, cfg) \<in> set order_config" "cfg_Enabled cfg" "cfg_Channel cfg = queueChannel" "cfg_MaxAttempts cfg = 3"
    and d: "distinct (map fst order_config)" by (rule order_config_queue)
  obtain q0 i m score w2 where p: "GetQueue queueOrderPayment g2 = Inr q0" "aq_driver q0 = Some (redis_driver R)" "aq_channel q0 = queueChannel"
    "Queue_PushTask wall_now (Some q0) (Some (Inr (task_json no))) defaultQueryDelay w1 = Some (Inr i, w2)" "i \<noteq> ''''"
    "world_ok safe look queueChannel w2" "quiet w2" "w_net w2 = w_net w"
    "view look queueChannel (w_db w2) = q_push i m ''delayed'' score q"
    unfolding q_def
    by (rule run_begin_push[OF assms(1-6,10) d assms(7) _ assms(8) cfg(1-3), of defaultQueryDelay]) (simp_all add: cfg(4) defaultQueryDelay_def)
  let ?order = "\<lparr>ord_OrderNo = no, ord_Status = OrderStatusUnpaid, ord_JobID = i\<rparr>"
  have create: "orderCreate wall_now nanos (Some (Json (task_json no))) g2 s w1 = Some (writeJSON 200 ?order, s(no \<mapsto> ?order), w2)"
    using p(1,4) assms(9) by (simp add: orderCreate_def order_save_def Let_def)
  have "view look queueChannel (db_at w2) = q_push i m ''delayed'' score q" using p(7,9) by (simp add: quiet_def)
  then obtain t where cancel: "Cancel R queueChannel i w2 = (reply_of w2 (Inr True), after_call w2 t)"
    and t: "view look queueChannel t = q_mark i StatusCanceled (secs w2) (q\<lparr>q_msgs := (q_msgs q)(i \<mapsto> m), q_delayed := zset_rem i (q_delayed q)\<rparr>)"
    using redis_lua.Cancel_refines[OF assms(1) p(6,5)] by (auto simp: cancel_pushed)
  let ?w3 = "after_call w2 t"
  have callback: "paymentCallback (Some (Json (task_json no))) g2 (s(no \<mapsto> ?order)) w2 =
      (writeJSON 200 (?order\<lparr>ord_Status := OrderStatusPaid\<rparr>), s(no \<mapsto> ?order\<lparr>ord_Status := OrderStatusPaid\<rparr>), ?w3)"
    using p(1-3,5) cancel by (simp add: paymentCallback_def callback_read_def callback_write_def order_save_def order_get_def callback_cancel_def
        Queue_Cancel_def q_live_def redis_driver_def order_status_defs split: sum.split)
  have "w_db ?w3 = t" using p(8) assms(4) by (simp add: executed_def after_call_def)
  then have "i \<in> delayed_ids (view look queueChannel (w_db w2)) \<and> i \<notin> delayed_ids (view look queueChannel (w_db ?w3)) \<and>
    q_waiting (view look queueChannel (w_db ?w3)) = q_waiting q \<and> q_reserved (view look queueChannel (w_db ?w3)) = q_reserved q \<and>
    map_option Status (q_msgs (view look queueChannel (w_db ?w3)) i) = Some StatusCanceled"
    using t p(9) by (simp add: q_mark_def q_push_def q_enqueue_def pushed_delayed)
  then show ?thesis using create callback by blast
qed


text \<open>The example over the in-memory server, from an empty database.\<close>

definition shop_globals :: "mem world globals" where
  "shop_globals = snd (NewServer (Some order_config) [WithDriver ''redis'' (Some (redis_driver mem_redis))] demo_globals)"

lemma shop_server: "NewServer (Some order_config) [WithDriver ''redis'' (Some (redis_driver mem_redis))] demo_globals = (Inr 0, shop_globals)"
  by (simp add: shop_globals_def NewServer_def newManager_def setDefaultWithWarn_def RegisterDriver_def Let_def demo_globals_def order_config_def)

lemma shop_runs:
  "\<exists>g2 w1. Run_begin 0 (Some (Mux_Handle queueOrderPayment demo_handler NewServeMux)) shop_globals demo_start = Some (None, g2, w1)"
proof -
  let ?mux = "Mux_Handle queueOrderPayment demo_handler NewServeMux"
  obtain cfg where cfg: "order_config = [(queueOrderPayment, cfg)]" "cfg_Enabled cfg" "cfg_Driver cfg = ''redis''" "cfg_Channel cfg = queueChannel"
    "cfg_Processes cfg = 2" by (simp add: order_config_def)
  obtain s m0 where s: "deref (Some 0) shop_globals = Some s" "srv_manager s = Some m0" "m_config m0 = order_config"
    "m_drivers m0 = [''redis'' \<mapsto> redis_driver mem_redis]" "\<not> m_started m0" "srv_serveMux s \<noteq> None"
    by (rule NewServer_made[OF shop_server]) simp_all
  obtain m where m: "srv_manager (merge_mux (Some ?mux) s) = Some m" "m_config m = order_config" "Mux_Get queueOrderPayment (m_serveMux m) = Some demo_handler"
    "m_drivers m = [''redis'' \<mapsto> redis_driver mem_redis]" "\<not> m_started m"
    using s by (auto simp: merge_mux_def put_mux_def Mux_Get_def Mux_Handle_def)
  have "Ping demo_start = (Inr (), after_call demo_start mem_empty)" by (simp add: Ping_def client_call_eq reply_of_def)
  then obtain q w1 where q: "NewAsyncQueue (Some (redis_driver mem_redis)) queueChannel (queueOpts queueOrderPayment cfg) demo_start = (Inr q, w1)"
    by (simp add: NewAsyncQueue_def redis_driver_def Let_def queueChannel_def)
  have mc: "m_config m = [(queueOrderPayment, cfg)]" using m(2) cfg(1) by (rule trans)
  have "check_queue m queueOrderPayment cfg = None" using m cfg(3) by (simp add: check_queue_None)
  then have "checkStartWorkerOptions m = None" using cfg(2) by (simp add: checkStartWorkerOptions_def mc)
  then obtain m1 where "StartWorker m demo_start = Some (None, m1, w1)"
    using m(3-5) q cfg(2-5) by (simp add: StartWorker_def start_queue_def Let_def mc)
  then show ?thesis using s m(1) by (auto simp: Run_begin_def Let_def)
qed

lemma shop_world:
  "world_ok mem_safe m_obj queueChannel demo_start" "seq_ok maxMessageSequence m_obj queueChannel mem_empty"
  "seq_state m_obj queueChannel mem_empty = (0, 0)" "mem_safe (task_json ''A1'')"
proof -
  have "chan_ok mem_safe m_obj queueChannel mem_empty"
    by (simp add: chan_ok_def view_def mem_empty_def entity_ok_def entity_message_def q_empty_def Let_def)
  then show "world_ok mem_safe m_obj queueChannel demo_start" by (simp add: demo_world_def world_ok_def clocks_ok_def Unix_def)
  show "seq_ok maxMessageSequence m_obj queueChannel mem_empty" "seq_state m_obj queueChannel mem_empty = (0, 0)"
    by (simp_all add: seq_ok_def seq_state_def mem_empty_def holds_counter_def maxMessageSequence_def Let_def)
  show "mem_safe (task_json ''A1'')" by (simp add: mem_safe_def task_json_def)
qed

theorem callback_cancels_query_witness:
  "\<exists>g2 w1 order w2 s3 w3. Run_begin 0 (Some (Mux_Handle queueOrderPayment demo_handler NewServeMux)) shop_globals demo_start = Some (None, g2, w1) \<and>
     orderCreate wall_now 0 (Some (Json (task_json ''A1''))) g2 newOrderStore w1 = Some (writeJSON 200 order, newOrderStore(''A1'' \<mapsto> order), w2) \<and>
     paymentCallback (Some (Json (task_json ''A1''))) g2 (newOrderStore(''A1'' \<mapsto> order)) w2 =
       (writeJSON 200 (order\<lparr>ord_Status := OrderStatusPaid\<rparr>), s3, w3) \<and>
     ord_JobID order \<notin> delayed_ids (view m_obj queueChannel (w_db w3)) \<and> q_waiting (view m_obj queueChannel (w_db w3)) = []"
proof -
  obtain g2 w1 where run: "Run_begin 0 (Some (Mux_Handle queueOrderPayment demo_handler NewServeMux)) shop_globals demo_start = Some (None, g2, w1)"
    using shop_runs by blast
  have "q_waiting (view m_obj queueChannel mem_empty) = []" by (simp add: view_def mem_empty_def)
  then show ?thesis using run callback_cancels_query[OF demo_lua shop_world(1) _ _ _ _ shop_server run, of "''A1''" 0 newOrderStore] shop_world(2-4)
    by (fastforce simp: demo_world_ok(2)[OF demo_empty(1)])
qed

end
