(* ===== verification/Basic_Example.thy ===== *)
theory Basic_Example
  imports Server
begin

text \<open>
  The basic example (\<^verbatim>\<open>examples/demo/basic/main.go\<close>): its handler with the random outcomes, the order number,
  the configuration and the producer.
  The date of an order number, the random numbers and the ticks of the producer are arguments.
\<close>

definition basic_queueName :: string where "basic_queueName = ''order''"

definition ErrUnknownProcessing :: error where
  "ErrUnknownProcessing = ErrText ''unknown order processing error''"

definition nextResult :: "nat \<Rightarrow> Result \<times> error option" where
  "nextResult n = (if n = 0 then (ACK, None) else if n = 1 then (RETRY, None) else if n = 2 then (REQUEUE, None)
     else if n = 3 then (DROP, None) else ('''', Some ErrUnknownProcessing))"

text \<open>\<^verbatim>\<open>Handle\<close>: the payload is decoded and ignored; \<open>ctx\<close> is the error of the context when it ends before the timer.\<close>

definition OrderTaskHandler_Handle :: "nat \<Rightarrow> error option \<Rightarrow> Result \<times> error option" where
  "OrderTaskHandler_Handle n ctx = (case ctx of None \<Rightarrow> nextResult n | Some e \<Rightarrow> (RETRY, Some e))"

definition basic_handler :: "('w \<Rightarrow> nat) \<Rightarrow> ('w \<Rightarrow> error option) \<Rightarrow> 'w handler" where
  "basic_handler draw ctx m w = (case OrderTaskHandler_Handle (draw w) (ctx w) of (r, e) \<Rightarrow> (Returned r e, m, w))"

definition generateOrderNo :: "nat list \<Rightarrow> string \<Rightarrow> string" where
  "generateOrderNo b datePart = ''bn-'' @ datePart @ ''-'' @ hex_EncodeToString b"

definition basic_config :: Config where
  "basic_config = [(basic_queueName, \<lparr>cfg_Name = '''', cfg_Driver = ''redis'', cfg_Channel = ''queue:order'', cfg_Enabled = True,
     cfg_PopTimeout = 1, cfg_HandleTimeout = 180, cfg_RetrySeconds = [5, 10, 30], cfg_MessageTTL = 0, cfg_MaxAttempts = 3,
     cfg_Processes = 2, cfg_Concurrent = 50, cfg_AutoRestart = False, cfg_MaxMessages = 10, cfg_ShutdownTimeout = 240\<rparr>)]"

text \<open>\<^verbatim>\<open>OrderTask\<close> with its amount in cents: the program divides an integer by 100, and \<^verbatim>\<open>json.Marshal\<close> prints the shortest decimal that reads back as the
  quotient, so no trailing zeros.\<close>

record OrderTask =
  ot_OrderNo :: string
  ot_UserID :: int
  ot_TotalAmount :: int

definition amount_json :: "int \<Rightarrow> json" where
  "amount_json cents = (let whole = cents div 100; frac = cents mod 100 in
     if frac = 0 then JInt whole
     else if frac mod 10 = 0 then JNum (show_int whole @ ''.'' @ show_int (frac div 10))
     else JNum (show_int whole @ ''.'' @ show_int (frac div 10) @ show_int (frac mod 10)))"

definition OrderTask_json :: "OrderTask \<Rightarrow> json" where
  "OrderTask_json t = JObj [(''order_no'', JStr (ot_OrderNo t)), (''user_id'', JInt (ot_UserID t)), (''total_amount'', amount_json (ot_TotalAmount t))]"

text \<open>What one tick of the producer draws: the random bytes and the date of the order number, \<^verbatim>\<open>rand.Intn(1000)\<close> and \<^verbatim>\<open>rand.Intn(95000)\<close>.\<close>

record draws =
  dr_bytes :: "nat list"
  dr_date :: string
  dr_user :: nat
  dr_amount :: nat

definition producer_task :: "draws \<Rightarrow> OrderTask" where
  "producer_task t = \<lparr>ot_OrderNo = generateOrderNo (dr_bytes t) (dr_date t), ot_UserID = int (dr_user t) + 1,
     ot_TotalAmount = int (dr_amount t) + 1000\<rparr>"

text \<open>The loop of the producer over the ticks until the context ends; it goes on after an error, and \<open>None\<close> is the panic of a nil queue.
  The queue is looked up once, before the first tick, and the error of this lookup is ignored.\<close>

fun producer_loop :: "('w \<Rightarrow> int) \<Rightarrow> 'w Queue option \<Rightarrow> draws list \<Rightarrow> 'w \<Rightarrow> 'w option" where
  "producer_loop wall q [] w = Some w"
| "producer_loop wall q (t # ts) w = (case Queue_PushTask wall q (Some (Inr (OrderTask_json (producer_task t)))) 30 w of
      None \<Rightarrow> None
    | Some (Inl err, w1) \<Rightarrow> producer_loop wall q ts w1
    | Some (Inr i, w1) \<Rightarrow> producer_loop wall q ts w1)"

definition basic_producer :: "('w \<Rightarrow> int) \<Rightarrow> nat option \<Rightarrow> 'w globals \<Rightarrow> draws list \<Rightarrow> 'w \<Rightarrow> 'w option" where
  "basic_producer wall s g ts w =
     (let queue = (case Server_Queue s basic_queueName g of Inl err \<Rightarrow> None | Inr q \<Rightarrow> Some q) in producer_loop wall queue ts w)"

text \<open>What the outcomes of the handler mean for the message: an unknown error and an ended context retry it while attempts remain.\<close>

lemma basic_decides:
  "decide rs (case OrderTaskHandler_Handle n ctx of (r, e) \<Rightarrow> Returned r e) m =
     (if ctx \<noteq> None \<or> n = 1 \<or> n > 3 then retry_or_fail rs m
      else if n = 0 then ToAck else if n = 2 then ToRequeue else ToDrop)"
  by (auto simp: OrderTaskHandler_Handle_def nextResult_def result_defs split: option.splits)

text \<open>Order numbers of one date differ as soon as their random bytes do.\<close>

lemma hex_digit_inject: "m < 16 \<Longrightarrow> n < 16 \<Longrightarrow> hex_digit m = hex_digit n \<longleftrightarrow> m = n"
  unfolding hex_digit_def by (intro nth_eq_iff_index_eq) simp_all

lemma hex_inject:
  "\<forall>b \<in> set bs \<union> set cs. b < 256 \<Longrightarrow> hex_EncodeToString bs = hex_EncodeToString cs \<longleftrightarrow> bs = cs"
proof (induction bs arbitrary: cs)
  case Nil
  then show ?case by (cases cs) (simp_all add: hex_EncodeToString_def)
next
  case (Cons b bs)
  show ?case
  proof (cases cs)
    case (Cons c cs')
    then have "b < 256" "c < 256" using Cons.prems by simp_all
    then have "b div 16 = c div 16 \<and> b mod 16 = c mod 16 \<longleftrightarrow> b = c" "b div 16 < 16" "c div 16 < 16"
      by (auto simp: less_mult_imp_div_less) (metis div_mult_mod_eq)
    then show ?thesis using Cons Cons.IH[of cs'] Cons.prems by (auto simp: hex_EncodeToString_def hex_digit_inject)
  qed (simp add: hex_EncodeToString_def)
qed

lemma order_numbers_differ:
  "\<forall>x \<in> set b \<union> set c. x < 256 \<Longrightarrow> generateOrderNo b d = generateOrderNo c d \<longleftrightarrow> b = c"
  by (simp add: generateOrderNo_def hex_inject)

text \<open>The limit of ten messages has no effect, because restarts are off: no consumer of the configuration ever reaches it.\<close>

lemma basic_unlimited:
  assumes "map_of basic_config n = Some cfg"
  shows "\<not> limit_reached (new_consumer n i d q h cfg) count"
  using assms by (auto simp: basic_config_def limit_reached_def new_consumer_def NewConsumer_def consumer_settings_def Let_def
      defaultConsumerOptions_def split: if_splits)


section \<open>The producer\<close>

lemma producer_task_ranges:
  "dr_user t < 1000 \<Longrightarrow> dr_amount t < 95000 \<Longrightarrow> ot_UserID (producer_task t) \<in> {1 .. 1000} \<and> ot_TotalAmount (producer_task t) \<in> {1000 .. 95999}"
  by (simp add: producer_task_def)

text \<open>The producer looks its queue up once, a second after the server was started in another goroutine, and ignores the error: when the
  server was not up by then, the first tick panics; with a queue it never does.\<close>

lemma producer_loop_total: "producer_loop wall (Some q) ts w \<noteq> None"
proof (induction ts arbitrary: w)
  case (Cons t ts)
  obtain r w1 where "Queue_PushTask wall (Some q) (Some (Inr (OrderTask_json (producer_task t)))) 30 w = Some (r, w1)"
    by (cases "Queue_PushTask wall (Some q) (Some (Inr (OrderTask_json (producer_task t)))) 30 w")
      (auto simp: Queue_PushTask_def split: prod.splits)
  then show ?case using Cons by (cases r) simp_all
qed simp

theorem producer_panics_iff:
  "basic_producer wall s g ts w = None \<longleftrightarrow> ts \<noteq> [] \<and> (\<exists>err. Server_Queue s basic_queueName g = Inl err)"
proof (cases "Server_Queue s basic_queueName g")
  case (Inl err)
  then show ?thesis by (cases ts) (simp_all add: basic_producer_def Queue_PushTask_def)
next
  case (Inr q)
  then show ?thesis using producer_loop_total[of wall q ts w] by (simp add: basic_producer_def)
qed

text \<open>When the workers of the example run, a tick stores its task as a delayed job with three attempts.\<close>

theorem producer_publishes:
  assumes "redis_lua R look conv safe" and "world_ok safe look ''queue:order'' w" and "quiet w" and "\<forall>n. w_net w n = Delivered"
    and "seq_ok maxMessageSequence look ''queue:order'' (w_db w)" and "fst (seq_state look ''queue:order'' (w_db w)) + 1 < 10 ^ 14"
    and "NewServer (Some basic_config) [WithDriver ''redis'' (Some (redis_driver R))] g = (Inr a, g1)"
    and "Run_begin a smux g1 w = Some (None, g2, w1)" and "safe (OrderTask_json (producer_task t))"
  shows "\<exists>i m score w2. basic_producer wall_now (Some a) g2 [t] w1 = Some w2 \<and> i \<noteq> '''' \<and>
    Payload m = Some (Json (OrderTask_json (producer_task t))) \<and> Attempts m = 0 \<and> MaxAttempts m = 3 \<and> Status m = StatusDelayed \<and>
    view look ''queue:order'' (w_db w2) = q_push i m ''delayed'' score (view look ''queue:order'' (w_db w))"
proof -
  obtain cfg where cfg: "(basic_queueName, cfg) \<in> set basic_config" "cfg_Enabled cfg" "cfg_Channel cfg = ''queue:order''" "cfg_MaxAttempts cfg = 3"
    and d: "distinct (map fst basic_config)" by (simp add: basic_config_def)
  obtain q i m score w2 where p: "Server_Queue (Some a) basic_queueName g2 = Inr q" "i \<noteq> ''''"
    "Queue_PushTask wall_now (Some q) (Some (Inr (OrderTask_json (producer_task t)))) 30 w1 = Some (Inr i, w2)"
    "Payload m = Some (Json (OrderTask_json (producer_task t)))" "Attempts m = 0" "MaxAttempts m = 3" "Status m = StatusDelayed"
    "view look ''queue:order'' (w_db w2) = q_push i m ''delayed'' score (view look ''queue:order'' (w_db w))"
    by (rule run_begin_push[OF assms(1-6,9) d assms(7) _ assms(8) cfg(1-3), of 30]) (simp_all add: cfg(4))
  then show ?thesis by (intro exI[of _ i] exI[of _ m] exI[of _ score] exI[of _ w2]) (simp add: basic_producer_def)
qed

end
