(* ===== verification/Command_Line.thy ===== *)
theory Command_Line
  imports Go_Prelude
begin

text \<open>
  The command line of the example worker (\<^verbatim>\<open>examples/worker/main.go\<close>, \<^verbatim>\<open>parseArgs\<close>): the flags it declares, the rules of Go's
  \<^verbatim>\<open>flag\<close> package for reading them, \<^verbatim>\<open>strconv.ParseInt\<close>, and the list of retry delays with what \<^verbatim>\<open>fmt.Sscanf\<close> makes of \<^verbatim>\<open>%d\<close>.
  White space is that of ASCII.  The usage message is left out.
\<close>

section \<open>Numbers\<close>

datatype num_error = ErrSyntax | ErrRange

definition in_chars :: "char \<Rightarrow> char \<Rightarrow> char \<Rightarrow> bool" where
  "in_chars a b c \<longleftrightarrow> (of_char a :: nat) \<le> of_char c \<and> (of_char c :: nat) \<le> of_char b"

definition num_digit :: "char \<Rightarrow> int option" where
  "num_digit c =
     (if is_digit c then Some (int (digit_val c))
      else if in_chars CHR ''a'' CHR ''z'' c then Some (int (of_char c - 97 + 10))
      else if in_chars CHR ''A'' CHR ''Z'' c then Some (int (of_char c - 65 + 10))
      else None)"

text \<open>The loop of \<^verbatim>\<open>strconv.ParseUint\<close> with 64 bits; with base 0 it skips underscores, which are checked afterwards.\<close>

fun num_loop :: "bool \<Rightarrow> int \<Rightarrow> string \<Rightarrow> int \<Rightarrow> num_error + int" where
  "num_loop base0 base [] n = Inr n"
| "num_loop base0 base (c # cs) n =
     (if base0 \<and> c = CHR ''_'' then num_loop base0 base cs n
      else case num_digit c of
          None \<Rightarrow> Inl ErrSyntax
        | Some d \<Rightarrow> if d \<ge> base then Inl ErrSyntax
                    else if n * base + d \<ge> 2 ^ 64 then Inl ErrRange
                    else num_loop base0 base cs (n * base + d))"

fun base_prefix :: "string \<Rightarrow> int \<times> string" where
  "base_prefix (z # c # d # s) =
     (if z \<noteq> CHR ''0'' then (10, z # c # d # s)
      else if c \<in> {CHR ''b'', CHR ''B''} then (2, d # s)
      else if c \<in> {CHR ''o'', CHR ''O''} then (8, d # s)
      else if c \<in> {CHR ''x'', CHR ''X''} then (16, d # s)
      else (8, c # d # s))"
| "base_prefix (z # s) = (if z \<noteq> CHR ''0'' then (10, z # s) else (8, s))"
| "base_prefix [] = (10, [])"

text \<open>\<^verbatim>\<open>underscoreOK\<close>: what it saw last is the start, a digit or base prefix, an underscore, or something else.\<close>

datatype seen = SawStart | SawDigit | SawUnderscore | SawOther

fun underscore_loop :: "bool \<Rightarrow> string \<Rightarrow> seen \<Rightarrow> bool" where
  "underscore_loop hex [] i \<longleftrightarrow> i \<noteq> SawUnderscore"
| "underscore_loop hex (c # cs) i \<longleftrightarrow>
     (if is_digit c \<or> hex \<and> (in_chars CHR ''a'' CHR ''f'' c \<or> in_chars CHR ''A'' CHR ''F'' c) then underscore_loop hex cs SawDigit
      else if c = CHR ''_'' then i = SawDigit \<and> underscore_loop hex cs SawUnderscore
      else i \<noteq> SawUnderscore \<and> underscore_loop hex cs SawOther)"

fun underscoreOK :: "string \<Rightarrow> bool" where
  "underscoreOK (z # c # s) =
     (if z = CHR ''0'' \<and> c \<in> set ''bBoOxX'' then underscore_loop (c \<in> set ''xX'') s SawDigit
      else underscore_loop False (z # c # s) SawStart)"
| "underscoreOK s = underscore_loop False s SawStart"

definition ParseUint :: "bool \<Rightarrow> string \<Rightarrow> num_error + int" where
  "ParseUint base0 s =
     (if s = '''' then Inl ErrSyntax
      else case (if base0 then base_prefix s else (10, s)) of
        (base, ds) \<Rightarrow> (case num_loop base0 base ds 0 of
            Inl e \<Rightarrow> Inl e
          | Inr n \<Rightarrow> if base0 \<and> CHR ''_'' \<in> set ds \<and> \<not> underscoreOK s then Inl ErrSyntax else Inr n))"

text \<open>\<^verbatim>\<open>strconv.ParseInt\<close> with base 0 or 10 and 64 bits.\<close>

definition signed_value :: "bool \<Rightarrow> num_error + int \<Rightarrow> num_error + int" where
  "signed_value neg r = (case r of
      Inl e \<Rightarrow> Inl e
    | Inr n \<Rightarrow> if neg then (if n > 2 ^ 63 then Inl ErrRange else Inr (- n))
               else (if n \<ge> 2 ^ 63 then Inl ErrRange else Inr n))"

fun ParseInt :: "bool \<Rightarrow> string \<Rightarrow> num_error + int" where
  "ParseInt base0 [] = Inl ErrSyntax"
| "ParseInt base0 (c # s) =
     (if c = CHR ''+'' then signed_value False (ParseUint base0 s)
      else if c = CHR ''-'' then signed_value True (ParseUint base0 s)
      else signed_value False (ParseUint base0 (c # s)))"

text \<open>\<^verbatim>\<open>fmt.Sscanf(p, "%d", &v)\<close> for a \<open>p\<close> without leading white space: an optional sign and the digits that follow; the
  rest of \<open>p\<close> is not looked at.\<close>

fun accept_sign :: "string \<Rightarrow> string \<times> string" where
  "accept_sign (c # s) = (if c \<in> set ''+-'' then ([c], s) else ([], c # s))"
| "accept_sign [] = ([], [])"

definition Sscanf_d :: "string \<Rightarrow> int option" where
  "Sscanf_d p = (case accept_sign p of (sign, rest) \<Rightarrow>
     (let ds = takeWhile is_digit rest in
      if ds = [] then None else (case ParseInt False (sign @ ds) of Inl e \<Rightarrow> None | Inr v \<Rightarrow> Some v)))"


section \<open>Flags\<close>

record workerOptions =
  wo_redisAddr :: string
  wo_channel :: string
  wo_timeout :: int
  wo_handleTimeout :: int
  wo_retrySeconds :: "int list"
  wo_concurrent :: int
  wo_maxMessages :: int
  wo_shutdownTimeout :: int

record flag_values = workerOptions + fv_retry :: string

datatype flag_var = StringVar "string \<Rightarrow> flag_values \<Rightarrow> flag_values" | IntVar "int \<Rightarrow> flag_values \<Rightarrow> flag_values"

datatype flag_error =
    BadFlagSyntax string
  | NotDefined string
  | NeedsArgument string
  | InvalidValue string string num_error
  | ErrHelp
  | InvalidRetrySeconds
  | ShutdownNotPositive

definition worker_flags :: "(string \<times> flag_var) list" where
  "worker_flags = [
     (''redis-addr'', StringVar (\<lambda>v s. s\<lparr>wo_redisAddr := v\<rparr>)),
     (''channel'', StringVar (\<lambda>v s. s\<lparr>wo_channel := v\<rparr>)),
     (''timeout'', IntVar (\<lambda>v s. s\<lparr>wo_timeout := v\<rparr>)),
     (''handle-timeout'', IntVar (\<lambda>v s. s\<lparr>wo_handleTimeout := v\<rparr>)),
     (''retry-seconds'', StringVar (\<lambda>v s. s\<lparr>fv_retry := v\<rparr>)),
     (''concurrent'', IntVar (\<lambda>v s. s\<lparr>wo_concurrent := v\<rparr>)),
     (''max-messages'', IntVar (\<lambda>v s. s\<lparr>wo_maxMessages := v\<rparr>)),
     (''shutdown-timeout'', IntVar (\<lambda>v s. s\<lparr>wo_shutdownTimeout := v\<rparr>))]"

definition flag_defaults :: flag_values where
  "flag_defaults = \<lparr>wo_redisAddr = ''127.0.0.1:6379'', wo_channel = ''{queue}'', wo_timeout = 2, wo_handleTimeout = 10, wo_retrySeconds = [],
     wo_concurrent = 10, wo_maxMessages = 0, wo_shutdownTimeout = 30, fv_retry = ''5''\<rparr>"

fun flag_set :: "flag_var \<Rightarrow> string \<Rightarrow> string \<Rightarrow> flag_values \<Rightarrow> flag_error + flag_values" where
  "flag_set (StringVar f) name v s = Inr (f v s)"
| "flag_set (IntVar f) name v s = (case ParseInt True v of Inl e \<Rightarrow> Inl (InvalidValue v name e) | Inr n \<Rightarrow> Inr (f n s))"

text \<open>The argument of \<^verbatim>\<open>parseOne\<close>: not a flag, the terminator, a syntax error, or a name and perhaps a value.  The search for
  the equals sign starts at the second character.\<close>

datatype flag_arg = NotFlag | Terminator | BadFlag | Named string "string option"

fun split_value :: "string \<Rightarrow> string \<times> string option" where
  "split_value (c # cs) = (case dropWhile (\<lambda>x. x \<noteq> CHR ''='') cs of
      [] \<Rightarrow> (c # cs, None)
    | _ # v \<Rightarrow> (c # takeWhile (\<lambda>x. x \<noteq> CHR ''='') cs, Some v))"
| "split_value [] = ([], None)"

definition flag_name :: "string \<Rightarrow> flag_arg" where
  "flag_name name = (if name = '''' \<or> hd name \<in> set ''-='' then BadFlag
     else case split_value name of (n, v) \<Rightarrow> Named n v)"

fun classify_arg :: "string \<Rightarrow> flag_arg" where
  "classify_arg (a # b # s) =
     (if a \<noteq> CHR ''-'' then NotFlag
      else if b = CHR ''-'' then (if s = [] then Terminator else flag_name s)
      else flag_name (b # s))"
| "classify_arg _ = NotFlag"

text \<open>\<^verbatim>\<open>FlagSet.Parse\<close>; none of the flags is boolean.\<close>

fun flag_Parse :: "string list \<Rightarrow> flag_values \<Rightarrow> flag_error + flag_values" where
  "flag_Parse [] s = Inr s"
| "flag_Parse (arg # args) s = (case classify_arg arg of
      NotFlag \<Rightarrow> Inr s
    | Terminator \<Rightarrow> Inr s
    | BadFlag \<Rightarrow> Inl (BadFlagSyntax arg)
    | Named name value \<Rightarrow> (case map_of worker_flags name of
        None \<Rightarrow> if name \<in> {''help'', ''h''} then Inl ErrHelp else Inl (NotDefined name)
      | Some f \<Rightarrow> (case value of
          Some v \<Rightarrow> (case flag_set f name v s of Inl e \<Rightarrow> Inl e | Inr s' \<Rightarrow> flag_Parse args s')
        | None \<Rightarrow> (case args of
            [] \<Rightarrow> Inl (NeedsArgument name)
          | v # args' \<Rightarrow> (case flag_set f name v s of Inl e \<Rightarrow> Inl e | Inr s' \<Rightarrow> flag_Parse args' s')))))"


section \<open>parseArgs\<close>

fun Split_comma :: "string \<Rightarrow> string list" where
  "Split_comma [] = [[]]"
| "Split_comma (c # s) = (if c = CHR '','' then [] # Split_comma s
     else case Split_comma s of p # ps \<Rightarrow> (c # p) # ps | [] \<Rightarrow> [[c]])"

fun retry_list :: "string list \<Rightarrow> int list \<Rightarrow> flag_error + int list" where
  "retry_list [] acc = Inr acc"
| "retry_list (p # ps) acc =
     (let p = TrimSpace p in
      if p = '''' then retry_list ps acc
      else case Sscanf_d p of None \<Rightarrow> Inl InvalidRetrySeconds | Some v \<Rightarrow> retry_list ps (acc @ [v]))"

definition parseArgs :: "string list \<Rightarrow> flag_error + workerOptions" where
  "parseArgs args = (case flag_Parse args flag_defaults of
      Inl e \<Rightarrow> Inl e
    | Inr s \<Rightarrow> (case retry_list (Split_comma (TrimSpace (fv_retry s))) (wo_retrySeconds s) of
        Inl e \<Rightarrow> Inl e
      | Inr rs \<Rightarrow>
          (let opts = workerOptions.truncate (s\<lparr>wo_retrySeconds := (if rs = [] then [5] else rs)\<rparr>) in
           if wo_shutdownTimeout opts \<le> 0 then Inl ShutdownNotPositive else Inr opts)))"

section \<open>Reading what was written\<close>

lemma num_digit_dec: "is_digit c \<Longrightarrow> num_digit c = Some (int (digit_val c))" "is_digit c \<Longrightarrow> digit_val c < 10"
    "is_digit c \<Longrightarrow> c \<noteq> CHR ''_''"
  by (auto simp: num_digit_def is_digit_def digit_val_def)

abbreviation dec_step :: "nat \<Rightarrow> char \<Rightarrow> nat" where
  "dec_step n c \<equiv> 10 * n + digit_val c"

lemma dec_le: "n \<le> foldl dec_step n cs"
proof (induction cs arbitrary: n)
  case (Cons c cs)
  have "n \<le> dec_step n c" by simp
  then show ?case using Cons[of "dec_step n c"] unfolding foldl_Cons by linarith
qed simp

lemma num_loop_dec:
  "\<forall>c \<in> set cs. is_digit c \<Longrightarrow> foldl dec_step n cs < 2 ^ 64 \<Longrightarrow> num_loop base0 10 cs (int n) = Inr (int (foldl dec_step n cs))"
proof (induction cs arbitrary: n)
  case (Cons c cs)
  have "dec_step n c < 2 ^ 64" using dec_le[of "dec_step n c" cs] Cons.prems(2) by simp
  then have "\<not> int n * 10 + int (digit_val c) \<ge> 2 ^ 64" by simp
  then show ?case using Cons.IH[of "dec_step n c"] Cons.prems num_digit_dec[of c] by (simp add: mult.commute)
qed simp

lemma show_nat_lead: "n > 0 \<Longrightarrow> hd (show_nat n) \<noteq> CHR ''0''"
proof (induction n rule: show_nat.induct)
  case (1 n)
  show ?case
  proof (cases "n < 10")
    case True
    have "digit_val (digit_char n) \<noteq> 0" using True 1(2) by simp
    then show ?thesis using True by (auto simp: show_nat.simps[of n] digit_val_def)
  next
    case False
    then show ?thesis using 1(1)[OF False] by (simp add: show_nat.simps[of n])
  qed
qed

lemma base_prefix_dec: "s \<noteq> [] \<Longrightarrow> hd s \<noteq> CHR ''0'' \<Longrightarrow> base_prefix s = (10, s)"
  by (cases s rule: base_prefix.cases) auto

lemma show_nat_zero: "show_nat 0 = ''0''"
  by code_simp

lemma ParseUint_show: "n < 2 ^ 64 \<Longrightarrow> ParseUint base0 (show_nat n) = Inr (int n)"
proof (cases "n = 0")
  case True
  then show ?thesis by (cases base0) (simp_all add: show_nat_zero ParseUint_def num_digit_def is_digit_def digit_val_def)
next
  case False
  assume n: "n < 2 ^ 64"
  have "num_loop base0 10 (show_nat n) 0 = Inr (int n)"
    using num_loop_dec[OF show_nat_digits, of 0] read_show_nat[of n] n by (simp add: read_nat_def)
  moreover have "CHR ''_'' \<notin> set (show_nat n)" using show_nat_digits num_digit_dec(3) by blast
  ultimately show ?thesis
    using base_prefix_dec[OF show_nat_not_Nil] show_nat_lead[of n] False by (cases base0) (simp_all add: ParseUint_def)
qed

lemma show_nat_sign: "hd (show_nat n) \<notin> {CHR ''+'', CHR ''-''}"
  using show_nat_digits[of n] by (auto simp: is_digit_def dest!: bspec[OF _ list.set_sel(1)[OF show_nat_not_Nil]])

lemma ParseInt_show: "in_int64 i \<Longrightarrow> ParseInt base0 (show_int i) = Inr i"
  using show_nat_sign[of "nat i"] ParseUint_show[of "nat i" base0]
  by (cases "show_nat (nat i)") (auto simp: show_int_def ParseUint_show signed_value_def in_int64_def nat_less_iff)

lemma Sscanf_show: "in_int64 i \<Longrightarrow> Sscanf_d (show_int i) = Some i"
proof -
  assume i: "in_int64 i"
  have t: "takeWhile is_digit (show_nat n) = show_nat n" for n using show_nat_digits by (simp add: takeWhile_eq_all_conv)
  show ?thesis
  proof (cases "i < 0")
    case True
    then show ?thesis using ParseInt_show[OF i, of False] by (simp add: Sscanf_d_def show_int_def t Let_def)
  next
    case False
    then have "accept_sign (show_int i) = ([], show_int i)"
      using show_nat_sign[of "nat i"] by (cases "show_nat (nat i)") (auto simp: show_int_def)
    then show ?thesis using False ParseInt_show[OF i, of False] by (simp add: Sscanf_d_def show_int_def t Let_def)
  qed
qed

lemma TrimSpace_id: "\<forall>c \<in> set s. \<not> is_space c \<Longrightarrow> TrimSpace s = s"
proof -
  have d: "\<forall>c \<in> set t. \<not> is_space c \<Longrightarrow> dropWhile is_space t = t" for t by (cases t) auto
  assume "\<forall>c \<in> set s. \<not> is_space c"
  then show ?thesis using d[of s] d[of "rev s"] by (simp add: TrimSpace_def)
qed

lemma show_int_chars: "\<forall>c \<in> set (show_int i). is_digit c \<or> c = CHR ''-''"
  using show_nat_digits[of "nat i"] show_nat_digits[of "nat (- i)"] by (auto simp: show_int_def)

lemma show_int_plain: "\<forall>c \<in> set (show_int i). \<not> is_space c \<and> c \<noteq> CHR '',''"
  using show_int_chars[of i] by (fastforce simp: is_digit_def is_space_def)

lemma show_int_no_comma: "CHR '','' \<notin> set (show_int i)"
  using show_int_plain by blast

fun show_list :: "int list \<Rightarrow> string" where
  "show_list [] = ''''"
| "show_list [x] = show_int x"
| "show_list (x # xs) = show_int x @ CHR '','' # show_list xs"

lemma Split_comma_plain: "CHR '','' \<notin> set s \<Longrightarrow> Split_comma s = [s]"
  by (induction s) auto

lemma Split_comma_append: "CHR '','' \<notin> set s \<Longrightarrow> Split_comma (s @ CHR '','' # t) = s # Split_comma t"
  by (induction s) auto

lemma Split_show_list: "rs \<noteq> [] \<Longrightarrow> Split_comma (show_list rs) = map show_int rs"
proof (induction rs rule: show_list.induct)
  case (2 x)
  then show ?case by (simp add: Split_comma_plain show_int_no_comma)
next
  case (3 x y ys)
  then show ?case by (simp add: Split_comma_append show_int_no_comma)
qed simp

lemma show_list_plain: "\<forall>c \<in> set (show_list rs). \<not> is_space c"
proof (induction rs rule: show_list.induct)
  case (2 x)
  then show ?case using show_int_plain[of x] by auto
next
  case (3 x y ys)
  have "\<not> is_space (CHR '','')" by (simp add: is_space_def)
  then show ?case using 3 show_int_plain[of x] by (simp add: ball_Un)
qed simp

lemma show_int_not_Nil [simp]: "show_int i \<noteq> []"
  by (simp add: show_int_def)

lemma retry_list_show: "\<forall>r \<in> set rs. in_int64 r \<Longrightarrow> retry_list (map show_int rs) acc = Inr (acc @ rs)"
proof (induction rs arbitrary: acc)
  case (Cons r rs)
  have "TrimSpace (show_int r) = show_int r" using show_int_plain[of r] by (intro TrimSpace_id) auto
  then show ?case using Cons by (simp add: Sscanf_show Let_def)
qed simp

text \<open>The options the program can run with, and the command line that asks for them.\<close>

definition valid_options :: "workerOptions \<Rightarrow> bool" where
  "valid_options opts \<longleftrightarrow> in_int64 (wo_timeout opts) \<and> in_int64 (wo_handleTimeout opts) \<and> in_int64 (wo_concurrent opts) \<and>
     in_int64 (wo_maxMessages opts) \<and> in_int64 (wo_shutdownTimeout opts) \<and> wo_shutdownTimeout opts > 0 \<and>
     wo_retrySeconds opts \<noteq> [] \<and> (\<forall>r \<in> set (wo_retrySeconds opts). in_int64 r)"

definition worker_args :: "workerOptions \<Rightarrow> string list" where
  "worker_args opts = [''-redis-addr'', wo_redisAddr opts, ''-channel'', wo_channel opts, ''-timeout'', show_int (wo_timeout opts),
     ''-handle-timeout'', show_int (wo_handleTimeout opts), ''-retry-seconds'', show_list (wo_retrySeconds opts),
     ''-concurrent'', show_int (wo_concurrent opts), ''-max-messages'', show_int (wo_maxMessages opts),
     ''-shutdown-timeout'', show_int (wo_shutdownTimeout opts)]"

lemma worker_args_parse:
  assumes "valid_options opts"
  shows "flag_Parse (worker_args opts) flag_defaults =
    Inr (workerOptions.extend (opts\<lparr>wo_retrySeconds := []\<rparr>) (flag_values.fields (show_list (wo_retrySeconds opts))))"
  using assms by (simp add: worker_args_def flag_name_def worker_flags_def ParseInt_show valid_options_def flag_defaults_def
      workerOptions.defs flag_values.defs)

lemma parse_worker_args:
  assumes "valid_options opts"
  shows "parseArgs (worker_args opts) = Inr opts"
proof -
  have "TrimSpace (show_list (wo_retrySeconds opts)) = show_list (wo_retrySeconds opts)"
    by (intro TrimSpace_id show_list_plain)
  moreover have "retry_list (Split_comma (show_list (wo_retrySeconds opts))) [] = Inr (wo_retrySeconds opts)"
    using assms retry_list_show[of "wo_retrySeconds opts" "[]"] by (simp add: Split_show_list valid_options_def)
  ultimately show ?thesis using assms
    by (simp add: parseArgs_def worker_args_parse valid_options_def workerOptions.defs flag_values.defs Let_def)
qed

lemma num_digit_nonneg: "num_digit c = Some d \<Longrightarrow> 0 \<le> d"
  by (auto simp: num_digit_def in_chars_def split: if_splits)

lemma num_loop_nonneg: "num_loop base0 base cs n = Inr v \<Longrightarrow> 0 \<le> n \<Longrightarrow> 0 \<le> base \<Longrightarrow> 0 \<le> v"
  by (induction cs arbitrary: n) (auto split: if_splits option.splits dest: num_digit_nonneg)

lemma base_prefix_nonneg: "0 \<le> fst (base_prefix s)"
  by (cases s rule: base_prefix.cases) auto

lemma ParseUint_nonneg: "ParseUint base0 s = Inr n \<Longrightarrow> 0 \<le> n"
  using base_prefix_nonneg[of s]
  by (cases "base_prefix s") (auto simp: ParseUint_def split: if_splits sum.splits elim!: num_loop_nonneg)

lemma ParseInt_range: "ParseInt base0 s = Inr i \<Longrightarrow> in_int64 i"
  by (cases s) (auto simp: signed_value_def in_int64_def split: sum.splits if_splits dest!: ParseUint_nonneg)

lemma Sscanf_range: "Sscanf_d p = Some v \<Longrightarrow> in_int64 v"
  by (auto simp: Sscanf_d_def Let_def split: prod.splits if_splits sum.splits intro: ParseInt_range)

lemma retry_list_range: "retry_list ps acc = Inr rs \<Longrightarrow> \<forall>r \<in> set acc. in_int64 r \<Longrightarrow> \<forall>r \<in> set rs. in_int64 r"
proof (induction ps arbitrary: acc)
  case (Cons p ps)
  show ?case
  proof (cases "TrimSpace p = ''''")
    case True
    then show ?thesis using Cons by simp
  next
    case False
    then obtain v where "Sscanf_d (TrimSpace p) = Some v" "retry_list ps (acc @ [v]) = Inr rs"
      using Cons(2) by (simp add: Let_def split: option.splits)
    then show ?thesis using Cons(1)[of "acc @ [v]"] Cons(3) Sscanf_range[of "TrimSpace p" v] by simp
  qed
qed simp

definition flags_ok :: "flag_values \<Rightarrow> bool" where
  "flags_ok s \<longleftrightarrow> in_int64 (wo_timeout s) \<and> in_int64 (wo_handleTimeout s) \<and> in_int64 (wo_concurrent s) \<and>
     in_int64 (wo_maxMessages s) \<and> in_int64 (wo_shutdownTimeout s) \<and> wo_retrySeconds s = []"

lemma flag_set_ok:
  assumes "map_of worker_flags name = Some f" and "flag_set f n v s = Inr s'" and "flags_ok s"
  shows "flags_ok s'"
  using assms ParseInt_range[of True v] by (auto simp: worker_flags_def flags_ok_def split: if_splits sum.splits)

lemma flag_Parse_ok: "flag_Parse args s = Inr s' \<Longrightarrow> flags_ok s \<Longrightarrow> flags_ok s'"
proof (induction args s rule: flag_Parse.induct)
  case (2 arg args s)
  show ?case
  proof (cases "classify_arg arg")
    case (Named name val)
    then obtain f where f: "map_of worker_flags name = Some f" using 2(3) by (auto split: option.splits if_splits)
    show ?thesis
    proof (cases val)
      case None
      then obtain v args' s1 where "args = v # args'" and s1: "flag_set f name v s = Inr s1" and "flag_Parse args' s1 = Inr s'"
        using 2(3) Named f by (simp split: list.splits sum.splits)
      then show ?thesis using 2(1)[OF Named f None] flag_set_ok[OF f s1 2(4)] by simp
    next
      case (Some v)
      then obtain s1 where s1: "flag_set f name v s = Inr s1" and "flag_Parse args s1 = Inr s'"
        using 2(3) Named f by (simp split: sum.splits)
      then show ?thesis using 2(2)[OF Named f Some] flag_set_ok[OF f s1 2(4)] by simp
    qed
  qed (use 2(3,4) in auto)
qed simp

lemma parseArgs_valid: "parseArgs args = Inr opts \<Longrightarrow> valid_options opts"
proof -
  assume p: "parseArgs args = Inr opts"
  then obtain s rs where s: "flag_Parse args flag_defaults = Inr s"
    and rs: "retry_list (Split_comma (TrimSpace (fv_retry s))) (wo_retrySeconds s) = Inr rs"
    and o: "opts = workerOptions.truncate (s\<lparr>wo_retrySeconds := (if rs = [] then [5] else rs)\<rparr>)" and pos: "\<not> wo_shutdownTimeout opts \<le> 0"
    by (auto simp: parseArgs_def Let_def split: sum.splits if_splits)
  have "flags_ok flag_defaults" by (simp add: flags_ok_def flag_defaults_def in_int64_def)
  then have ok: "flags_ok s" using flag_Parse_ok[OF s] by simp
  then have "\<forall>r \<in> set rs. in_int64 r" using retry_list_range[OF rs] by (simp add: flags_ok_def)
  moreover have "in_int64 5" by (simp add: in_int64_def)
  ultimately show ?thesis using ok pos o by (simp add: valid_options_def flags_ok_def workerOptions.defs)
qed

text \<open>C39. The command line reaches exactly the valid options (64-bit numbers, a positive shutdown timeout and at least one
  retry delay): every valid setting is what its written-out command line is parsed to, whatever the address and the channel
  look like, and no command line is parsed to anything else.\<close>

theorem parseArgs_roundtrip:
  "(parseArgs (worker_args opts) = Inr opts \<longleftrightarrow> valid_options opts) \<and> ((\<exists>args. parseArgs args = Inr opts) \<longleftrightarrow> valid_options opts)"
  using parse_worker_args parseArgs_valid by blast

end
