(* ===== verification/Worker_Example.thy ===== *)
theory Worker_Example
  imports Command_Line Consumer_Properties Worker
begin

text \<open>
  The example worker (\<^verbatim>\<open>examples/worker/main.go\<close>, \<^verbatim>\<open>run\<close>): what it makes of its options, and its shutdown, which has one
  goroutine in \<^verbatim>\<open>Wait\<close> while \<^verbatim>\<open>run\<close> may call \<^verbatim>\<open>Stop\<close> on the same worker.  The Redis client and its \<^verbatim>\<open>Ping\<close> are parameters;
  \<^verbatim>\<open>main\<close>, which prints the error and sets the exit status, is left out.
\<close>

section \<open>Construction\<close>

definition example_handler :: "'w handler" where
  "example_handler m w = (Returned ACK None, m, w)"

definition example_consumer :: "'w driver \<Rightarrow> workerOptions \<Rightarrow> 'w Consumer" where
  "example_consumer driver opts =
     NewConsumer driver (wo_channel opts) example_handler
       [Some (WithConsumerConcurrentLimit (wo_concurrent opts)),
        Some (WithConsumerAutoRestart (wo_maxMessages opts > 0)),
        Some (WithConsumerMaxMessages (wo_maxMessages opts)),
        Some (WithConsumerPopTimeout (int64 (wo_timeout opts * second_ns))),
        Some (WithConsumerHandleTimeout (int64 (wo_handleTimeout opts * second_ns))),
        Some (WithConsumerRetrySeconds (wo_retrySeconds opts))]"


section \<open>The select\<close>

text \<open>The goroutine that calls \<^verbatim>\<open>Wait\<close>, and \<^verbatim>\<open>run\<close> itself after it started that goroutine.\<close>

datatype waiter = WaitCall | InWait | WaitOver

datatype run_phase = InSelect | InStop | RunResult "error option"

record example_run =
  er_worker :: Worker
  er_signal :: bool
  er_done :: "error option list"
  er_waiter :: waiter
  er_phase :: run_phase

definition not_started :: "error option" where "not_started = Some (ErrText ''[Worker] not started'')"
definition timed_out :: "error option" where "timed_out = Some (ErrText ''[Worker] shutdown timeout exceeded'')"

definition example_begin :: "Worker \<Rightarrow> example_run" where
  "example_begin w = \<lparr>er_worker = Start w, er_signal = False, er_done = [], er_waiter = WaitCall, er_phase = InSelect\<rparr>"

datatype start_error = BadArgs flag_error | RedisConnect error

definition run_begin :: "(string \<Rightarrow> error option) \<Rightarrow> (string \<Rightarrow> 'w driver) \<Rightarrow> string list
    \<Rightarrow> start_error + ('w Consumer \<times> int \<times> example_run)" where
  "run_begin ping connect args = (case parseArgs args of
      Inl e \<Rightarrow> Inl (BadArgs e)
    | Inr opts \<Rightarrow> (case ping (wo_redisAddr opts) of
        Some e \<Rightarrow> Inl (RedisConnect e)
      | None \<Rightarrow> Inr (example_consumer (connect (wo_redisAddr opts)) opts, int64 (wo_shutdownTimeout opts * second_ns),
          example_begin NewWorker)))"

definition joinable :: "Worker \<Rightarrow> bool" where
  "joinable w \<longleftrightarrow> w_started w \<and> w_done w \<noteq> None"

definition stoppable :: "Worker \<Rightarrow> bool" where
  "stoppable w \<longleftrightarrow> joinable w \<and> w_cancel w \<noteq> None"

abbreviation alive :: "example_run \<Rightarrow> bool" where
  "alive s \<equiv> \<not> w_crashed (er_worker s)"

text \<open>The steps: a signal, the goroutine in \<^verbatim>\<open>Wait\<close>, \<^verbatim>\<open>run\<close> in its \<^verbatim>\<open>select\<close> and in \<^verbatim>\<open>Stop\<close>, and the goroutine of the worker.\<close>

inductive example_step :: "int \<Rightarrow> example_run \<Rightarrow> example_run \<Rightarrow> bool" for grace where
  signal: "alive s \<Longrightarrow> example_step grace s (s\<lparr>er_signal := True\<rparr>)"
| wait_blocks: "alive s \<Longrightarrow> er_waiter s = WaitCall \<Longrightarrow> joinable (er_worker s) \<Longrightarrow> act AWait (er_worker s) = Some w \<Longrightarrow>
    example_step grace s (s\<lparr>er_worker := w, er_waiter := InWait\<rparr>)"
| wait_refused: "alive s \<Longrightarrow> er_waiter s = WaitCall \<Longrightarrow> \<not> joinable (er_worker s) \<Longrightarrow> act AWait (er_worker s) = Some w \<Longrightarrow>
    example_step grace s (s\<lparr>er_worker := w, er_waiter := WaitOver, er_done := [not_started]\<rparr>)"
| wait_joins: "alive s \<Longrightarrow> er_waiter s = InWait \<Longrightarrow> at k (w_callers (er_worker s)) = Some (Waiting d) \<Longrightarrow> act (AJoin k) (er_worker s) = Some w \<Longrightarrow>
    example_step grace s (s\<lparr>er_worker := w, er_waiter := WaitOver, er_done := [w_err (er_worker s)]\<rparr>)"
| receives: "alive s \<Longrightarrow> er_phase s = InSelect \<Longrightarrow> er_done s = [e] \<Longrightarrow> example_step grace s (s\<lparr>er_done := [], er_phase := RunResult e\<rparr>)"
| stops: "alive s \<Longrightarrow> er_phase s = InSelect \<Longrightarrow> er_signal s \<Longrightarrow> stoppable (er_worker s) \<Longrightarrow> act (AStop grace) (er_worker s) = Some w \<Longrightarrow>
    example_step grace s (s\<lparr>er_worker := w, er_phase := InStop\<rparr>)"
| stop_refused: "alive s \<Longrightarrow> er_phase s = InSelect \<Longrightarrow> er_signal s \<Longrightarrow> \<not> stoppable (er_worker s) \<Longrightarrow> act (AStop grace) (er_worker s) = Some w \<Longrightarrow>
    example_step grace s (s\<lparr>er_worker := w, er_phase := RunResult not_started\<rparr>)"
| stop_cancels: "alive s \<Longrightarrow> er_phase s = InStop \<Longrightarrow> act (ACancel k) (er_worker s) = Some w \<Longrightarrow> example_step grace s (s\<lparr>er_worker := w\<rparr>)"
| stop_joins: "alive s \<Longrightarrow> er_phase s = InStop \<Longrightarrow> at k (w_callers (er_worker s)) = Some (StopWaiting d g) \<Longrightarrow> act (AJoin k) (er_worker s) = Some w \<Longrightarrow>
    example_step grace s (s\<lparr>er_worker := w, er_phase := RunResult (w_err (er_worker s))\<rparr>)"
| stop_times_out: "alive s \<Longrightarrow> er_phase s = InStop \<Longrightarrow> act (ATimeout k) (er_worker s) = Some w \<Longrightarrow>
    example_step grace s (s\<lparr>er_worker := w, er_phase := RunResult timed_out\<rparr>)"
| runner_runs: "alive s \<Longrightarrow> act (ARun k) (er_worker s) = Some w \<Longrightarrow> example_step grace s (s\<lparr>er_worker := w\<rparr>)"
| runner_returns: "alive s \<Longrightarrow> act (AReturn k r) (er_worker s) = Some w \<Longrightarrow> example_step grace s (s\<lparr>er_worker := w\<rparr>)"
| runner_closes: "alive s \<Longrightarrow> act (AClose k) (er_worker s) = Some w \<Longrightarrow> example_step grace s (s\<lparr>er_worker := w\<rparr>)"

section \<open>What run returns\<close>

text \<open>The calls in progress are those of the goroutine in \<^verbatim>\<open>Wait\<close> and of \<^verbatim>\<open>run\<close> in \<^verbatim>\<open>Stop\<close>, in either order.\<close>

definition calls_ok :: "int \<Rightarrow> waiter \<Rightarrow> run_phase \<Rightarrow> caller list \<Rightarrow> bool" where
  "calls_ok g wt ph cs \<longleftrightarrow>
     (if ph = InStop then
        (if wt = InWait then cs \<in> {[Waiting 0, Stopping 0 0 g], [Stopping 0 0 g, Waiting 0], [Waiting 0, StopWaiting 0 g], [StopWaiting 0 g, Waiting 0]}
         else cs \<in> {[Stopping 0 0 g], [StopWaiting 0 g]})
      else cs = (if wt = InWait then [Waiting 0] else []))"

text \<open>Before the first reset: the runner is somewhere between its start and the closed channel.\<close>

definition up :: "int \<Rightarrow> example_run \<Rightarrow> bool" where
  "up g s \<longleftrightarrow> (let w = er_worker s in w_done w = Some 0 \<and> w_cancel w = Some 0 \<and> w_started w \<and>
     calls_ok g (er_waiter s) (er_phase s) (w_callers w) \<and> (er_phase s = InSelect \<or> er_phase s = InStop \<and> er_signal s) \<and>
     er_done s = [] \<and> er_waiter s \<noteq> WaitOver \<and>
     (if 0 \<in> w_closed w then w_gors w = [] \<and> produced (w_log w) = [w_err w]
      else w_gors w = [Recorded] \<and> produced (w_log w) = [w_err w] \<or>
           (\<exists>x. w_gors w = [x] \<and> x \<noteq> Recorded) \<and> produced (w_log w) = []))"

text \<open>After \<^verbatim>\<open>Wait\<close> or \<^verbatim>\<open>Stop\<close> reset the worker because the runner was done, with result \<open>r\<close>.\<close>

definition down :: "int \<Rightarrow> error option \<Rightarrow> example_run \<Rightarrow> bool" where
  "down g r s \<longleftrightarrow> (let w = er_worker s in w_done w = None \<and> \<not> w_started w \<and> w_err w = None \<and> 0 \<in> w_closed w \<and> w_gors w = [] \<and>
     produced (w_log w) = [r] \<and> calls_ok g (er_waiter s) (er_phase s) (w_callers w) \<and>
     (er_phase s = InSelect \<longrightarrow> er_waiter s = WaitOver \<and> er_done s = [r]) \<and> (er_phase s = InStop \<longrightarrow> er_signal s \<and> er_waiter s = WaitOver) \<and>
     (\<forall>e. er_phase s = RunResult e \<longrightarrow> e = r \<or> er_signal s \<and> e \<in> {None, not_started}))"

definition shutdown_inv :: "int \<Rightarrow> example_run \<Rightarrow> bool" where
  "shutdown_inv g s \<longleftrightarrow>
     (if TimedOut \<in> set (w_log (er_worker s)) then er_phase s = RunResult timed_out \<and> er_signal s \<and> 0 < g
      else alive s \<and> (up g s \<or> (\<exists>r. down g r s)))"

lemma shutdown_inv_begin: "shutdown_inv g (example_begin NewWorker)"
  by (simp add: shutdown_inv_def up_def example_begin_def Start_def NewWorker_def logged_def calls_ok_def produced_def)

lemma Wait_joinable: "joinable w \<Longrightarrow> Wait w = w\<lparr>w_callers := w_callers w @ [Waiting (the (w_done w))]\<rparr>"
  by (auto simp: joinable_def Wait_def)

lemma Wait_refused: "\<not> joinable w \<Longrightarrow> Wait w = logged NotStarted w"
  by (auto simp: joinable_def Wait_def split: option.splits)

lemma Stop_stoppable:
  "stoppable w \<Longrightarrow> Stop g w = w\<lparr>w_callers := w_callers w @ [Stopping (the (w_done w)) (the (w_cancel w)) g]\<rparr>"
  by (auto simp: stoppable_def joinable_def Stop_def)

lemma Stop_refused: "\<not> stoppable w \<Longrightarrow> Stop g w = logged NotStarted w"
  by (auto simp: stoppable_def joinable_def Stop_def split: option.splits)

lemma act_keeps_log: "act a w = Some w' \<Longrightarrow> set (w_log w) \<subseteq> set (w_log w')"
  by (induction a w rule: act.induct)
    (auto simp: Start_def Wait_def Stop_def logged_def join_locked_def resetLocked_def split: option.splits caller.splits gor.splits if_splits)

lemma timed_out_step:
  assumes "example_step g s s'" and "TimedOut \<in> set (w_log (er_worker s))" and "er_phase s = RunResult e" and "er_signal s"
  shows "TimedOut \<in> set (w_log (er_worker s')) \<and> er_phase s' = RunResult e \<and> er_signal s'"
  using assms by (induction rule: example_step.induct) (auto simp del: act.simps dest!: act_keeps_log)

text \<open>The calls, by who makes them.\<close>

lemma calls_wait: "calls_ok g WaitCall ph cs \<Longrightarrow> calls_ok g InWait ph (cs @ [Waiting 0])"
  by (cases "ph = InStop") (simp_all add: calls_ok_def)

lemma calls_stop: "calls_ok g wt InSelect cs \<Longrightarrow> calls_ok g wt InStop (cs @ [Stopping 0 0 g])"
  by (cases "wt = InWait") (simp_all add: calls_ok_def)

lemma calls_over: "calls_ok g WaitCall ph cs \<Longrightarrow> calls_ok g WaitOver ph cs" "calls_ok g wt InSelect cs \<Longrightarrow> calls_ok g wt (RunResult e) cs"
  by (simp_all add: calls_ok_def split: if_splits)

lemma at_two: "at k [x, y] = Some z \<longleftrightarrow> k = 0 \<and> z = x \<or> k = 1 \<and> z = y"
  by (auto simp: at_def less_Suc_eq)

lemma calls_wait_joins:
  assumes "calls_ok g wt ph cs" and "at k cs = Some (Waiting d)"
  shows "d = 0 \<and> calls_ok g WaitOver ph (remove_nth k cs)"
  using assms by (auto simp: calls_ok_def at_single at_two remove_nth_def split: if_splits)

lemma calls_stop_cancels:
  assumes "calls_ok g wt ph cs" and "at k cs = Some (Stopping d c g')"
  shows "calls_ok g wt ph (cs[k := StopWaiting d g'])"
  using assms by (auto simp: calls_ok_def at_single at_two split: if_splits)

lemma calls_stop_joins:
  assumes "calls_ok g wt ph cs" and "at k cs = Some (StopWaiting d g')"
  shows "d = 0 \<and> g' = g \<and> calls_ok g wt (RunResult e) (remove_nth k cs)"
  using assms by (auto simp: calls_ok_def at_single at_two remove_nth_def split: if_splits)

text \<open>Both ends of a call that finds the runner done: the worker is reset, and the caller gets what was recorded.\<close>

lemma up_joined:
  assumes "up g s" and "at k (w_callers (er_worker s)) = Some x" and "caller_done x \<in> w_closed (er_worker s)"
  shows "x = Waiting 0 \<Longrightarrow> down g (w_err (er_worker s)) (s\<lparr>er_worker := join_locked k (er_worker s), er_waiter := WaitOver, er_done := [w_err (er_worker s)]\<rparr>)"
    and "x = StopWaiting 0 g' \<Longrightarrow> down g (w_err (er_worker s)) (s\<lparr>er_worker := join_locked k (er_worker s), er_phase := RunResult (w_err (er_worker s))\<rparr>)"
  using assms calls_wait_joins[of g "er_waiter s" "er_phase s" "w_callers (er_worker s)" k 0]
    calls_stop_joins[of g "er_waiter s" "er_phase s" "w_callers (er_worker s)" k 0 g']
  by (auto simp: up_def down_def Let_def join_locked_def resetLocked_def logged_def)

lemma down_joined:
  assumes "down g r s" and "at k (w_callers (er_worker s)) = Some x"
  shows "x = Waiting 0 \<Longrightarrow> er_waiter s = InWait \<Longrightarrow> down g r (s\<lparr>er_worker := join_locked k (er_worker s), er_waiter := WaitOver, er_done := [None]\<rparr>)"
    and "x = StopWaiting 0 g' \<Longrightarrow> er_phase s = InStop \<Longrightarrow> down g r (s\<lparr>er_worker := join_locked k (er_worker s), er_phase := RunResult None\<rparr>)"
  using assms calls_wait_joins[of g "er_waiter s" "er_phase s" "w_callers (er_worker s)" k 0]
    calls_stop_joins[of g "er_waiter s" "er_phase s" "w_callers (er_worker s)" k 0 g']
  by (auto simp: down_def Let_def join_locked_def resetLocked_def logged_def)

lemma TimedOut_join [simp]: "TimedOut \<in> set (w_log (join_locked k w)) \<longleftrightarrow> TimedOut \<in> set (w_log w)"
  by (simp add: join_locked_def logged_def resetLocked_def)

lemma crashed_join [simp]: "w_crashed (join_locked k w) = w_crashed w"
  by (simp add: join_locked_def logged_def resetLocked_def)

text \<open>What the goroutine of the worker does while the worker is up.\<close>

lemma up_runs:
  assumes "up g s" and "act a (er_worker s) = Some w" and "a \<in> {ARun k, AReturn k r, AClose k}" and "alive s"
  shows "up g (s\<lparr>er_worker := w\<rparr>) \<and> \<not> w_crashed w \<and> (TimedOut \<in> set (w_log w) \<longleftrightarrow> TimedOut \<in> set (w_log (er_worker s)))"
proof -
  consider "a = ARun k" | "a = AReturn k r" | "a = AClose k" using assms(3) by blast
  then show ?thesis
  proof cases
    case 1
    then have "at k (w_gors (er_worker s)) = Some Spawned \<and> w = er_worker s\<lparr>w_gors := (w_gors (er_worker s))[k := Running (w_ctx (er_worker s))]\<rparr>"
      using assms(2) by (auto split: option.splits gor.splits)
    then show ?thesis using assms(1,4) by (auto simp: up_def Let_def at_single split: if_splits)
  next
    case 2
    then obtain c where "at k (w_gors (er_worker s)) = Some (Running c)" and
      "w = logged (RunReturned (run_error r)) (er_worker s\<lparr>w_gors := (w_gors (er_worker s))[k := Recorded], w_err := run_error r\<rparr>)"
      using assms(2) by (auto split: option.splits gor.splits)
    then show ?thesis using assms(1,4) by (auto simp: up_def Let_def at_single logged_def split: if_splits)
  next
    case 3
    then have "at k (w_gors (er_worker s)) = Some Recorded" using assms(2) by (auto split: option.splits gor.splits)
    moreover from this have g: "w_gors (er_worker s) = [Recorded]" "k = 0" "0 \<notin> w_closed (er_worker s)" "w_done (er_worker s) = Some 0"
      using assms(1) by (auto simp: up_def Let_def at_single split: if_splits)
    ultimately have "w = er_worker s\<lparr>w_closed := insert 0 (w_closed (er_worker s)), w_gors := []\<rparr>"
      using assms(2) 3 by (simp add: remove_nth_def)
    then show ?thesis using assms(1,4) g by (auto simp: up_def Let_def)
  qed
qed

lemma runner_inv:
  assumes "up g s" and "act a (er_worker s) = Some w" and "a \<in> {ARun k, AReturn k r, AClose k}" and "alive s"
    and "TimedOut \<notin> set (w_log (er_worker s))"
  shows "shutdown_inv g (s\<lparr>er_worker := w\<rparr>)"
  using up_runs[OF assms(1-4)] assms(5) by (simp add: shutdown_inv_def)

lemma down_runs:
  assumes "down g r s" and "a \<in> {ARun k, AReturn k r', AClose k}"
  shows "act a (er_worker s) = None"
  using assms by (auto simp: down_def Let_def at_single)

lemma up_stoppable: "up g s \<Longrightarrow> stoppable (er_worker s) \<and> joinable (er_worker s)"
  by (auto simp: up_def Let_def stoppable_def joinable_def)

lemma down_not_joinable: "down g r s \<Longrightarrow> \<not> joinable (er_worker s) \<and> \<not> stoppable (er_worker s)"
  by (auto simp: down_def Let_def stoppable_def joinable_def)

lemma join_step:
  "act (AJoin k) w = Some w' \<Longrightarrow> at k (w_callers w) = Some x \<Longrightarrow> caller_done x \<in> w_closed w \<and> w' = join_locked k w"
  by (auto split: caller.splits if_splits)

lemma cancel_step:
  assumes "act (ACancel k) w = Some w'" and "calls_ok g wt ph (w_callers w)"
  obtains cc cs where "w' = w\<lparr>w_cancelled := cc, w_callers := cs\<rparr>" and "calls_ok g wt ph cs"
  using assms calls_stop_cancels[OF assms(2)] by (auto split: option.splits caller.splits)

lemma timeout_step:
  assumes "act (ATimeout k) (er_worker s) = Some w" and "calls_ok g wt ph (w_callers (er_worker s))" and "er_signal s"
  shows "shutdown_inv g (s\<lparr>er_worker := w, er_phase := RunResult timed_out\<rparr>)"
proof -
  obtain d g' where x: "at k (w_callers (er_worker s)) = Some (StopWaiting d g')" and "0 < g'" and "TimedOut \<in> set (w_log w)"
    using assms(1) by (auto simp: logged_def split: option.splits caller.splits if_splits)
  then show ?thesis using calls_stop_joins[OF assms(2) x] assms(3) by (simp add: shutdown_inv_def)
qed

lemma up_step:
  assumes "example_step g s s'" and "up g s" and "TimedOut \<notin> set (w_log (er_worker s))"
  shows "shutdown_inv g s'"
  using assms
proof (induction rule: example_step.induct)
  case (signal s)
  then have "up g (s\<lparr>er_signal := True\<rparr>)" by (auto simp: up_def Let_def)
  then show ?case using signal by (simp add: shutdown_inv_def)
next
  case (wait_blocks s w)
  then have "up g (s\<lparr>er_worker := w, er_waiter := InWait\<rparr>)"
    using calls_wait by (auto simp: up_def Let_def Wait_joinable)
  then show ?case using wait_blocks by (auto simp: shutdown_inv_def Wait_joinable)
next
  case (wait_joins s k d w)
  have j: "d \<in> w_closed (er_worker s)" "w = join_locked k (er_worker s)" "d = 0"
    using join_step[OF wait_joins(4,3)] wait_joins(3,5) calls_wait_joins by (auto simp: up_def Let_def)
  then have "down g (w_err (er_worker s)) (s\<lparr>er_worker := w, er_waiter := WaitOver, er_done := [w_err (er_worker s)]\<rparr>)"
    using up_joined(1)[OF wait_joins(5,3)] by simp
  then show ?case using wait_joins(1,6) j by (auto simp: shutdown_inv_def)
next
  case (stops s w)
  then have "up g (s\<lparr>er_worker := w, er_phase := InStop\<rparr>)"
    using calls_stop by (auto simp: up_def Let_def Stop_stoppable)
  then show ?case using stops by (auto simp: shutdown_inv_def Stop_stoppable)
next
  case (stop_cancels s k w)
  have "calls_ok g (er_waiter s) (er_phase s) (w_callers (er_worker s))" using stop_cancels(4) by (simp add: up_def Let_def)
  then obtain cc cs where w: "w = er_worker s\<lparr>w_cancelled := cc, w_callers := cs\<rparr>" "calls_ok g (er_waiter s) (er_phase s) cs"
    using cancel_step[OF stop_cancels(3)] by blast
  then have "up g (s\<lparr>er_worker := w\<rparr>)" using stop_cancels(4) by (auto simp: up_def Let_def)
  then show ?case using stop_cancels w(1) by (auto simp: shutdown_inv_def)
next
  case (stop_joins s k d g' w)
  have j: "d \<in> w_closed (er_worker s)" "w = join_locked k (er_worker s)" "d = 0"
    using join_step[OF stop_joins(4,3)] stop_joins(3,5) calls_stop_joins by (auto simp: up_def Let_def)
  then have "down g (w_err (er_worker s)) (s\<lparr>er_worker := w, er_phase := RunResult (w_err (er_worker s))\<rparr>)"
    using up_joined(2)[OF stop_joins(5,3)] by simp
  then show ?case using stop_joins(1,6) j by (auto simp: shutdown_inv_def)
next
  case (stop_times_out s k w)
  then show ?case using timeout_step[OF stop_times_out(3)] by (auto simp: up_def Let_def)
next
  case (runner_runs s k w)
  show ?case by (rule runner_inv[OF runner_runs(3,2) _ runner_runs(1,4), of k "RunErr None"]) simp
next
  case (runner_returns s k r w)
  show ?case by (rule runner_inv[OF runner_returns(3,2) _ runner_returns(1,4), of k r]) simp
next
  case (runner_closes s k w)
  show ?case by (rule runner_inv[OF runner_closes(3,2) _ runner_closes(1,4), of k "RunErr None"]) simp
qed (use up_stoppable in \<open>auto simp: up_def Let_def\<close>)

lemma down_step:
  assumes "example_step g s s'" and "down g r s" and "TimedOut \<notin> set (w_log (er_worker s))"
  shows "shutdown_inv g s'"
  using assms
proof (induction rule: example_step.induct)
  case (signal s)
  then have "down g r (s\<lparr>er_signal := True\<rparr>)" by (auto simp: down_def Let_def)
  then show ?case using signal by (auto simp: shutdown_inv_def)
next
  case (wait_refused s w)
  then have "down g r (s\<lparr>er_worker := w, er_waiter := WaitOver, er_done := [not_started]\<rparr>)"
    using calls_over(1) by (auto simp: down_def Let_def Wait_refused logged_def)
  then show ?case using wait_refused by (auto simp: shutdown_inv_def Wait_refused logged_def)
next
  case (wait_joins s k d w)
  have j: "w = join_locked k (er_worker s)" "d = 0" "w_err (er_worker s) = None"
    using join_step[OF wait_joins(4,3)] wait_joins(3,5) calls_wait_joins by (auto simp: down_def Let_def)
  then have "down g r (s\<lparr>er_worker := w, er_waiter := WaitOver, er_done := [w_err (er_worker s)]\<rparr>)"
    using down_joined(1)[OF wait_joins(5,3)] wait_joins(2) by simp
  then show ?case using wait_joins(1,6) j by (auto simp: shutdown_inv_def)
next
  case (receives s e)
  then have "down g r (s\<lparr>er_done := [], er_phase := RunResult e\<rparr>)" using calls_over(2) by (auto simp: down_def Let_def)
  then show ?case using receives by (auto simp: shutdown_inv_def)
next
  case (stop_refused s w)
  then have "down g r (s\<lparr>er_worker := w, er_phase := RunResult not_started\<rparr>)"
    using calls_over(2) by (auto simp: down_def Let_def Stop_refused logged_def)
  then show ?case using stop_refused by (auto simp: shutdown_inv_def Stop_refused logged_def)
next
  case (stop_cancels s k w)
  have "calls_ok g (er_waiter s) (er_phase s) (w_callers (er_worker s))" using stop_cancels(4) by (simp add: down_def Let_def)
  then obtain cc cs where w: "w = er_worker s\<lparr>w_cancelled := cc, w_callers := cs\<rparr>" "calls_ok g (er_waiter s) (er_phase s) cs"
    using cancel_step[OF stop_cancels(3)] by blast
  then have "down g r (s\<lparr>er_worker := w\<rparr>)" using stop_cancels(4) by (auto simp: down_def Let_def)
  then show ?case using stop_cancels w(1) by (auto simp: shutdown_inv_def)
next
  case (stop_joins s k d g' w)
  have j: "w = join_locked k (er_worker s)" "d = 0" "w_err (er_worker s) = None"
    using join_step[OF stop_joins(4,3)] stop_joins(3,5) calls_stop_joins by (auto simp: down_def Let_def)
  then have "down g r (s\<lparr>er_worker := w, er_phase := RunResult (w_err (er_worker s))\<rparr>)"
    using down_joined(2)[OF stop_joins(5,3)] stop_joins(2) by simp
  then show ?case using stop_joins(1,6) j by (auto simp: shutdown_inv_def)
next
  case (stop_times_out s k w)
  then show ?case using timeout_step[OF stop_times_out(3)] by (auto simp: down_def Let_def)
next
  case (runner_runs s k w)
  then show ?case using down_runs[of g r s "ARun k" k] by simp
next
  case (runner_returns s k r' w)
  then show ?case using down_runs[of g r s "AReturn k r'" k r'] by simp
next
  case (runner_closes s k w)
  then show ?case using down_runs[of g r s "AClose k" k] by simp
qed (use down_not_joinable in auto)

lemma shutdown_inv_step: "example_step g s s' \<Longrightarrow> shutdown_inv g s \<Longrightarrow> shutdown_inv g s'"
proof (cases "TimedOut \<in> set (w_log (er_worker s))")
  case True
  assume "example_step g s s'" and "shutdown_inv g s"
  then show ?thesis using timed_out_step[of g s s' timed_out] True by (simp add: shutdown_inv_def)
next
  case False
  assume "example_step g s s'" and "shutdown_inv g s"
  then show ?thesis using up_step down_step False by (metis shutdown_inv_def)
qed

lemma example_run_inv:
  assumes "(example_step g)\<^sup>*\<^sup>* (example_begin NewWorker) s"
  shows "shutdown_inv g s"
  using assms by (induction rule: rtranclp_induct) (auto intro: shutdown_inv_begin shutdown_inv_step)

text \<open>C40. The shutdown of the example, for every command line it accepts and every interleaving of the signal, the runner, the goroutine in
  \<^verbatim>\<open>Wait\<close> and \<^verbatim>\<open>Stop\<close>.  As long as \<^verbatim>\<open>Stop\<close> has not run into its time limit the process has not panicked, whether \<^verbatim>\<open>run\<close> is still
  in its \<^verbatim>\<open>select\<close>, in \<^verbatim>\<open>Stop\<close> or has returned; and if it has returned, the runner has finished and the result is, without a signal,
  exactly the runner's.  After a signal it is the runner's, or (when \<^verbatim>\<open>Wait\<close> returned first and reset the worker) nil or the error of a worker
  that was not started.  The limit strikes only after a signal and when it is positive, and \<^verbatim>\<open>run\<close> then returns the timeout error.\<close>

theorem example_run_result:
  assumes "run_begin ping connect args = Inr (c, grace, s0)" and "(example_step grace)\<^sup>*\<^sup>* s0 s"
  shows "if TimedOut \<in> set (w_log (er_worker s)) then er_signal s \<and> er_phase s = RunResult timed_out \<and> 0 < grace
    else alive s \<and> (\<forall>e. er_phase s = RunResult e \<longrightarrow> w_gors (er_worker s) = [] \<and>
      (\<exists>r. produced (w_log (er_worker s)) = [r] \<and> (e = r \<or> er_signal s \<and> e \<in> {None, not_started})))"
proof -
  have "s0 = example_begin NewWorker" using assms(1) by (auto simp: run_begin_def split: sum.splits option.splits)
  then have "shutdown_inv grace s" using example_run_inv assms(2) by simp
  then show ?thesis by (auto simp: shutdown_inv_def up_def down_def Let_def split: if_splits)
qed

text \<open>A graceful shutdown that is reported as an error: the runner returns nil after the signal, \<^verbatim>\<open>Wait\<close> takes the result and resets
  the worker, and \<^verbatim>\<open>Stop\<close>, called for the signal, finds a worker that was not started.\<close>

lemmas example_eval = example_begin_def NewWorker_def Start_def Wait_def Stop_def logged_def at_def joinable_def stoppable_def
  join_locked_def resetLocked_def run_error_def remove_nth_def

lemma example_run_masks:
  "\<exists>s. (example_step grace)\<^sup>*\<^sup>* (example_begin NewWorker) s \<and> er_phase s = RunResult not_started \<and> produced (w_log (er_worker s)) = [None]"
  apply (intro exI conjI)
    apply (rule converse_rtranclp_into_rtranclp, rule example_step.signal, simp add: example_eval)
    apply (rule converse_rtranclp_into_rtranclp, rule example_step.wait_blocks, (simp add: example_eval; fail)+)
    apply (rule converse_rtranclp_into_rtranclp, rule example_step.runner_runs[where k = 0], (simp add: example_eval; fail)+)
    apply (rule converse_rtranclp_into_rtranclp, rule example_step.runner_returns[where k = 0 and r = "RunErr None"], (simp add: example_eval; fail)+)
    apply (rule converse_rtranclp_into_rtranclp, rule example_step.runner_closes[where k = 0], (simp add: example_eval; fail)+)
    apply (rule converse_rtranclp_into_rtranclp, rule example_step.wait_joins[where k = 0], (simp add: example_eval; fail)+)
    apply (rule converse_rtranclp_into_rtranclp, rule example_step.stop_refused, (simp add: example_eval; fail)+)
    apply (rule rtranclp.rtrancl_refl)
   apply (simp_all add: example_eval produced_def)
  done

lemma example_run_result_witness:
  "\<exists>s c. run_begin (\<lambda>_. None) (\<lambda>_. redis_driver mem_redis) [] = Inr (c, 30 * second_ns, example_begin NewWorker) \<and>
     (example_step (30 * second_ns))\<^sup>*\<^sup>* (example_begin NewWorker) s \<and> er_phase s = RunResult not_started \<and>
     er_signal s \<and> alive s \<and> w_gors (er_worker s) = []"
proof -
  have "parseArgs [] = Inr \<lparr>wo_redisAddr = ''127.0.0.1:6379'', wo_channel = ''{queue}'', wo_timeout = 2, wo_handleTimeout = 10,
      wo_retrySeconds = [5], wo_concurrent = 10, wo_maxMessages = 0, wo_shutdownTimeout = 30\<rparr>" (is "_ = Inr ?o")
    by code_simp
  then have b: "run_begin (\<lambda>_. None) (\<lambda>_. redis_driver mem_redis) [] =
      Inr (example_consumer (redis_driver mem_redis) ?o, 30 * second_ns, example_begin NewWorker)"
    by (simp add: run_begin_def in_int64_def)
  obtain s where s: "(example_step (30 * second_ns))\<^sup>*\<^sup>* (example_begin NewWorker) s" "er_phase s = RunResult not_started"
    "produced (w_log (er_worker s)) = [None]"
    using example_run_masks by blast
  have "er_signal s \<and> alive s \<and> w_gors (er_worker s) = []"
    using example_run_result[OF b s(1)] s(2,3) by (auto simp: not_started_def timed_out_def split: if_splits)
  then show ?thesis using b s by blast
qed

end
