(* ===== verification/Spec2Isabelle.thy ===== *)
theory Spec2Isabelle
  imports Driver_Properties Delivery Recovery Isolation Key_Cache Consumer_Properties Consumer_Run Forwarder Worker Async_Queue Manager Server Fleet
    Logger Utils Order_Example Basic_Example Worker_Example
begin

text \<open>
  A verification development for \<^verbatim>\<open>async-queue-go\<close>, a message queue for Go programs on top of Redis.

  \<^bold>\<open>The program.\<close>  A producer publishes a task through a \<^verbatim>\<open>Queue\<close> (\<^verbatim>\<open>asyncqueue/asyncqueue.go\<close>), usually found through the
  process-wide default server (\<^verbatim>\<open>defaultserver.go\<close>).  The queue hands the message to a \<^verbatim>\<open>Driver\<close>; the Redis driver
  (\<^verbatim>\<open>pkg/queue/redis_driver.go\<close>) keeps each message under a key of its own and its id in one of five buckets
  (waiting, reserved, delayed, timeout, failed), and moves ids between them with Lua scripts (\<^verbatim>\<open>lua.go\<close>) that the server
  runs atomically.  A \<^verbatim>\<open>Server\<close> (\<^verbatim>\<open>server.go\<close>) owns a \<^verbatim>\<open>Manager\<close> (\<^verbatim>\<open>manager.go\<close>), which starts for each enabled queue one
  forwarder (\<^verbatim>\<open>forwarder.go\<close>), moving due and expired ids, and a number of consumers (\<^verbatim>\<open>consumer.go\<close>), each polling the
  driver and running handlers concurrently.  Both run inside a \<^verbatim>\<open>Worker\<close> (\<^verbatim>\<open>pkg/worker/worker.go\<close>).

  \<^bold>\<open>The theories, bottom up.\<close>

  \<^item> \<open>Go_Prelude\<close>: Go's 64-bit integers (\<open>int64\<close> wraps), error values with \<^verbatim>\<open>errors.Is\<close>, decimal numbers, shared list lemmas.
  \<^item> \<open>Core\<close> (\<^verbatim>\<open>pkg/core\<close>): the message with its JSON encoding and decoding, statuses, results, the retry table.
    \<open>Md5\<close>: the digest message ids are made of.  \<open>Keys\<close> (\<^verbatim>\<open>keys.go\<close>).  \<open>Backoff\<close> (\<^verbatim>\<open>backoff.go\<close>).
  \<^item> \<open>Redis_Server\<close>: the server and its \<^verbatim>\<open>cjson\<close> library, which are not part of the repository: a record of commands as a
    parameter, and the locales \<open>redis_server\<close> and \<open>cjson_library\<close> with what is documented of them.  \<open>Redis_Memory\<close>: an
    in-memory server that satisfies both, on which every theorem with this hypothesis is instantiated.
  \<^item> \<open>Lua_Scripts\<close> (\<^verbatim>\<open>lua.go\<close>): one definition per script.  \<open>Queue_Spec\<close>: the abstract queue, one operation per transition.
    \<open>Lua_Refinement\<close>: the scripts implement it (\<open>view\<close> is the abstraction function, \<open>chan_ok\<close> the data invariant).
  \<^item> \<open>Redis_Driver\<close> (\<^verbatim>\<open>redis_driver.go\<close>): every method, in a \<open>world\<close> that holds the database, the fate of each client call
    (delivered, refused, executed with the reply lost), what other clients do between two calls, and the clocks.
  \<^item> \<open>Driver\<close> (\<^verbatim>\<open>driver.go\<close>): the interface as a record and its contract as the locale \<open>queue_driver\<close>, which the consumer and the
    forwarder are verified against.  \<open>Driver_Refinement\<close>: the Redis driver refines the abstract queue method by method and meets the
    contract (a sublocale and its instance).  \<open>Reloading\<close>: the effect of \<^verbatim>\<open>Reload\<close> on any dead-letter list.
    \<open>Driver_Properties\<close>: what each method guarantees.
  \<^item> \<open>Queue_Invariant\<close>: the abstract transitions as a step relation, and its invariants.  \<open>Delivery\<close>: any sequence of method
    calls of any number of clients keeps them, up to what \<^verbatim>\<open>Flush\<close> deletes.  \<open>Recovery\<close>: rounds of forwarding work off any backlog, and a message
    outlives its consumer.  \<open>Isolation\<close>: what a method can change at all, from the locale \<open>redis_frame\<close> (a command changes only
    its keys), so that channels do not interfere.  \<open>Key_Cache\<close>: the concurrent cache of \<^verbatim>\<open>getKeys\<close> as a step relation.
  \<^item> \<open>Consumer\<close> (\<^verbatim>\<open>consumer.go\<close>, \<^verbatim>\<open>consumer_options.go\<close>): options and the processing of one message; \<open>Consumer_Properties\<close>: what
    it commits and counts.  \<open>Consumer_Run\<close>: \<^verbatim>\<open>Consumer.Run\<close> with its goroutines as the step relation \<open>run_step\<close>.
  \<^item> \<open>Forwarder\<close> (\<^verbatim>\<open>forwarder.go\<close>), \<open>Worker\<close> (\<^verbatim>\<open>worker.go\<close>), \<open>Async_Queue\<close> (\<^verbatim>\<open>asyncqueue.go\<close>, \<^verbatim>\<open>asyncqueue_options.go\<close>, \<^verbatim>\<open>task.go\<close>),
    \<open>Manager\<close> (\<^verbatim>\<open>manager.go\<close>, \<^verbatim>\<open>servemux.go\<close>, \<^verbatim>\<open>config.go\<close>), \<open>Server\<close> (\<^verbatim>\<open>server.go\<close>, \<^verbatim>\<open>server_option.go\<close>, \<^verbatim>\<open>defaultserver.go\<close>).
  \<^item> \<open>Fleet\<close> (\<^verbatim>\<open>manager.go\<close>): everything the manager starts for one queue, together: its consumers, each a run of \<open>Consumer_Run\<close>, restarted when
    they return, and its forwarder, interleaved with other clients by \<open>fleet_step\<close>; the proof is by rely and guarantee over the contract \<open>queue_driver\<close>.
  \<^item> \<open>Logger\<close> (\<^verbatim>\<open>pkg/logger\<close>): levels, the default logger and the lazy trace.  \<open>Utils\<close> (\<^verbatim>\<open>pkg/utils\<close>): the call site of a log line.
  \<^item> The example programs: \<open>Order_Example\<close> (\<^verbatim>\<open>examples/demo/order\<close>), a shop whose HTTP handlers and queue handler share a store,
    interleaved by \<open>shop_step\<close>; \<open>Basic_Example\<close> (\<^verbatim>\<open>examples/demo/basic\<close>); \<open>Command_Line\<close> and \<open>Worker_Example\<close>
    (\<^verbatim>\<open>examples/worker\<close>), the flags and the shutdown of a worker process, interleaved by \<open>example_step\<close>.
  \<^item> \<open>Demo\<close>: small concrete worlds for the instances.

  \<^bold>\<open>What is shown.\<close>  The driver: each method performs exactly its abstract transition, or none, under every fault and
  interference; published messages get fresh ids; commits keep expiry times to a second; reloading terminates, and what it moves, discards and
  leaves behind is stated for every list.  Delivery: no
  message is lost by any sequence of calls, except by \<^verbatim>\<open>Flush\<close>; calls on one channel leave every other channel as it is; the forwarder catches up with any backlog, and a message whose consumer died is delivered again;
  the key cache is invisible; with clients that commit only what they hold every id is in one place.  The consumer:
  each handler outcome commits its transition and is counted once; the concurrency and message limits hold; after cancellation a run ends in
  boundedly many steps without deadlock; no message is handled twice at the same time, by one consumer or by any of those the manager
  started for the queue; the counters balance.  The forwarder runs
  until its context ends.  The worker is safe with one owner that stops it without a time limit, and panics the process after a stop that timed out.  The manager starts all or
  nothing and keeps restarted consumers alive; once their context has ended all consumers of a queue come to their end together; configuration reaches the consumers; a task pushed through the package functions of a running
  server is what the next poll delivers.  The examples: payment queries never end among the failed messages; confirming a payment at once cancels its pending query; recorded payments stay, unless
  a query was between its read and its write; the command line reaches exactly the valid options; the example worker returns what its
  consumer returned, up to a listed set of exceptions after a signal, and does not panic before its time limit.  Some theorems record where the code does not do what its documentation says: cancelling an
  unknown id, errors swallowed by \<^verbatim>\<open>Pop\<close>, reloading past stale entries, commits after expiry, panicking hooks,
  a worker stopped with a time limit, negative delays, an example that overwrites a payment, one that reports a clean shutdown as an error and
  one whose producer panics when the server starts late.

  \<^bold>\<open>Hypotheses.\<close>  \<open>redis_lua\<close>: the server and \<^verbatim>\<open>cjson\<close> behave as documented.  \<open>world_ok\<close>: the channel's keys hold values of
  the right types, other clients keep that, and clocks stay within fourteen digits of seconds, which \<^verbatim>\<open>cjson\<close> prints exactly.
  \<open>quiet\<close>: no other client acts during this call; used where a result speaks of the state before and after.  \<open>honest\<close>: the client
  library reports \<^verbatim>\<open>redis.Nil\<close> only for an absent key.  \<open>redis_frame\<close>: a command changes no key that is not among its arguments.
  In \<open>run_step\<close> and \<open>fleet_step\<close> a call of the driver, with all its Redis calls, is one step; handlers return, and \<open>aloof\<close> ones do not use the channel
  they serve.  \<open>fleet_exclusive\<close> needs reservations that have not expired when the forwarder runs; \<open>fleet_stops\<close> does not.

  \<^bold>\<open>Bounds.\<close>  Integers are Isabelle's, wrapped by \<open>int64\<close> where the source can leave its range.  Loops that need not end
  (\<^verbatim>\<open>Reload\<close>, \<^verbatim>\<open>Pop\<close>, the forwarder) are partial functions into options; \<open>None\<close> is not returning, and that they return is proved.

  \<^bold>\<open>Not modelled.\<close>  The log calls inside the other components with the options that set a logger, and the banner, which only write output;
  the system clock behind \<^verbatim>\<open>pkg/clock\<close> and the Go call stack behind \<^verbatim>\<open>pkg/utils\<close>, whose readings are arguments; the \<^verbatim>\<open>main\<close> functions of
  the examples beyond their configuration and the producer (HTTP server, signals); the inside of the client
  library \<^verbatim>\<open>go-redis\<close>, of which only the outcomes of a call matter: that it may resend a command on its own (\<^verbatim>\<open>MaxRetries\<close>), so that one call is
  executed twice, is left out.  \<^verbatim>\<open>EXPIRE\<close> accepts every positive time.  JSON texts are syntax trees, so the compaction and HTML escaping of a raw payload are
  the identity, strings are valid UTF-8, and member names are folded by ASCII letters only.  \<^verbatim>\<open>json.Marshal\<close> of a task is an argument of the model.
  A consumer or forwarder inside the manager is represented by how it ends, at any time and with any result for a consumer, which covers more than the
  code can do; what it does is the subject of its own theory and of \<open>Fleet\<close>, and that it ends there and in \<open>Forwarder\<close>.  The wait of a rolled-back start
  for its goroutines is an emptied wait group.  In \<open>order_query_settles\<close> the queue handler of the shop reads and writes its store in one step;
  \<open>shop_step\<close> splits them.
\<close>

end
